(* ===== verification/Laminar_Prelude.thy ===== *)
theory Laminar_Prelude
  imports Main "HOL-Library.Multiset" "HOL-Library.Char_ord" "HOL-Library.List_Lexorder"
    "HOL-Library.Signed_Division"
begin

text \<open>
  Shared vocabulary of the development: the fact collections the component proofs use, and the
  generic facts on lists, counting and C++ integer division that more than one component needs.

  \<^item> \<open>frame_simps\<close>: what an operation leaves unchanged (the record fields it does not write).
  \<^item> \<open>len_simps\<close>: lengths of the vectors an operation writes.

  C++ \<open>int\<close> values are HOL \<^typ>\<open>int\<close>: a signed overflow is undefined behaviour in C++, so the
  model describes the runs without one. The addition of \<open>CeilDiv\<close>, whose operands the configuration
  can make large, stays in range under the clamps of the worker (\<open>CeilDiv_no_overflow\<close>); the other
  operands are counters, and the lengths of prompts and batches.
  C++ \<open>std::string\<close> is a list of bytes, \<^typ>\<open>char list\<close>, compared byte-wise
  (\<open>HOL-Library.Char_ord\<close> and \<open>List_Lexorder\<close>) as \<open>std::string::operator<\<close> does.
\<close>

named_theorems frame_simps
named_theorems len_simps

subsection \<open>Counting and list update\<close>

lemma length_filter_list_update:
  assumes "i < length xs"
  shows "int (length (filter P (xs[i := y]))) =
    int (length (filter P xs)) - (if P (xs ! i) then 1 else 0) + (if P y then 1 else 0)"
  using assms
proof (induction xs arbitrary: i)
  case Nil
  then show ?case by simp
next
  case (Cons x xs)
  show ?case
  proof (cases i)
    case 0
    then show ?thesis by simp
  next
    case (Suc j)
    with Cons.prems Cons.IH [of j] show ?thesis by (auto split: if_splits)
  qed
qed

lemma count_list_le_1: "distinct xs \<Longrightarrow> count_list xs x = (if x \<in> set xs then 1 else 0)"
  by (induction xs) auto

lemma count_list_eq_0: "x \<notin> set xs \<Longrightarrow> count_list xs x = 0"
  by simp

lemma count_list_pos: "x \<in> set xs \<Longrightarrow> 0 < count_list xs x"
  by (meson count_list_0_iff gr0I)

lemma sum_list_add_mset:
  fixes f :: "'a \<Rightarrow> nat"
  assumes "mset xs = add_mset x (mset ys)"
  shows "sum_list (map f xs) = f x + sum_list (map f ys)"
proof -
  have "sum_list (map f xs) = \<Sum>\<^sub># (image_mset f (mset xs))"
    by (simp flip: sum_mset_sum_list)
  also have "\<dots> = f x + \<Sum>\<^sub># (image_mset f (mset ys))"
    by (simp add: assms)
  also have "\<dots> = f x + sum_list (map f ys)"
    by (simp flip: sum_mset_sum_list)
  finally show ?thesis .
qed

lemma sum_list_map_mset_cong:
  fixes f :: "'a \<Rightarrow> nat"
  shows "mset xs = mset ys \<Longrightarrow> sum_list (map f xs) = sum_list (map f ys)"
  by (metis mset_map sum_mset_sum_list)

lemma sum_list_zero: "(\<And>x. x \<in> set xs \<Longrightarrow> f x = (0 :: int)) \<Longrightarrow> sum_list (map f xs) = 0"
  by (induction xs) auto

lemma sum_set_le_sum_list: "sum f (set xs) \<le> sum_list (map (f :: 'a \<Rightarrow> nat) xs)"
  by (induction xs) (auto simp: sum.insert_if)

subsection \<open>C++ integer division\<close>

lemma sdiv_nonneg: "0 \<le> a \<Longrightarrow> 0 < b \<Longrightarrow> a sdiv b = (a div b :: int)"
  by (cases "a = 0") (auto simp: signed_divide_int_def)

subsection \<open>Loops that may not end\<close>

text \<open>
  \<open>while (true)\<close> with returns: one iteration either leaves the loop (\<^term>\<open>Inl\<close>) or goes on
  (\<^term>\<open>Inr\<close>); the value \<^term>\<open>None\<close> is a loop that never leaves.
\<close>

partial_function (option) iterate :: "('s \<Rightarrow> 'r + 's) \<Rightarrow> 's \<Rightarrow> 'r option" where
  "iterate f s = (case f s of Inl r \<Rightarrow> Some r | Inr s' \<Rightarrow> iterate f s')"

declare iterate.simps [code]

lemma iterate_invariant:
  assumes "iterate f s = Some r" and "I s"
    and "\<And>s s'. I s \<Longrightarrow> f s = Inr s' \<Longrightarrow> I s'" and "\<And>s r. I s \<Longrightarrow> f s = Inl r \<Longrightarrow> Q r"
  shows "Q r"
proof -
  define P where "P = (\<lambda>f s r. (\<forall>s s'. I s \<longrightarrow> f s = Inr s' \<longrightarrow> I s') \<longrightarrow> (\<forall>s r. I s \<longrightarrow> f s = Inl r \<longrightarrow> Q r) \<longrightarrow> I s \<longrightarrow> Q r)"
  have "P f s r"
  proof (rule iterate.raw_induct [OF _ assms(1)])
    fix it f s r
    assume IH: "\<And>f s r. it f s = Some r \<Longrightarrow> P f s r" and eq: "(case f s of Inl r \<Rightarrow> Some r | Inr s' \<Rightarrow> it f s') = Some r"
    show "P f s r"
    proof (cases "f s")
      case (Inl r')
      with eq show ?thesis by (auto simp: P_def)
    next
      case (Inr s')
      with eq IH [of f s' r] show ?thesis by (auto simp: P_def)
    qed
  qed
  then show ?thesis using assms(2-4) unfolding P_def by blast
qed

lemma iterate_returns:
  assumes "I s" and "\<And>s s'. I s \<Longrightarrow> f s = Inr s' \<Longrightarrow> I s' \<and> m s' < (m s :: nat)"
  shows "\<exists>r. iterate f s = Some r"
  using assms(1)
proof (induction "m s" arbitrary: s rule: less_induct)
  case less
  show ?case
  proof (cases "f s")
    case (Inl r)
    then show ?thesis by (simp add: iterate.simps)
  next
    case (Inr s')
    with less assms(2) have "\<exists>r. iterate f s' = Some r" by blast
    with Inr show ?thesis by (simp add: iterate.simps)
  qed
qed

text \<open>
  Two loops in step: as long as the first continues, the second continues in a related state or stops with an
  admissible result; when the first stops, so does the second.
\<close>

lemma iterate_simulation:
  fixes f :: "'s \<Rightarrow> 'r + 's"
  assumes "iterate f s = Some r" and "R s t"
    and "\<And>s t s'. R s t \<Longrightarrow> f s = Inr s' \<Longrightarrow> iterate f s' = Some r \<Longrightarrow>
      (\<exists>t'. g t = Inr t' \<and> R s' t') \<or> (\<exists>q. g t = Inl q \<and> Q q)"
    and "\<And>s t. R s t \<Longrightarrow> f s = Inl r \<Longrightarrow> \<exists>q. g t = Inl q \<and> Q q"
  shows "\<exists>q. iterate g t = Some q \<and> Q q"
proof -
  define P :: "('s \<Rightarrow> 'r + 's) \<Rightarrow> 's \<Rightarrow> 'r \<Rightarrow> bool" where "P = (\<lambda>f s r. \<forall>t. R s t \<longrightarrow>
    (\<forall>s t s'. R s t \<longrightarrow> f s = Inr s' \<longrightarrow> iterate f s' = Some r \<longrightarrow> (\<exists>t'. g t = Inr t' \<and> R s' t') \<or> (\<exists>q. g t = Inl q \<and> Q q)) \<longrightarrow>
    (\<forall>s t. R s t \<longrightarrow> f s = Inl r \<longrightarrow> (\<exists>q. g t = Inl q \<and> Q q)) \<longrightarrow> (\<exists>q. iterate g t = Some q \<and> Q q))"
  have "iterate f s = Some r \<and> P f s r"
  proof (rule iterate.raw_induct [OF _ assms(1)])
    fix it f s r
    assume IH: "\<And>f s r. it f s = Some r \<Longrightarrow> iterate f s = Some r \<and> P f s r"
      and eq: "(case f s of Inl r \<Rightarrow> Some r | Inr s' \<Rightarrow> it f s') = Some r"
    show "iterate f s = Some r \<and> P f s r"
    proof (cases "f s")
      case (Inl r')
      with eq show ?thesis unfolding P_def by (subst iterate.simps) (simp, subst iterate.simps, fastforce)
    next
      case (Inr s')
      with eq IH [of f s' r] have s': "iterate f s' = Some r" "P f s' r" by auto
      have "P f s r"
        unfolding P_def
      proof (intro allI impI)
        fix t
        assume R: "R s t" and step: "\<forall>s t s'. R s t \<longrightarrow> f s = Inr s' \<longrightarrow> iterate f s' = Some r \<longrightarrow> (\<exists>t'. g t = Inr t' \<and> R s' t') \<or> (\<exists>q. g t = Inl q \<and> Q q)"
          and stop: "\<forall>s t. R s t \<longrightarrow> f s = Inl r \<longrightarrow> (\<exists>q. g t = Inl q \<and> Q q)"
        from R step Inr s'(1) consider t' where "g t = Inr t'" "R s' t'" | q where "g t = Inl q" "Q q" by blast
        then show "\<exists>q. iterate g t = Some q \<and> Q q"
        proof cases
          case 1
          with s'(2) step stop show ?thesis unfolding P_def by (subst iterate.simps) simp
        next
          case 2
          then show ?thesis by (subst iterate.simps) simp
        qed
      qed
      with s'(1) Inr show ?thesis by (subst iterate.simps) simp
    qed
  qed
  then show ?thesis using assms(2-4) unfolding P_def by blast
qed

end
