(* ===== verification/Ordered_Map.thy ===== *)
theory Ordered_Map
  imports Laminar_Prelude
begin

text \<open>
  \<open>std::map\<close> as the worker uses it: \<open>find\<close>/\<open>count\<close>, \<open>operator[] =\<close>, \<open>emplace\<close>, \<open>erase\<close>,
  \<open>size\<close> and iteration in key order. The representation is the list of entries in ascending key
  order, which is what an iteration visits. The locale \<open>std_map\<close> is the contract the clients rely
  on: lookups after each update, and the multiset of entries an iteration sees; the facts about
  sums over the entries, which the allocator's reference counts need, are proved from that
  contract alone.
\<close>

type_synonym ('k, 'v) omap = "('k \<times> 'v) list"

definition omap_find :: "('k::linorder, 'v) omap \<Rightarrow> 'k \<Rightarrow> 'v option" where
  "omap_find m k = map_of m k"

fun omap_put :: "'k::linorder \<Rightarrow> 'v \<Rightarrow> ('k, 'v) omap \<Rightarrow> ('k, 'v) omap" where
  "omap_put k v [] = [(k, v)]"
| "omap_put k v ((k', v') # m) =
     (if k < k' then (k, v) # (k', v') # m
      else if k = k' then (k, v) # m
      else (k', v') # omap_put k v m)"

definition omap_emplace :: "'k::linorder \<Rightarrow> 'v \<Rightarrow> ('k, 'v) omap \<Rightarrow> ('k, 'v) omap" where
  "omap_emplace k v m = (if omap_find m k = None then omap_put k v m else m)"

fun omap_erase :: "'k::linorder \<Rightarrow> ('k, 'v) omap \<Rightarrow> ('k, 'v) omap" where
  "omap_erase k [] = []"
| "omap_erase k ((k', v') # m) = (if k = k' then m else (k', v') # omap_erase k m)"

definition omap_inv :: "('k::linorder, 'v) omap \<Rightarrow> bool" where
  "omap_inv m \<longleftrightarrow> sorted_wrt (<) (map fst m)"

subsection \<open>The contract\<close>

locale std_map =
  fixes empty :: "'m"
    and find :: "'m \<Rightarrow> 'k \<Rightarrow> 'v option"
    and put :: "'k \<Rightarrow> 'v \<Rightarrow> 'm \<Rightarrow> 'm"
    and erase :: "'k \<Rightarrow> 'm \<Rightarrow> 'm"
    and entries :: "'m \<Rightarrow> ('k \<times> 'v) list"
    and invar :: "'m \<Rightarrow> bool"
  assumes invar_empty: "invar empty"
    and invar_put: "invar m \<Longrightarrow> invar (put k v m)"
    and invar_erase: "invar m \<Longrightarrow> invar (erase k m)"
    and entries_empty: "entries empty = []"
    and entries_distinct: "invar m \<Longrightarrow> distinct (map fst (entries m))"
    and find_entries: "invar m \<Longrightarrow> find m k = map_of (entries m) k"
    and find_put: "invar m \<Longrightarrow> find (put k v m) = (find m)(k := Some v)"
    and find_erase: "invar m \<Longrightarrow> find (erase k m) = (find m)(k := None)"
begin

lemma in_entries_iff: "invar m \<Longrightarrow> (k, v) \<in> set (entries m) \<longleftrightarrow> find m k = Some v"
  by (simp add: find_entries entries_distinct)

lemma entries_mset: "invar m \<Longrightarrow> mset (entries m) = mset_set {(k, v). find m k = Some v}"
proof -
  assume inv: "invar m"
  have "distinct (entries m)"
    using entries_distinct [OF inv] by (simp add: distinct_map)
  moreover have "set (entries m) = {(k, v). find m k = Some v}"
    using in_entries_iff [OF inv] by auto
  ultimately show ?thesis by (metis mset_set_set)
qed

lemma finite_entries: "invar m \<Longrightarrow> finite {(k, v). find m k = Some v}"
proof -
  assume inv: "invar m"
  have "{(k, v). find m k = Some v} = set (entries m)"
    using in_entries_iff [OF inv] by auto
  then show ?thesis by simp
qed

lemma mset_put_new:
  assumes inv: "invar m" and new: "find m k = None"
  shows "mset (entries (put k v m)) = add_mset (k, v) (mset (entries m))"
proof -
  have "{(k', v'). find (put k v m) k' = Some v'} = insert (k, v) {(k', v'). find m k' = Some v'}"
    using new by (auto simp: find_put [OF inv] split: if_splits)
  then show ?thesis
    using new finite_entries [OF inv] by (simp add: entries_mset inv invar_put)
qed

lemma mset_erase:
  assumes inv: "invar m" and here: "find m k = Some v"
  shows "mset (entries m) = add_mset (k, v) (mset (entries (erase k m)))"
proof -
  have "{(k', v'). find m k' = Some v'} = insert (k, v) {(k', v'). find (erase k m) k' = Some v'}"
    using here by (auto simp: find_erase [OF inv] split: if_splits)
  then show ?thesis
    using finite_entries [OF invar_erase [OF inv, of k]]
    by (simp add: entries_mset inv invar_erase find_erase)
qed

lemma mset_erase_put:
  assumes inv: "invar m"
  shows "mset (entries (put k v m)) = add_mset (k, v) (mset (entries (erase k m)))"
proof -
  have "mset (entries (put k v m)) = add_mset (k, v) (mset (entries (erase k (put k v m))))"
    by (rule mset_erase) (simp_all add: inv invar_put find_put)
  moreover have "mset (entries (erase k (put k v m))) = mset (entries (erase k m))"
    by (simp add: entries_mset inv invar_put invar_erase find_put find_erase)
  ultimately show ?thesis by simp
qed

text \<open>A sum over the entries after each update; \<open>f\<close> weighs one entry.\<close>

lemma sum_put_new:
  fixes f :: "'k \<times> 'v \<Rightarrow> nat"
  assumes "invar m" and "find m k = None"
  shows "sum_list (map f (entries (put k v m))) = f (k, v) + sum_list (map f (entries m))"
  by (rule sum_list_add_mset) (rule mset_put_new [OF assms])

lemma sum_erase:
  fixes f :: "'k \<times> 'v \<Rightarrow> nat"
  assumes "invar m" and "find m k = Some v"
  shows "sum_list (map f (entries m)) = f (k, v) + sum_list (map f (entries (erase k m)))"
  by (rule sum_list_add_mset) (rule mset_erase [OF assms])

lemma sum_put_old:
  fixes f :: "'k \<times> 'v \<Rightarrow> nat"
  assumes inv: "invar m" and here: "find m k = Some v"
  shows "sum_list (map f (entries (put k v' m))) + f (k, v) = f (k, v') + sum_list (map f (entries m))"
proof -
  have "sum_list (map f (entries (put k v' m))) = f (k, v') + sum_list (map f (entries (erase k m)))"
    by (rule sum_list_add_mset) (rule mset_erase_put [OF inv])
  then show ?thesis using sum_erase [OF assms, of f] by simp
qed

lemma size_erase: "invar m \<Longrightarrow> find m k = Some v \<Longrightarrow> length (entries m) = Suc (length (entries (erase k m)))"
  by (drule (1) mset_erase) (metis size_add_mset size_mset)

lemma size_put_new: "invar m \<Longrightarrow> find m k = None \<Longrightarrow> length (entries (put k v m)) = Suc (length (entries m))"
  by (drule (1) mset_put_new [where v = v]) (metis size_add_mset size_mset)

lemma erase_absent: "invar m \<Longrightarrow> find m k = None \<Longrightarrow> mset (entries (erase k m)) = mset (entries m)"
  by (simp add: entries_mset invar_erase find_erase fun_upd_idem)

end

subsection \<open>The sorted entry list meets the contract\<close>

lemma omap_put_keys: "set (map fst (omap_put k v m)) = insert k (set (map fst m))"
  by (induction k v m rule: omap_put.induct) auto

lemma omap_put_inv: "omap_inv m \<Longrightarrow> omap_inv (omap_put k v m)"
proof (induction k v m rule: omap_put.induct)
  case (2 k v k' v' m)
  have "k' < x" if "x \<in> set (map fst (omap_put k v m))" "\<not> k < k'" "k \<noteq> k'" "omap_inv ((k', v') # m)" for x
    using that unfolding omap_put_keys by (auto simp: omap_inv_def)
  with 2 show ?case by (force simp: omap_inv_def)
qed (simp add: omap_inv_def)

lemma omap_erase_keys: "set (map fst (omap_erase k m)) \<subseteq> set (map fst m)"
  by (induction k m rule: omap_erase.induct) auto

lemma omap_erase_inv: "omap_inv m \<Longrightarrow> omap_inv (omap_erase k m)"
proof (induction k m rule: omap_erase.induct)
  case (2 k k' v' m)
  have "k' < x" if "x \<in> set (map fst (omap_erase k m))" "omap_inv ((k', v') # m)" for x
    using that subsetD [OF omap_erase_keys, of x k m] by (auto simp: omap_inv_def)
  with 2 show ?case by (force simp: omap_inv_def)
qed (simp add: omap_inv_def)

lemma omap_inv_distinct: "omap_inv m \<Longrightarrow> distinct (map fst m)"
  by (simp add: omap_inv_def strict_sorted_iff)

lemma omap_find_put: "omap_inv m \<Longrightarrow> omap_find (omap_put k v m) = (omap_find m)(k := Some v)"
  by (induction k v m rule: omap_put.induct) (auto simp: omap_inv_def omap_find_def fun_eq_iff)

lemma omap_find_erase: "omap_inv m \<Longrightarrow> omap_find (omap_erase k m) = (omap_find m)(k := None)"
proof (induction k m rule: omap_erase.induct)
  case (2 k k' v' m)
  have "map_of m k' = None" if "omap_inv ((k', v') # m)"
    using omap_inv_distinct [OF that] by (simp add: map_of_eq_None_iff)
  with 2 show ?case by (auto simp: omap_inv_def omap_find_def fun_eq_iff)
qed (simp add: omap_find_def fun_eq_iff)

interpretation om: std_map "[]" omap_find omap_put omap_erase "\<lambda>m. m" omap_inv
  by unfold_locales
    (auto simp: omap_inv_distinct omap_put_inv omap_erase_inv omap_find_put omap_find_erase
      omap_find_def, simp add: omap_inv_def)

lemma omap_find_Nil [simp]: "omap_find [] k = None"
  by (simp add: omap_find_def)

lemma omap_emplace_inv: "omap_inv m \<Longrightarrow> omap_inv (omap_emplace k v m)"
  by (simp add: omap_emplace_def om.invar_put)

lemma omap_emplace_new: "omap_find m k = None \<Longrightarrow> omap_emplace k v m = omap_put k v m"
  by (simp add: omap_emplace_def)

end
