(* ===== verification/Kv_Allocator.thy ===== *)
theory Kv_Allocator
  imports Ordered_Map
begin

text \<open>
  The KV-cache block allocator of \<open>backend/scheduling/continuous_batcher.cc\<close>
  (\<open>KvBlockAllocator\<close> and its \<open>Impl\<close>): a pool of blocks with reference counts, the sequences that
  hold blocks, and a cache of prompt prefixes whose blocks several sequences share and which are
  evicted, when idle, under memory pressure.

  The pimpl object \<open>Impl\<close> is the record \<open>kv_impl\<close>, threaded through every operation. Block ids are
  indexes into the block vector, produced only by the scan of \<open>AllocateBlocks\<close>, so they are
  \<^typ>\<open>nat\<close>: the source's \<open>block_id < 0\<close> guards can never fire and the \<open>block_id >= size\<close> guards
  are kept. Reference counts, statistics and token counts are signed.
\<close>

subsection \<open>Data\<close>

record KvCacheConfig =
  cfg_total_blocks :: int
  cfg_tokens_per_block :: int

record KvCacheStats =
  st_total_blocks :: int
  st_used_blocks :: int
  st_free_blocks :: int
  st_high_watermark_blocks :: int
  st_active_sequences :: int
  st_cached_prefixes :: int
  st_prefix_cache_hits :: int
  st_prefix_cache_misses :: int
  st_evictions :: int
  st_allocation_failures :: int

record KvAllocation =
  al_ok :: bool
  al_cache_hit :: bool
  al_attached_blocks :: int
  al_message :: string

record Block =
  occupied :: bool
  ref_count :: int
  cached_prefix_key :: string

record Sequence =
  sq_prompt_tokens :: int
  sq_generated_tokens :: int
  sq_prefix_block_count :: int
  sq_block_ids :: "nat list"

record PrefixEntry =
  pe_token_count :: int
  pe_block_ids :: "nat list"

record kv_impl =
  kv_config :: KvCacheConfig
  kv_blocks :: "Block list"
  kv_sequences :: "(string, Sequence) omap"
  kv_prefix_cache :: "(string, PrefixEntry) omap"
  kv_stats :: KvCacheStats

definition empty_block :: Block where
  "empty_block = \<lparr>occupied = False, ref_count = 0, cached_prefix_key = ''''\<rparr>"

definition zero_stats :: KvCacheStats where
  "zero_stats = \<lparr>st_total_blocks = 0, st_used_blocks = 0, st_free_blocks = 0,
     st_high_watermark_blocks = 0, st_active_sequences = 0, st_cached_prefixes = 0,
     st_prefix_cache_hits = 0, st_prefix_cache_misses = 0, st_evictions = 0,
     st_allocation_failures = 0\<rparr>"

subsection \<open>Helpers of the anonymous namespace\<close>

definition ClampPositive :: "int \<Rightarrow> int \<Rightarrow> int" where
  "ClampPositive value fallback = (if value > 0 then value else fallback)"

definition CeilDiv :: "int \<Rightarrow> int \<Rightarrow> int" where
  "CeilDiv value divisor = (if value \<le> 0 then 0 else (value + divisor - 1) sdiv divisor)"

definition AllocationError :: "string \<Rightarrow> KvAllocation" where
  "AllocationError message =
     \<lparr>al_ok = False, al_cache_hit = False, al_attached_blocks = 0, al_message = message\<rparr>"

definition AllocationOk :: "int \<Rightarrow> bool \<Rightarrow> KvAllocation" where
  "AllocationOk attached_blocks cache_hit =
     \<lparr>al_ok = True, al_cache_hit = cache_hit, al_attached_blocks = attached_blocks, al_message = ''''\<rparr>"

subsection \<open>\<open>KvBlockAllocator::Impl\<close>\<close>

definition Impl :: "KvCacheConfig \<Rightarrow> kv_impl" where
  "Impl input_config =
     (let config = \<lparr>cfg_total_blocks = ClampPositive (cfg_total_blocks input_config) 1,
                    cfg_tokens_per_block = ClampPositive (cfg_tokens_per_block input_config) 1\<rparr>
      in \<lparr>kv_config = config,
          kv_blocks = replicate (nat (cfg_total_blocks config)) empty_block,
          kv_sequences = [], kv_prefix_cache = [], kv_stats = zero_stats\<rparr>)"

definition FreeBlockCount :: "kv_impl \<Rightarrow> int" where
  "FreeBlockCount impl = int (length (filter (\<lambda>block. \<not> occupied block) (kv_blocks impl)))"

definition UsedBlockCount :: "kv_impl \<Rightarrow> int" where
  "UsedBlockCount impl = int (length (kv_blocks impl)) - FreeBlockCount impl"

definition RefreshHighWatermark :: "kv_impl \<Rightarrow> kv_impl" where
  "RefreshHighWatermark impl =
     impl\<lparr>kv_stats := (kv_stats impl)\<lparr>st_high_watermark_blocks :=
       max (st_high_watermark_blocks (kv_stats impl)) (UsedBlockCount impl)\<rparr>\<rparr>"

fun blocks_idle :: "Block list \<Rightarrow> nat list \<Rightarrow> bool" where
  "blocks_idle blocks [] = True"
| "blocks_idle blocks (block_id # rest) =
     (if block_id \<ge> length blocks then False
      else if ref_count (blocks ! block_id) \<noteq> 0 then False
      else blocks_idle blocks rest)"

definition PrefixEntryIsIdle :: "kv_impl \<Rightarrow> PrefixEntry \<Rightarrow> bool" where
  "PrefixEntryIsIdle impl entry = blocks_idle (kv_blocks impl) (pe_block_ids entry)"

definition FreeBlock :: "nat \<Rightarrow> kv_impl \<Rightarrow> kv_impl" where
  "FreeBlock block_id impl =
     (if block_id \<ge> length (kv_blocks impl) then impl
      else impl\<lparr>kv_blocks := (kv_blocks impl)[block_id := empty_block]\<rparr>)"

text \<open>
  The eviction loop walks the cache in key order; erasing an entry moves the iterator to the next
  one, so the walk visits the entries the cache had when it started.
\<close>

fun evict_loop :: "(string \<times> PrefixEntry) list \<Rightarrow> int \<Rightarrow> kv_impl \<Rightarrow> kv_impl" where
  "evict_loop [] required_free_blocks impl = impl"
| "evict_loop ((key, entry) # rest) required_free_blocks impl =
     (if \<not> FreeBlockCount impl < required_free_blocks then impl
      else if \<not> PrefixEntryIsIdle impl entry then evict_loop rest required_free_blocks impl
      else
        let freed = fold FreeBlock (pe_block_ids entry) impl;
            erased = freed\<lparr>kv_prefix_cache := omap_erase key (kv_prefix_cache freed)\<rparr>;
            counted = erased\<lparr>kv_stats := (kv_stats erased)\<lparr>st_evictions :=
                        st_evictions (kv_stats erased) + 1\<rparr>\<rparr>
        in evict_loop rest required_free_blocks counted)"

definition EvictIdlePrefixesUntil :: "int \<Rightarrow> kv_impl \<Rightarrow> kv_impl" where
  "EvictIdlePrefixesUntil required_free_blocks impl =
     evict_loop (kv_prefix_cache impl) required_free_blocks impl"

definition EnsureFreeBlocks :: "int \<Rightarrow> kv_impl \<Rightarrow> bool \<times> kv_impl" where
  "EnsureFreeBlocks block_count impl =
     (if block_count \<le> FreeBlockCount impl then (True, impl)
      else let impl' = EvictIdlePrefixesUntil block_count impl
           in (block_count \<le> FreeBlockCount impl', impl'))"

text \<open>
  The allocation scan: \<open>need\<close> is \<open>block_count - allocated.size()\<close> and \<open>index\<close> the position of the
  first remaining block; it returns the indexes taken and the blocks as written.
\<close>

fun alloc_scan :: "string \<Rightarrow> int \<Rightarrow> nat \<Rightarrow> Block list \<Rightarrow> nat list \<times> Block list" where
  "alloc_scan key need index [] = ([], [])"
| "alloc_scan key need index (block # rest) =
     (if \<not> 0 < need then ([], block # rest)
      else if occupied block then
        (let (allocated, rest') = alloc_scan key need (Suc index) rest in (allocated, block # rest'))
      else
        (let (allocated, rest') = alloc_scan key (need - 1) (Suc index) rest
         in (index # allocated,
             block\<lparr>occupied := True, ref_count := 1, cached_prefix_key := key\<rparr> # rest')))"

definition AllocateBlocks :: "int \<Rightarrow> string \<Rightarrow> kv_impl \<Rightarrow> nat list \<times> kv_impl" where
  "AllocateBlocks block_count key impl =
     (if block_count \<le> 0 then ([], impl)
      else case EnsureFreeBlocks block_count impl of
        (False, impl') \<Rightarrow>
          ([], impl'\<lparr>kv_stats := (kv_stats impl')\<lparr>st_allocation_failures :=
                 st_allocation_failures (kv_stats impl') + 1\<rparr>\<rparr>)
      | (True, impl') \<Rightarrow>
          let (allocated, blocks') = alloc_scan key block_count 0 (kv_blocks impl')
          in (allocated, RefreshHighWatermark (impl'\<lparr>kv_blocks := blocks'\<rparr>)))"

subsection \<open>\<open>KvBlockAllocator\<close>\<close>

definition add_ref :: "int \<Rightarrow> nat \<Rightarrow> kv_impl \<Rightarrow> kv_impl" where
  "add_ref delta block_id impl =
     impl\<lparr>kv_blocks := (kv_blocks impl)[block_id :=
       (kv_blocks impl ! block_id)\<lparr>ref_count := ref_count (kv_blocks impl ! block_id) + delta\<rparr>]\<rparr>"

definition cacheable :: "int \<Rightarrow> string \<Rightarrow> int \<Rightarrow> int" where
  "cacheable prompt_tokens prefix_cache_key prefix_tokens =
     (if prefix_cache_key \<noteq> '''' then
        max 0 (if prefix_tokens < 0 then prompt_tokens else min prompt_tokens prefix_tokens)
      else 0)"

definition attach_hit ::
  "string \<Rightarrow> Sequence \<Rightarrow> PrefixEntry \<Rightarrow> int \<Rightarrow> int \<Rightarrow> kv_impl \<Rightarrow> KvAllocation \<times> kv_impl" where
  "attach_hit sequence_id sequence cached suffix_block_count block_count impl =
     (let impl1 = fold (add_ref 1) (pe_block_ids cached) impl;
          sequence1 = sequence\<lparr>sq_block_ids := pe_block_ids cached\<rparr>;
          (suffix_blocks, impl2) = AllocateBlocks suffix_block_count '''' impl1
      in if int (length suffix_blocks) \<noteq> suffix_block_count then
           (AllocationError ''kv cache exhausted'', fold (add_ref (- 1)) (sq_block_ids sequence1) impl2)
         else
           let sequence2 = sequence1\<lparr>sq_block_ids := sq_block_ids sequence1 @ suffix_blocks\<rparr>;
               impl3 = impl2\<lparr>kv_sequences := omap_emplace sequence_id sequence2 (kv_sequences impl2)\<rparr>
           in (AllocationOk block_count True,
               impl3\<lparr>kv_stats := (kv_stats impl3)\<lparr>st_prefix_cache_hits :=
                 st_prefix_cache_hits (kv_stats impl3) + 1\<rparr>\<rparr>))"

definition attach_miss ::
  "string \<Rightarrow> string \<Rightarrow> int \<Rightarrow> Sequence \<Rightarrow> int \<Rightarrow> int \<Rightarrow> int \<Rightarrow> kv_impl \<Rightarrow> KvAllocation \<times> kv_impl" where
  "attach_miss sequence_id prefix_cache_key cacheable_tokens sequence prefix_block_count
       suffix_block_count block_count impl =
     (let (prefix_blocks, impl1) = AllocateBlocks prefix_block_count prefix_cache_key impl
      in if int (length prefix_blocks) \<noteq> prefix_block_count then
           (AllocationError ''kv cache exhausted'', impl1)
         else
           let (suffix_blocks, impl2) = AllocateBlocks suffix_block_count '''' impl1
           in if int (length suffix_blocks) \<noteq> suffix_block_count then
                (AllocationError ''kv cache exhausted'', fold FreeBlock prefix_blocks impl2)
              else
                let sequence1 = sequence\<lparr>sq_block_ids := prefix_blocks @ suffix_blocks\<rparr>;
                    impl3 =
                      (if prefix_cache_key \<noteq> '''' \<and> cacheable_tokens > 0 then
                         impl2\<lparr>kv_prefix_cache :=
                           omap_put prefix_cache_key
                             \<lparr>pe_token_count = cacheable_tokens, pe_block_ids = prefix_blocks\<rparr>
                             (kv_prefix_cache impl2)\<rparr>
                       else impl2)
                in (AllocationOk block_count False,
                    impl3\<lparr>kv_sequences := omap_emplace sequence_id sequence1 (kv_sequences impl3)\<rparr>))"

definition AllocatePrompt ::
  "string \<Rightarrow> int \<Rightarrow> string \<Rightarrow> int \<Rightarrow> kv_impl \<Rightarrow> KvAllocation \<times> kv_impl" where
  "AllocatePrompt sequence_id prompt_tokens0 prefix_cache_key prefix_tokens impl =
     (if sequence_id = '''' then (AllocationError ''sequence id is required'', impl)
      else if omap_find (kv_sequences impl) sequence_id \<noteq> None then
        (AllocationError ''sequence already exists'', impl)
      else
        let prompt_tokens = max 0 prompt_tokens0;
            cacheable_tokens = cacheable prompt_tokens prefix_cache_key prefix_tokens;
            per_block = cfg_tokens_per_block (kv_config impl);
            prefix_block_count = CeilDiv cacheable_tokens per_block;
            suffix_block_count = CeilDiv (prompt_tokens - cacheable_tokens) per_block;
            block_count = prefix_block_count + suffix_block_count;
            sequence = \<lparr>sq_prompt_tokens = prompt_tokens, sq_generated_tokens = 0,
                        sq_prefix_block_count = prefix_block_count, sq_block_ids = []\<rparr>
        in if prefix_cache_key \<noteq> '''' \<and> cacheable_tokens > 0 then
             (case omap_find (kv_prefix_cache impl) prefix_cache_key of
                Some cached \<Rightarrow>
                  if pe_token_count cached = cacheable_tokens then
                    attach_hit sequence_id sequence cached suffix_block_count block_count impl
                  else
                    attach_miss sequence_id prefix_cache_key cacheable_tokens sequence
                      prefix_block_count suffix_block_count block_count
                      (impl\<lparr>kv_stats := (kv_stats impl)\<lparr>st_prefix_cache_misses :=
                         st_prefix_cache_misses (kv_stats impl) + 1\<rparr>\<rparr>)
              | None \<Rightarrow>
                  attach_miss sequence_id prefix_cache_key cacheable_tokens sequence
                    prefix_block_count suffix_block_count block_count
                    (impl\<lparr>kv_stats := (kv_stats impl)\<lparr>st_prefix_cache_misses :=
                       st_prefix_cache_misses (kv_stats impl) + 1\<rparr>\<rparr>))
           else
             attach_miss sequence_id prefix_cache_key cacheable_tokens sequence
               prefix_block_count suffix_block_count block_count impl)"

definition AppendTokens :: "string \<Rightarrow> int \<Rightarrow> kv_impl \<Rightarrow> KvAllocation \<times> kv_impl" where
  "AppendTokens sequence_id token_count impl =
     (case omap_find (kv_sequences impl) sequence_id of
        None \<Rightarrow> (AllocationError ''sequence does not exist'', impl)
      | Some sequence \<Rightarrow>
          if token_count \<le> 0 then (AllocationOk 0 False, impl)
          else
            let per_block = cfg_tokens_per_block (kv_config impl);
                before_blocks = CeilDiv (sq_generated_tokens sequence) per_block;
                after_blocks = CeilDiv (sq_generated_tokens sequence + token_count) per_block;
                additional_blocks = after_blocks - before_blocks;
                (blocks, impl1) = AllocateBlocks additional_blocks '''' impl
            in if int (length blocks) \<noteq> additional_blocks then
                 (AllocationError ''kv cache exhausted'', impl1)
               else
                 let sequence1 = sequence\<lparr>sq_generated_tokens := sq_generated_tokens sequence + token_count,
                                          sq_block_ids := sq_block_ids sequence @ blocks\<rparr>
                 in (AllocationOk additional_blocks False,
                     impl1\<lparr>kv_sequences := omap_put sequence_id sequence1 (kv_sequences impl1)\<rparr>))"

definition release_block :: "nat \<Rightarrow> kv_impl \<Rightarrow> kv_impl" where
  "release_block block_id impl =
     (if block_id \<ge> length (kv_blocks impl) then impl
      else
        let impl1 = (if ref_count (kv_blocks impl ! block_id) > 0 then add_ref (- 1) block_id impl else impl);
            block = kv_blocks impl1 ! block_id
        in if ref_count block = 0 \<and> cached_prefix_key block = '''' then FreeBlock block_id impl1 else impl1)"

definition ReleaseSequence :: "string \<Rightarrow> kv_impl \<Rightarrow> kv_impl" where
  "ReleaseSequence sequence_id impl =
     (case omap_find (kv_sequences impl) sequence_id of
        None \<Rightarrow> impl
      | Some sequence \<Rightarrow>
          let impl1 = fold release_block (sq_block_ids sequence) impl
          in impl1\<lparr>kv_sequences := omap_erase sequence_id (kv_sequences impl1)\<rparr>)"

definition Stats :: "kv_impl \<Rightarrow> KvCacheStats" where
  "Stats impl = (kv_stats impl)\<lparr>
     st_total_blocks := int (length (kv_blocks impl)),
     st_used_blocks := UsedBlockCount impl,
     st_free_blocks := FreeBlockCount impl,
     st_active_sequences := int (length (kv_sequences impl)),
     st_cached_prefixes := int (length (kv_prefix_cache impl))\<rparr>"

definition SequenceBlockCount :: "string \<Rightarrow> kv_impl \<Rightarrow> int" where
  "SequenceBlockCount sequence_id impl =
     (case omap_find (kv_sequences impl) sequence_id of
        None \<Rightarrow> 0 | Some sequence \<Rightarrow> int (length (sq_block_ids sequence)))"

end
