(* ===== verification/Kv_Invariant.thy ===== *)
theory Kv_Invariant
  imports Kv_Allocator
begin

text \<open>
  The allocator's well-formedness invariant and its preservation. The invariant carries a list of
  pending block ids: blocks whose reference count has been raised for a sequence that is not
  registered yet. Every public operation starts and ends with nothing pending; inside an operation
  the pending list says which references the code still has to hand over or give back.
\<close>

subsection \<open>The invariant\<close>

definition seq_refs :: "kv_impl \<Rightarrow> nat \<Rightarrow> nat" where
  "seq_refs impl i = sum_list (map (\<lambda>(_, s). count_list (sq_block_ids s) i) (kv_sequences impl))"

definition block_ok :: "nat \<Rightarrow> Block \<Rightarrow> bool" where
  "block_ok refs b \<longleftrightarrow>
     (\<not> occupied b \<longrightarrow> b = empty_block) \<and> ref_count b = int refs \<and>
     (occupied b \<and> cached_prefix_key b = '''' \<longrightarrow> ref_count b = 1)"

definition config_ok :: "kv_impl \<Rightarrow> bool" where
  "config_ok impl \<longleftrightarrow> 0 < cfg_total_blocks (kv_config impl) \<and> 0 < cfg_tokens_per_block (kv_config impl) \<and>
     int (length (kv_blocks impl)) = cfg_total_blocks (kv_config impl)"

definition blocks_ok :: "nat list \<Rightarrow> kv_impl \<Rightarrow> bool" where
  "blocks_ok pend impl \<longleftrightarrow>
     (\<forall>i < length (kv_blocks impl). block_ok (seq_refs impl i + count_list pend i) (kv_blocks impl ! i)) \<and>
     (\<forall>i \<in> set pend. i < length (kv_blocks impl))"

definition seq_ok :: "nat \<Rightarrow> string \<Rightarrow> Sequence \<Rightarrow> bool" where
  "seq_ok n sid s \<longleftrightarrow> sid \<noteq> '''' \<and> distinct (sq_block_ids s) \<and> (\<forall>i \<in> set (sq_block_ids s). i < n) \<and>
     0 \<le> sq_prompt_tokens s \<and> 0 \<le> sq_generated_tokens s"

definition seqs_ok :: "kv_impl \<Rightarrow> bool" where
  "seqs_ok impl \<longleftrightarrow> omap_inv (kv_sequences impl) \<and>
     (\<forall>sid s. omap_find (kv_sequences impl) sid = Some s \<longrightarrow> seq_ok (length (kv_blocks impl)) sid s)"

definition entry_ok :: "kv_impl \<Rightarrow> string \<Rightarrow> PrefixEntry \<Rightarrow> bool" where
  "entry_ok impl k e \<longleftrightarrow> k \<noteq> '''' \<and> 0 < pe_token_count e \<and> distinct (pe_block_ids e) \<and>
     int (length (pe_block_ids e)) = CeilDiv (pe_token_count e) (cfg_tokens_per_block (kv_config impl)) \<and>
     (\<forall>i \<in> set (pe_block_ids e). i < length (kv_blocks impl) \<and> occupied (kv_blocks impl ! i) \<and>
        cached_prefix_key (kv_blocks impl ! i) = k)"

definition cache_ok :: "kv_impl \<Rightarrow> bool" where
  "cache_ok impl \<longleftrightarrow> omap_inv (kv_prefix_cache impl) \<and>
     (\<forall>k e. omap_find (kv_prefix_cache impl) k = Some e \<longrightarrow> entry_ok impl k e)"

definition stats_ok :: "kv_impl \<Rightarrow> bool" where
  "stats_ok impl \<longleftrightarrow>
     UsedBlockCount impl \<le> st_high_watermark_blocks (kv_stats impl) \<and>
     st_high_watermark_blocks (kv_stats impl) \<le> int (length (kv_blocks impl)) \<and>
     0 \<le> st_prefix_cache_hits (kv_stats impl) \<and> 0 \<le> st_prefix_cache_misses (kv_stats impl) \<and>
     0 \<le> st_evictions (kv_stats impl) \<and> 0 \<le> st_allocation_failures (kv_stats impl)"

definition kv_invp :: "nat list \<Rightarrow> kv_impl \<Rightarrow> bool" where
  "kv_invp pend impl \<longleftrightarrow>
     config_ok impl \<and> blocks_ok pend impl \<and> seqs_ok impl \<and> cache_ok impl \<and> stats_ok impl"

definition kv_inv :: "kv_impl \<Rightarrow> bool" where
  "kv_inv impl \<longleftrightarrow> kv_invp [] impl"

lemma kv_invpD:
  assumes "kv_invp pend impl"
  shows "config_ok impl" "blocks_ok pend impl" "seqs_ok impl" "cache_ok impl" "stats_ok impl"
  using assms by (auto simp: kv_invp_def)

lemma kv_invp_omap:
  assumes "kv_invp pend impl"
  shows "omap_inv (kv_sequences impl)" "omap_inv (kv_prefix_cache impl)"
  using assms by (auto simp: kv_invp_def seqs_ok_def cache_ok_def)

subsection \<open>Counting blocks\<close>

lemma FreeBlockCount_card:
  "FreeBlockCount impl = int (card {i. i < length (kv_blocks impl) \<and> \<not> occupied (kv_blocks impl ! i)})"
  by (simp add: FreeBlockCount_def length_filter_conv_card)

lemma UsedBlockCount_card:
  "UsedBlockCount impl = int (card {i. i < length (kv_blocks impl) \<and> occupied (kv_blocks impl ! i)})"
proof -
  have "length (kv_blocks impl) = length (filter occupied (kv_blocks impl))
      + length (filter (\<lambda>b. \<not> occupied b) (kv_blocks impl))"
    by (rule sum_length_filter_compl [symmetric])
  then show ?thesis
    by (simp add: UsedBlockCount_def FreeBlockCount_def length_filter_conv_card)
qed

lemma FreeBlockCount_nonneg [simp]: "0 \<le> FreeBlockCount impl"
  by (simp add: FreeBlockCount_def)

lemma UsedBlockCount_nonneg [simp]: "0 \<le> UsedBlockCount impl"
  by (simp add: UsedBlockCount_card)

lemma UsedBlockCount_le [simp]: "UsedBlockCount impl \<le> int (length (kv_blocks impl))"
  by (simp add: UsedBlockCount_def)

lemma UsedBlockCount_mono:
  assumes "length (kv_blocks impl') = length (kv_blocks impl)"
    and "\<And>i. i < length (kv_blocks impl) \<Longrightarrow> occupied (kv_blocks impl' ! i) \<Longrightarrow> occupied (kv_blocks impl ! i)"
  shows "UsedBlockCount impl' \<le> UsedBlockCount impl"
  unfolding UsedBlockCount_card using assms by (auto intro!: card_mono)

lemma used_blocks_cong:
  "kv_blocks impl' = kv_blocks impl \<Longrightarrow> UsedBlockCount impl' = UsedBlockCount impl"
  by (simp add: UsedBlockCount_def FreeBlockCount_def)

lemma CeilDiv_nonneg: "0 < d \<Longrightarrow> 0 \<le> CeilDiv n d"
  by (simp add: CeilDiv_def sdiv_nonneg pos_imp_zdiv_nonneg_iff)

lemma CeilDiv_mono: "0 < d \<Longrightarrow> m \<le> n \<Longrightarrow> CeilDiv m d \<le> CeilDiv n d"
  by (auto simp: CeilDiv_def sdiv_nonneg pos_imp_zdiv_nonneg_iff intro: zdiv_mono1)

text \<open>
  At the width of a C++ \<open>int\<close>: with at most \<open>2 ^ 20\<close> tokens per block, the most the worker's configuration allows, the
  sum in \<open>CeilDiv\<close> does not wrap around for any count up to \<open>2 ^ 31 - 2 ^ 20\<close>, and the quotient is in range.
\<close>

lemma CeilDiv_no_overflow:
  assumes "0 < d" and "d \<le> 2 ^ 20" and "0 < n" and "n \<le> 2 ^ 31 - 2 ^ 20"
  shows "signed_take_bit 31 (n + d - 1) = n + d - 1" and "1 \<le> CeilDiv n d" and "CeilDiv n d < 2 ^ 31"
proof -
  have "0 \<le> n + d - 1" "n + d - 1 < 2 ^ 31" using assms by simp_all
  then show "signed_take_bit 31 (n + d - 1) = n + d - 1" by (intro signed_take_bit_int_eq_self) simp_all
  have "(n + d - 1) div d \<le> n + d - 1" using assms zdiv_mono2 [of "n + d - 1" 1 d] by simp
  moreover have "0 < (n + d - 1) div d" using assms by (simp add: pos_imp_zdiv_pos_iff)
  ultimately show "1 \<le> CeilDiv n d" "CeilDiv n d < 2 ^ 31"
    using assms by (simp_all add: CeilDiv_def sdiv_nonneg)
qed

lemma CeilDiv_pos: "0 < d \<Longrightarrow> 0 < n \<Longrightarrow> 0 < CeilDiv n d"
  by (simp add: CeilDiv_def sdiv_nonneg pos_imp_zdiv_pos_iff)

subsection \<open>What the block-writing loops do\<close>

lemma FreeBlock_frame [frame_simps]:
  "kv_config (FreeBlock i impl) = kv_config impl"
  "kv_sequences (FreeBlock i impl) = kv_sequences impl"
  "kv_prefix_cache (FreeBlock i impl) = kv_prefix_cache impl"
  "kv_stats (FreeBlock i impl) = kv_stats impl"
  "length (kv_blocks (FreeBlock i impl)) = length (kv_blocks impl)"
  by (simp_all add: FreeBlock_def)

lemma add_ref_frame [frame_simps]:
  "kv_config (add_ref d i impl) = kv_config impl"
  "kv_sequences (add_ref d i impl) = kv_sequences impl"
  "kv_prefix_cache (add_ref d i impl) = kv_prefix_cache impl"
  "kv_stats (add_ref d i impl) = kv_stats impl"
  "length (kv_blocks (add_ref d i impl)) = length (kv_blocks impl)"
  by (simp_all add: add_ref_def)

lemma release_block_frame [frame_simps]:
  "kv_config (release_block i impl) = kv_config impl"
  "kv_sequences (release_block i impl) = kv_sequences impl"
  "kv_prefix_cache (release_block i impl) = kv_prefix_cache impl"
  "kv_stats (release_block i impl) = kv_stats impl"
  "length (kv_blocks (release_block i impl)) = length (kv_blocks impl)"
  by (simp_all add: release_block_def Let_def frame_simps)

text \<open>A loop over distinct ids whose body touches one block only rewrites each listed block once.\<close>

definition touches_one :: "(nat \<Rightarrow> kv_impl \<Rightarrow> kv_impl) \<Rightarrow> (Block \<Rightarrow> Block) \<Rightarrow> bool" where
  "touches_one step f \<longleftrightarrow> (\<forall>i impl. i < length (kv_blocks impl) \<longrightarrow>
     step i impl = impl\<lparr>kv_blocks := (kv_blocks impl)[i := f (kv_blocks impl ! i)]\<rparr>)"

definition map_blocks :: "nat set \<Rightarrow> (Block \<Rightarrow> Block) \<Rightarrow> kv_impl \<Rightarrow> kv_impl" where
  "map_blocks ids f impl = impl\<lparr>kv_blocks :=
     map (\<lambda>i. if i \<in> ids then f (kv_blocks impl ! i) else kv_blocks impl ! i) [0..<length (kv_blocks impl)]\<rparr>"

lemma map_blocks_frame [frame_simps]:
  "kv_config (map_blocks ids f impl) = kv_config impl"
  "kv_sequences (map_blocks ids f impl) = kv_sequences impl"
  "kv_prefix_cache (map_blocks ids f impl) = kv_prefix_cache impl"
  "kv_stats (map_blocks ids f impl) = kv_stats impl"
  "length (kv_blocks (map_blocks ids f impl)) = length (kv_blocks impl)"
  "seq_refs (map_blocks ids f impl) = seq_refs impl"
  by (simp_all add: map_blocks_def seq_refs_def fun_eq_iff)

lemma map_blocks_nth [simp]:
  "i < length (kv_blocks impl) \<Longrightarrow> kv_blocks (map_blocks ids f impl) ! i =
     (if i \<in> ids then f (kv_blocks impl ! i) else kv_blocks impl ! i)"
  by (simp add: map_blocks_def)

lemma fold_touches_one:
  assumes step: "touches_one step f"
    and "distinct ids" and "\<forall>i \<in> set ids. i < length (kv_blocks impl)"
  shows "fold step ids impl = map_blocks (set ids) f impl"
  using assms(2,3)
proof (induction ids arbitrary: impl)
  case Nil
  then show ?case by (simp add: map_blocks_def map_nth)
next
  case (Cons i ids)
  let ?impl = "impl\<lparr>kv_blocks := (kv_blocks impl)[i := f (kv_blocks impl ! i)]\<rparr>"
  have "fold step (i # ids) impl = fold step ids ?impl"
    using step Cons.prems by (simp add: touches_one_def)
  also have "\<dots> = map_blocks (set ids) f ?impl"
    using Cons.prems by (intro Cons.IH) auto
  also have "\<dots> = map_blocks (set (i # ids)) f impl"
  proof -
    have "kv_blocks (map_blocks (set ids) f ?impl) = kv_blocks (map_blocks (set (i # ids)) f impl)"
      using Cons.prems by (intro nth_equalityI) (auto simp: frame_simps nth_list_update)
    then show ?thesis by (simp add: map_blocks_def)
  qed
  finally show ?case .
qed

definition bump :: "int \<Rightarrow> Block \<Rightarrow> Block" where
  "bump d b = b\<lparr>ref_count := ref_count b + d\<rparr>"

definition unhold :: "Block \<Rightarrow> Block" where
  "unhold b = (let b1 = (if ref_count b > 0 then bump (- 1) b else b)
     in if ref_count b1 = 0 \<and> cached_prefix_key b1 = '''' then empty_block else b1)"

lemma unhold_occupied: "occupied (unhold b) \<Longrightarrow> occupied b"
  by (auto simp: unhold_def bump_def empty_block_def Let_def split: if_splits)

lemma unhold_key: "cached_prefix_key (unhold b) \<noteq> '''' \<Longrightarrow> cached_prefix_key b \<noteq> ''''"
  by (auto simp: unhold_def bump_def empty_block_def Let_def split: if_splits)

lemma touches_FreeBlock: "touches_one FreeBlock (\<lambda>_. empty_block)"
  by (simp add: touches_one_def FreeBlock_def)

lemma touches_add_ref: "touches_one (add_ref d) (bump d)"
  by (simp add: touches_one_def add_ref_def bump_def)

lemma touches_release_block: "touches_one release_block unhold"
  by (auto simp: touches_one_def release_block_def unhold_def Let_def add_ref_def FreeBlock_def bump_def)

lemmas fold_FreeBlock = fold_touches_one [OF touches_FreeBlock]
lemmas fold_add_ref = fold_touches_one [OF touches_add_ref]
lemmas fold_release_block = fold_touches_one [OF touches_release_block]


lemma blocks_idle_iff:
  "blocks_idle blocks ids \<longleftrightarrow> (\<forall>i \<in> set ids. i < length blocks \<and> ref_count (blocks ! i) = 0)"
  by (induction ids) auto

lemma seq_refs_cong: "kv_sequences impl' = kv_sequences impl \<Longrightarrow> seq_refs impl' = seq_refs impl"
  by (simp add: seq_refs_def fun_eq_iff)

lemma seq_refs_update [simp]:
  "seq_refs (kv_blocks_update f impl) = seq_refs impl"
  "seq_refs (kv_prefix_cache_update g impl) = seq_refs impl"
  "seq_refs (kv_stats_update h impl) = seq_refs impl"
  by (simp_all add: seq_refs_def fun_eq_iff)

lemma seq_refs_pos:
  assumes "seqs_ok impl" and "omap_find (kv_sequences impl) sid = Some s" and "i \<in> set (sq_block_ids s)"
  shows "0 < seq_refs impl i"
proof -
  have "omap_inv (kv_sequences impl)"
    using assms(1) by (simp add: seqs_ok_def)
  from om.sum_erase [OF this assms(2), of "\<lambda>(_, s). count_list (sq_block_ids s) i"]
  show ?thesis using assms(3) by (simp add: seq_refs_def count_list_pos)
qed

lemma held_occupied:
  assumes "kv_invp pend impl" and "omap_find (kv_sequences impl) sid = Some s" and "i \<in> set (sq_block_ids s)"
  shows "occupied (kv_blocks impl ! i)" "0 < ref_count (kv_blocks impl ! i)" "i < length (kv_blocks impl)"
proof -
  have seqs: "seqs_ok impl" and blocks: "blocks_ok pend impl"
    using assms(1) by (auto dest: kv_invpD)
  show i: "i < length (kv_blocks impl)"
    using seqs assms(2,3) by (auto simp: seqs_ok_def seq_ok_def)
  then have "block_ok (seq_refs impl i + count_list pend i) (kv_blocks impl ! i)"
    using blocks by (simp add: blocks_ok_def)
  then show "0 < ref_count (kv_blocks impl ! i)"
    using seq_refs_pos [OF seqs assms(2,3)] by (auto simp: block_ok_def)
  with \<open>block_ok _ _\<close> show "occupied (kv_blocks impl ! i)"
    by (auto simp: block_ok_def empty_block_def)
qed

lemma entry_blocks_disjoint:
  assumes "cache_ok impl"
    and "omap_find (kv_prefix_cache impl) k = Some e" and "omap_find (kv_prefix_cache impl) k' = Some e'"
    and "k \<noteq> k'"
  shows "set (pe_block_ids e) \<inter> set (pe_block_ids e') = {}"
proof -
  have "\<forall>i \<in> set (pe_block_ids e). cached_prefix_key (kv_blocks impl ! i) = k"
    "\<forall>i \<in> set (pe_block_ids e'). cached_prefix_key (kv_blocks impl ! i) = k'"
    using assms by (auto simp: cache_ok_def entry_ok_def)
  with assms(4) show ?thesis by (auto simp: disjoint_iff)
qed

subsection \<open>Eviction\<close>

definition cached_in :: "kv_impl \<Rightarrow> nat \<Rightarrow> bool" where
  "cached_in impl i \<longleftrightarrow> (\<exists>k e. omap_find (kv_prefix_cache impl) k = Some e \<and> i \<in> set (pe_block_ids e))"

text \<open>
  What allocation and eviction may change: the blocks in \<open>new\<close> are taken, any other block is as it
  was or is an idle cached block that has been freed, and cache entries can only disappear.
\<close>

definition evolves :: "nat set \<Rightarrow> kv_impl \<Rightarrow> kv_impl \<Rightarrow> bool" where
  "evolves new impl impl' \<longleftrightarrow>
     kv_config impl' = kv_config impl \<and> kv_sequences impl' = kv_sequences impl \<and>
     length (kv_blocks impl') = length (kv_blocks impl) \<and>
     (\<forall>k e. omap_find (kv_prefix_cache impl') k = Some e \<longrightarrow> omap_find (kv_prefix_cache impl) k = Some e) \<and>
     (\<forall>i < length (kv_blocks impl). i \<notin> new \<longrightarrow>
        (kv_blocks impl' ! i = kv_blocks impl ! i \<or>
         kv_blocks impl' ! i = empty_block \<and> cached_in impl i \<and> ref_count (kv_blocks impl ! i) = 0) \<and>
        (cached_in impl i \<longrightarrow> cached_in impl' i \<or> kv_blocks impl' ! i = empty_block))"

lemma evolves_refl [simp]: "evolves {} impl impl"
  by (simp add: evolves_def)

lemma cached_in_mono: "evolves new impl impl' \<Longrightarrow> cached_in impl' i \<Longrightarrow> cached_in impl i"
  by (auto simp: evolves_def cached_in_def)

lemma evolves_trans:
  assumes "evolves {} impl impl'" and "evolves new impl' impl''"
  shows "evolves new impl impl''"
proof -
  have "(kv_blocks impl'' ! i = kv_blocks impl ! i \<or>
      kv_blocks impl'' ! i = empty_block \<and> cached_in impl i \<and> ref_count (kv_blocks impl ! i) = 0) \<and>
      (cached_in impl i \<longrightarrow> cached_in impl'' i \<or> kv_blocks impl'' ! i = empty_block)"
    if "i < length (kv_blocks impl)" "i \<notin> new" for i
  proof -
    have "(kv_blocks impl' ! i = kv_blocks impl ! i \<or>
        kv_blocks impl' ! i = empty_block \<and> cached_in impl i \<and> ref_count (kv_blocks impl ! i) = 0) \<and>
        (cached_in impl i \<longrightarrow> cached_in impl' i \<or> kv_blocks impl' ! i = empty_block)"
      using assms(1) that by (simp add: evolves_def)
    moreover have "(kv_blocks impl'' ! i = kv_blocks impl' ! i \<or>
        kv_blocks impl'' ! i = empty_block \<and> cached_in impl' i \<and> ref_count (kv_blocks impl' ! i) = 0) \<and>
        (cached_in impl' i \<longrightarrow> cached_in impl'' i \<or> kv_blocks impl'' ! i = empty_block)"
      using assms that by (simp add: evolves_def)
    ultimately show ?thesis using cached_in_mono [OF assms(1)] by metis
  qed
  with assms show ?thesis by (simp add: evolves_def)
qed

lemma evolves_refs: "evolves new impl impl' \<Longrightarrow> seq_refs impl' = seq_refs impl"
  unfolding evolves_def by (blast intro: seq_refs_cong)

definition evict_entry :: "string \<Rightarrow> PrefixEntry \<Rightarrow> kv_impl \<Rightarrow> kv_impl" where
  "evict_entry k e impl = (map_blocks (set (pe_block_ids e)) (\<lambda>_. empty_block) impl)
     \<lparr>kv_prefix_cache := omap_erase k (kv_prefix_cache impl),
      kv_stats := (kv_stats impl)\<lparr>st_evictions := st_evictions (kv_stats impl) + 1\<rparr>\<rparr>"

lemma evict_entry_simps [simp]:
  "kv_config (evict_entry k e impl) = kv_config impl"
  "kv_sequences (evict_entry k e impl) = kv_sequences impl"
  "length (kv_blocks (evict_entry k e impl)) = length (kv_blocks impl)"
  "kv_prefix_cache (evict_entry k e impl) = omap_erase k (kv_prefix_cache impl)"
  "kv_stats (evict_entry k e impl) = (kv_stats impl)\<lparr>st_evictions := st_evictions (kv_stats impl) + 1\<rparr>"
  "seq_refs (evict_entry k e impl) = seq_refs impl"
  by (simp_all add: evict_entry_def frame_simps)

lemma evict_entry_nth [simp]:
  "i < length (kv_blocks impl) \<Longrightarrow> kv_blocks (evict_entry k e impl) ! i =
     (if i \<in> set (pe_block_ids e) then empty_block else kv_blocks impl ! i)"
  by (simp add: evict_entry_def)

lemma evict_loop_Cons:
  assumes "cache_ok impl" and "omap_find (kv_prefix_cache impl) k = Some e"
  shows "evict_loop ((k, e) # rest) n impl =
     (if \<not> FreeBlockCount impl < n then impl
      else if \<not> PrefixEntryIsIdle impl e then evict_loop rest n impl
      else evict_loop rest n (evict_entry k e impl))"
proof -
  have "distinct (pe_block_ids e)" "\<forall>i \<in> set (pe_block_ids e). i < length (kv_blocks impl)"
    using assms by (auto simp: cache_ok_def entry_ok_def)
  then show ?thesis
    by (simp add: fold_FreeBlock evict_entry_def Let_def frame_simps)
qed

lemma evict_entry_evolves:
  assumes inv: "kv_invp pend impl" and here: "omap_find (kv_prefix_cache impl) k = Some e"
    and idle: "PrefixEntryIsIdle impl e"
  shows "evolves {} impl (evict_entry k e impl)"
proof -
  have "omap_inv (kv_prefix_cache impl)"
    by (rule kv_invp_omap [OF inv])
  moreover have "ref_count (kv_blocks impl ! i) = 0" "cached_in impl i" if "i \<in> set (pe_block_ids e)" for i
    using idle that here by (auto simp: PrefixEntryIsIdle_def blocks_idle_iff cached_in_def)
  moreover have "cached_in (evict_entry k e impl) i \<or> i \<in> set (pe_block_ids e)" if "cached_in impl i" for i
  proof -
    from that obtain k' e' where "omap_find (kv_prefix_cache impl) k' = Some e'" "i \<in> set (pe_block_ids e')"
      by (auto simp: cached_in_def)
    with here \<open>omap_inv _\<close> show ?thesis
      by (cases "k' = k") (auto simp: cached_in_def om.find_erase)
  qed
  ultimately show ?thesis by (auto simp: evolves_def om.find_erase split: if_splits)
qed

lemma evict_entry_inv:
  assumes inv: "kv_invp pend impl" and here: "omap_find (kv_prefix_cache impl) k = Some e"
    and idle: "PrefixEntryIsIdle impl e"
  shows "kv_invp pend (evict_entry k e impl)"
proof -
  let ?impl = "evict_entry k e impl"
  note parts = kv_invpD [OF inv]
  have oinv: "omap_inv (kv_prefix_cache impl)"
    using parts by (simp add: cache_ok_def)
  have idle0: "\<forall>i \<in> set (pe_block_ids e). i < length (kv_blocks impl) \<and> ref_count (kv_blocks impl ! i) = 0"
    using idle by (simp add: PrefixEntryIsIdle_def blocks_idle_iff)
  have "blocks_ok pend ?impl"
    using parts(2) idle0 by (auto simp: blocks_ok_def block_ok_def empty_block_def)
  moreover have "entry_ok ?impl k' e'"
    if "omap_find (kv_prefix_cache impl) k' = Some e'" "k' \<noteq> k" for k' e'
  proof -
    have "entry_ok impl k' e'" using parts(4) that by (simp add: cache_ok_def)
    then show ?thesis
      using entry_blocks_disjoint [OF parts(4) that(1) here that(2)]
      by (fastforce simp: entry_ok_def)
  qed
  then have "cache_ok ?impl"
    using oinv by (auto simp: cache_ok_def om.find_erase om.invar_erase split: if_splits)
  moreover have "UsedBlockCount ?impl \<le> UsedBlockCount impl"
    by (rule UsedBlockCount_mono) (auto simp: empty_block_def split: if_splits)
  ultimately show ?thesis
    using parts by (auto simp: kv_invp_def config_ok_def seqs_ok_def stats_ok_def)
qed

lemma evict_loop_inv:
  assumes "kv_invp pend impl"
    and "\<forall>(k, e) \<in> set es. omap_find (kv_prefix_cache impl) k = Some e" and "distinct (map fst es)"
  shows "kv_invp pend (evict_loop es n impl) \<and> evolves {} impl (evict_loop es n impl)"
  using assms
  supply evict_loop.simps(2) [simp del]
proof (induction es arbitrary: impl)
  case Nil
  then show ?case by simp
next
  case (Cons ke es)
  obtain k e where ke: "ke = (k, e)" by (cases ke)
  have here: "omap_find (kv_prefix_cache impl) k = Some e"
    using Cons.prems(2) ke by simp
  note unf = evict_loop_Cons [OF kv_invpD(4) [OF Cons.prems(1)] here]
  consider (stop) "\<not> FreeBlockCount impl < n"
    | (busy) "FreeBlockCount impl < n" "\<not> PrefixEntryIsIdle impl e"
    | (evict) "FreeBlockCount impl < n" "PrefixEntryIsIdle impl e" by blast
  then show ?case
  proof cases
    case stop
    with Cons.prems show ?thesis by (simp add: ke unf)
  next
    case busy
    with Cons show ?thesis by (simp add: ke unf)
  next
    case evict
    have oinv: "omap_inv (kv_prefix_cache impl)"
      by (rule kv_invp_omap [OF Cons.prems(1)])
    have inv: "kv_invp pend (evict_entry k e impl)"
      using evict_entry_inv [OF Cons.prems(1) here evict(2)] .
    have "\<forall>(k', e') \<in> set es. omap_find (kv_prefix_cache (evict_entry k e impl)) k' = Some e'"
      using Cons.prems(2,3) ke by (force simp: om.find_erase [OF oinv])
    with inv Cons.prems(3) ke
    have IH: "kv_invp pend (evict_loop es n (evict_entry k e impl)) \<and>
        evolves {} (evict_entry k e impl) (evict_loop es n (evict_entry k e impl))"
      by (intro Cons.IH) auto
    with evict_entry_evolves [OF Cons.prems(1) here evict(2)] evict show ?thesis
      by (auto simp: ke unf intro: evolves_trans)
  qed
qed

lemma EnsureFreeBlocks_inv:
  assumes "kv_invp pend impl" and "EnsureFreeBlocks n impl = (ok, impl')"
  shows "kv_invp pend impl'" "evolves {} impl impl'" "ok \<longleftrightarrow> n \<le> FreeBlockCount impl'"
proof -
  have oinv: "omap_inv (kv_prefix_cache impl)"
    by (rule kv_invp_omap [OF assms(1)])
  have "kv_invp pend (EvictIdlePrefixesUntil n impl) \<and> evolves {} impl (EvictIdlePrefixesUntil n impl)"
    unfolding EvictIdlePrefixesUntil_def
    by (rule evict_loop_inv [OF assms(1)]) (auto simp: om.in_entries_iff [OF oinv] om.entries_distinct [OF oinv])
  then show "kv_invp pend impl'" "evolves {} impl impl'" "ok \<longleftrightarrow> n \<le> FreeBlockCount impl'"
    using assms by (auto simp: EnsureFreeBlocks_def Let_def split: if_splits)
qed

subsection \<open>Allocation\<close>

definition fresh_block :: "string \<Rightarrow> Block" where
  "fresh_block key = \<lparr>occupied = True, ref_count = 1, cached_prefix_key = key\<rparr>"

lemma nth_Cons_shift:
  assumes "Suc m \<le> i \<and> i - Suc m < length xs \<and> P (xs ! (i - Suc m))"
  shows "m \<le> i \<and> i - m < length (x # xs) \<and> P ((x # xs) ! (i - m))"
proof -
  from assms obtain k where "i = Suc (m + k)" by (metis add_Suc le_Suc_ex)
  with assms show ?thesis by (simp add: Suc_diff_le)
qed

lemma alloc_scan_spec:
  assumes "alloc_scan key need index blocks = (ids, blocks')"
  shows "length blocks' = length blocks" (is ?len)
    and "distinct ids" (is ?dist)
    and "\<forall>i \<in> set ids. index \<le> i \<and> i - index < length blocks \<and> \<not> occupied (blocks ! (i - index))" (is ?ran)
    and "\<forall>j < length blocks. blocks' ! j =
      (if index + j \<in> set ids then fresh_block key else blocks ! j)" (is ?nth)
    and "int (length ids) = min (max 0 need) (int (length (filter (\<lambda>b. \<not> occupied b) blocks)))" (is ?num)
proof -
  have "?len \<and> ?dist \<and> ?ran \<and> ?nth \<and> ?num"
    using assms
  proof (induction key need index blocks arbitrary: ids blocks' rule: alloc_scan.induct)
    case (1 key need index)
    then show ?case by simp
  next
    case (2 key need index b bs)
    consider (stop) "\<not> 0 < need" | (skip) "0 < need" "occupied b" | (take) "0 < need" "\<not> occupied b"
      by blast
    then show ?case
    proof cases
      case stop
      with 2 show ?thesis by simp
    next
      case skip
      obtain ids1 bs1 where rec: "alloc_scan key need (Suc index) bs = (ids1, bs1)" by fastforce
      with skip 2 have eqs: "ids = ids1" "blocks' = b # bs1" by auto
      note IH = "2.IH"(1) [OF _ skip(2) rec]
      have ran: "index \<le> i \<and> i - index < length (b # bs) \<and> \<not> occupied ((b # bs) ! (i - index))"
        if "i \<in> set ids1" for i
        using IH skip(1) that by (intro nth_Cons_shift [where P = "\<lambda>b. \<not> occupied b"]) auto
      have "(b # bs1) ! j = (if index + j \<in> set ids1 then fresh_block key else (b # bs) ! j)"
        if "j < length (b # bs)" for j
        using IH skip(1) that by (cases j) (force simp: Suc_diff_le)+
      with IH skip ran show ?thesis by (simp add: eqs)
    next
      case take
      obtain ids1 bs1 where rec: "alloc_scan key (need - 1) (Suc index) bs = (ids1, bs1)" by fastforce
      have fresh: "b\<lparr>occupied := True, ref_count := 1, cached_prefix_key := key\<rparr> = fresh_block key"
        by (simp add: fresh_block_def)
      from take 2 rec have eqs: "ids = index # ids1" "blocks' = fresh_block key # bs1"
        by (auto simp: fresh)
      note IH = "2.IH"(2) [OF _ take(2) rec]
      have ran: "index \<le> i \<and> i - index < length (b # bs) \<and> \<not> occupied ((b # bs) ! (i - index))"
        if "i \<in> set ids1" for i
        using IH take(1) that by (intro nth_Cons_shift [where P = "\<lambda>b. \<not> occupied b"]) auto
      have "(fresh_block key # bs1) ! j =
          (if index + j \<in> set (index # ids1) then fresh_block key else (b # bs) ! j)"
        if "j < length (b # bs)" for j
        using IH take(1) that by (cases j) (force simp: Suc_diff_le)+
      with IH take ran show ?thesis by (auto simp: eqs)
    qed
  qed
  then show ?len ?dist ?ran ?nth ?num by blast+
qed


lemma RefreshHighWatermark_frame [frame_simps]:
  "kv_config (RefreshHighWatermark impl) = kv_config impl"
  "kv_blocks (RefreshHighWatermark impl) = kv_blocks impl"
  "kv_sequences (RefreshHighWatermark impl) = kv_sequences impl"
  "kv_prefix_cache (RefreshHighWatermark impl) = kv_prefix_cache impl"
  "seq_refs (RefreshHighWatermark impl) = seq_refs impl"
  by (simp_all add: RefreshHighWatermark_def)

lemma RefreshHighWatermark_stats:
  assumes "stats_ok (impl\<lparr>kv_blocks := bs\<rparr>)" and "length bs' = length bs"
  shows "stats_ok (RefreshHighWatermark (impl\<lparr>kv_blocks := bs'\<rparr>))"
proof -
  have "UsedBlockCount (RefreshHighWatermark (impl\<lparr>kv_blocks := bs'\<rparr>)) = UsedBlockCount (impl\<lparr>kv_blocks := bs'\<rparr>)"
    by (rule used_blocks_cong) (simp add: frame_simps)
  moreover have "UsedBlockCount (impl\<lparr>kv_blocks := bs'\<rparr>) \<le> int (length bs')"
    using UsedBlockCount_le [of "impl\<lparr>kv_blocks := bs'\<rparr>"] by simp
  ultimately show ?thesis
    using assms by (auto simp: stats_ok_def RefreshHighWatermark_def)
qed

lemma free_block_unused:
  assumes "kv_invp pend impl" and "i < length (kv_blocks impl)" and "\<not> occupied (kv_blocks impl ! i)"
  shows "seq_refs impl i = 0" "i \<notin> set pend" "\<not> cached_in impl i"
proof -
  have "block_ok (seq_refs impl i + count_list pend i) (kv_blocks impl ! i)"
    using assms by (auto dest!: kv_invpD(2) simp: blocks_ok_def)
  with assms(3) have "seq_refs impl i + count_list pend i = 0"
    by (auto simp: block_ok_def empty_block_def)
  then show "seq_refs impl i = 0" "i \<notin> set pend"
    using count_list_pos [of i pend] by auto
  show "\<not> cached_in impl i"
    using kv_invpD(4) [OF assms(1)] assms(3) by (auto simp: cached_in_def cache_ok_def entry_ok_def)
qed

lemma take_blocks_inv:
  assumes inv: "kv_invp pend impl" and scan: "alloc_scan key n 0 (kv_blocks impl) = (ids, bs)"
  defines "impl' \<equiv> RefreshHighWatermark (impl\<lparr>kv_blocks := bs\<rparr>)"
  shows "kv_invp (ids @ pend) impl'" "evolves (set ids) impl impl'"
proof -
  note parts = kv_invpD [OF inv] and scn = alloc_scan_spec [OF scan]
  have len: "length (kv_blocks impl') = length (kv_blocks impl)"
    using scn(1) by (simp add: impl'_def frame_simps)
  have nth: "kv_blocks impl' ! i = (if i \<in> set ids then fresh_block key else kv_blocks impl ! i)"
    if "i < length (kv_blocks impl)" for i
    using scn(4) that by (simp add: impl'_def frame_simps)
  have new: "i < length (kv_blocks impl) \<and> \<not> occupied (kv_blocks impl ! i)" if "i \<in> set ids" for i
    using scn(3) that by simp
  have frames: "kv_config impl' = kv_config impl" "kv_sequences impl' = kv_sequences impl"
    "kv_prefix_cache impl' = kv_prefix_cache impl" "seq_refs impl' = seq_refs impl"
    by (simp_all add: impl'_def frame_simps)
  show "evolves (set ids) impl impl'"
    using len nth by (simp add: evolves_def frames cached_in_def)
  have "block_ok (seq_refs impl i + count_list (ids @ pend) i) (kv_blocks impl' ! i)"
    if "i < length (kv_blocks impl)" for i
  proof (cases "i \<in> set ids")
    case True
    then have "seq_refs impl i = 0" "i \<notin> set pend"
      using free_block_unused [OF inv] new by auto
    with True scn(2) show ?thesis
      by (simp add: nth that block_ok_def fresh_block_def count_list_le_1)
  next
    case False
    with parts(2) that show ?thesis by (simp add: nth blocks_ok_def)
  qed
  then have "blocks_ok (ids @ pend) impl'"
    using parts(2) new by (auto simp: blocks_ok_def len frames)
  moreover have "entry_ok impl' k e" if "omap_find (kv_prefix_cache impl) k = Some e" for k e
  proof -
    have ok: "entry_ok impl k e" using parts(4) that by (simp add: cache_ok_def)
    then have "i \<notin> set ids" if "i \<in> set (pe_block_ids e)" for i
      using new that by (auto simp: entry_ok_def)
    with ok show ?thesis by (auto simp: entry_ok_def frames len nth)
  qed
  then have "cache_ok impl'"
    using parts(4) by (simp add: cache_ok_def frames)
  moreover have "stats_ok impl'"
    unfolding impl'_def using parts(5) scn(1)
    by (intro RefreshHighWatermark_stats [where bs = "kv_blocks impl"]) simp_all
  ultimately show "kv_invp (ids @ pend) impl'"
    using parts(1,3) by (simp add: kv_invp_def config_ok_def seqs_ok_def frames len)
qed

lemma kv_invp_failure:
  "kv_invp pend impl \<Longrightarrow> kv_invp pend (impl\<lparr>kv_stats := (kv_stats impl)\<lparr>st_allocation_failures :=
     st_allocation_failures (kv_stats impl) + 1\<rparr>\<rparr>)"
  "kv_invp pend impl \<Longrightarrow> kv_invp pend (impl\<lparr>kv_stats := (kv_stats impl)\<lparr>st_prefix_cache_misses :=
     st_prefix_cache_misses (kv_stats impl) + 1\<rparr>\<rparr>)"
  "kv_invp pend impl \<Longrightarrow> kv_invp pend (impl\<lparr>kv_stats := (kv_stats impl)\<lparr>st_prefix_cache_hits :=
     st_prefix_cache_hits (kv_stats impl) + 1\<rparr>\<rparr>)"
  by (simp_all add: kv_invp_def config_ok_def blocks_ok_def seqs_ok_def cache_ok_def entry_ok_def
      stats_ok_def UsedBlockCount_def FreeBlockCount_def)

lemma AllocateBlocks_spec:
  assumes inv: "kv_invp pend impl" and alloc: "AllocateBlocks n key impl = (ids, impl')"
  shows "kv_invp (ids @ pend) impl'"
    and "evolves (set ids) impl impl'"
    and "distinct ids"
    and "\<forall>i \<in> set ids. i < length (kv_blocks impl) \<and> seq_refs impl i = 0 \<and> i \<notin> set pend \<and>
      \<not> cached_in impl' i \<and> kv_blocks impl' ! i = fresh_block key"
    and "ids = [] \<or> int (length ids) = n"
proof -
  consider (none) "n \<le> 0" "ids = []" "impl' = impl"
    | (fail) m where "EnsureFreeBlocks n impl = (False, m)" "ids = []"
        "impl' = m\<lparr>kv_stats := (kv_stats m)\<lparr>st_allocation_failures := st_allocation_failures (kv_stats m) + 1\<rparr>\<rparr>"
    | (ok) m bs where "0 < n" "EnsureFreeBlocks n impl = (True, m)" "alloc_scan key n 0 (kv_blocks m) = (ids, bs)"
        "impl' = RefreshHighWatermark (m\<lparr>kv_blocks := bs\<rparr>)"
    using alloc by (auto simp: AllocateBlocks_def split: if_splits prod.splits bool.splits)
  then have "kv_invp (ids @ pend) impl' \<and> evolves (set ids) impl impl' \<and> distinct ids \<and>
    (\<forall>i \<in> set ids. i < length (kv_blocks impl) \<and> seq_refs impl i = 0 \<and> i \<notin> set pend \<and>
      \<not> cached_in impl' i \<and> kv_blocks impl' ! i = fresh_block key) \<and> (ids = [] \<or> int (length ids) = n)"
  proof cases
    case none
    with inv show ?thesis by simp
  next
    case fail
    from EnsureFreeBlocks_inv [OF inv fail(1)] have "kv_invp pend m" "evolves {} impl m" by auto
    with fail show ?thesis by (auto simp: kv_invp_failure evolves_def cached_in_def)
  next
    case ok
    from EnsureFreeBlocks_inv [OF inv ok(2)]
    have m: "kv_invp pend m" "evolves {} impl m" "n \<le> FreeBlockCount m" by auto
    note scn = alloc_scan_spec [OF ok(3)]
    have len: "length (kv_blocks m) = length (kv_blocks impl)" "seq_refs m = seq_refs impl"
      using m(2) evolves_refs by (auto simp: evolves_def)
    have "\<not> cached_in m i \<Longrightarrow> \<not> cached_in impl' i" for i
      by (simp add: ok(4) cached_in_def frame_simps)
    then have "\<forall>i \<in> set ids. i < length (kv_blocks impl) \<and> seq_refs impl i = 0 \<and> i \<notin> set pend \<and>
        \<not> cached_in impl' i \<and> kv_blocks impl' ! i = fresh_block key"
      using free_block_unused [OF m(1)] scn(3,4) by (auto simp: len ok(4) frame_simps)
    moreover have "int (length ids) = n"
      using scn(5) ok(1) m(3) by (simp add: FreeBlockCount_def)
    moreover have "kv_invp (ids @ pend) impl' \<and> evolves (set ids) impl impl'"
      unfolding ok(4) using take_blocks_inv [OF m(1) ok(3)] evolves_trans [OF m(2)] by blast
    ultimately show ?thesis using scn(2) by blast
  qed
  then show "kv_invp (ids @ pend) impl'" "evolves (set ids) impl impl'" "distinct ids"
    "\<forall>i \<in> set ids. i < length (kv_blocks impl) \<and> seq_refs impl i = 0 \<and> i \<notin> set pend \<and>
      \<not> cached_in impl' i \<and> kv_blocks impl' ! i = fresh_block key"
    "ids = [] \<or> int (length ids) = n" by blast+
qed

subsection \<open>Handing over, giving back and releasing references\<close>

text \<open>Changing the entries of the two maps, with the blocks as they are.\<close>

lemma kv_invp_sequences:
  assumes inv: "kv_invp pend impl" and oinv: "omap_inv seqs"
    and refs: "\<And>i. seq_refs (impl\<lparr>kv_sequences := seqs\<rparr>) i + count_list pend' i = seq_refs impl i + count_list pend i"
    and ok: "\<And>sid s. omap_find seqs sid = Some s \<Longrightarrow> seq_ok (length (kv_blocks impl)) sid s"
    and sub: "set pend' \<subseteq> set pend"
  shows "kv_invp pend' (impl\<lparr>kv_sequences := seqs\<rparr>)"
  using kv_invpD [OF inv] oinv ok sub
  by (auto simp: kv_invp_def config_ok_def blocks_ok_def seqs_ok_def cache_ok_def entry_ok_def
      stats_ok_def UsedBlockCount_def FreeBlockCount_def refs)

lemma kv_invp_register:
  assumes inv: "kv_invp pend impl" and new: "omap_find (kv_sequences impl) sid = None"
    and ids: "mset (sq_block_ids s) = mset pend" and ok: "seq_ok (length (kv_blocks impl)) sid s"
  shows "kv_inv (impl\<lparr>kv_sequences := omap_emplace sid s (kv_sequences impl)\<rparr>)"
proof -
  note oinv = kv_invp_omap(1) [OF inv]
  have "count_list (sq_block_ids s) i = count_list pend i" for i
    using ids by (metis count_mset)
  then have "seq_refs (impl\<lparr>kv_sequences := omap_put sid s (kv_sequences impl)\<rparr>) i + count_list [] i
      = seq_refs impl i + count_list pend i" for i
    using om.sum_put_new [OF oinv new, of "\<lambda>(_, s). count_list (sq_block_ids s) i" s]
    by (simp add: seq_refs_def)
  moreover have "seq_ok (length (kv_blocks impl)) sid' s'"
    if "omap_find (omap_put sid s (kv_sequences impl)) sid' = Some s'" for sid' s'
    using that ok kv_invpD(3) [OF inv] by (auto simp: om.find_put [OF oinv] seqs_ok_def split: if_splits)
  ultimately show ?thesis
    unfolding kv_inv_def omap_emplace_new [OF new]
    by (intro kv_invp_sequences [OF inv]) (auto simp: om.invar_put [OF oinv])
qed

lemma kv_invp_extend:
  assumes inv: "kv_invp pend impl" and here: "omap_find (kv_sequences impl) sid = Some s"
    and ids: "sq_block_ids s' = sq_block_ids s @ pend" and ok: "seq_ok (length (kv_blocks impl)) sid s'"
  shows "kv_inv (impl\<lparr>kv_sequences := omap_put sid s' (kv_sequences impl)\<rparr>)"
proof -
  note oinv = kv_invp_omap(1) [OF inv]
  have "seq_refs (impl\<lparr>kv_sequences := omap_put sid s' (kv_sequences impl)\<rparr>) i + count_list [] i
      = seq_refs impl i + count_list pend i" for i
    using om.sum_put_old [OF oinv here, of "\<lambda>(_, s). count_list (sq_block_ids s) i" s']
    by (simp add: seq_refs_def ids)
  moreover have "seq_ok (length (kv_blocks impl)) sid'' s''"
    if "omap_find (omap_put sid s' (kv_sequences impl)) sid'' = Some s''" for sid'' s''
    using that ok kv_invpD(3) [OF inv] by (auto simp: om.find_put [OF oinv] seqs_ok_def split: if_splits)
  ultimately show ?thesis
    unfolding kv_inv_def
    by (intro kv_invp_sequences [OF inv]) (auto simp: om.invar_put [OF oinv])
qed

lemma kv_invp_cache_put:
  assumes inv: "kv_invp pend impl" and ok: "entry_ok impl k e"
  shows "kv_invp pend (impl\<lparr>kv_prefix_cache := omap_put k e (kv_prefix_cache impl)\<rparr>)"
proof -
  note oinv = kv_invp_omap(2) [OF inv]
  have "entry_ok impl k' e'" if "omap_find (omap_put k e (kv_prefix_cache impl)) k' = Some e'" for k' e'
    using that ok kv_invpD(4) [OF inv] by (auto simp: om.find_put [OF oinv] cache_ok_def split: if_splits)
  then have "cache_ok (impl\<lparr>kv_prefix_cache := omap_put k e (kv_prefix_cache impl)\<rparr>)"
    using om.invar_put [OF oinv] by (simp add: cache_ok_def entry_ok_def)
  then show ?thesis
    using kv_invpD [OF inv]
    by (simp add: kv_invp_def config_ok_def blocks_ok_def seqs_ok_def stats_ok_def
        UsedBlockCount_def FreeBlockCount_def)
qed

text \<open>Rewriting blocks, with the maps as they are.\<close>

lemma kv_invp_map_blocks:
  assumes inv: "kv_invp pend impl"
    and ok: "\<And>i. i < length (kv_blocks impl) \<Longrightarrow>
      block_ok (seq_refs impl i + count_list pend' i)
        (if i \<in> ids then f (kv_blocks impl ! i) else kv_blocks impl ! i)"
    and keep: "\<And>i. i \<in> ids \<Longrightarrow> cached_in impl i \<Longrightarrow>
      occupied (f (kv_blocks impl ! i)) \<and> cached_prefix_key (f (kv_blocks impl ! i)) = cached_prefix_key (kv_blocks impl ! i)"
    and free: "\<And>b. occupied (f b) \<Longrightarrow> occupied b"
    and sub: "\<forall>i \<in> set pend'. i < length (kv_blocks impl)"
  shows "kv_invp pend' (map_blocks ids f impl)"
proof -
  note parts = kv_invpD [OF inv]
  have "entry_ok (map_blocks ids f impl) k e" if e: "omap_find (kv_prefix_cache impl) k = Some e" for k e
  proof -
    have "cached_in impl i" if "i \<in> set (pe_block_ids e)" for i
      using that e by (auto simp: cached_in_def)
    moreover have "entry_ok impl k e" using parts(4) that by (simp add: cache_ok_def)
    ultimately show ?thesis using keep by (auto simp: entry_ok_def frame_simps)
  qed
  moreover have "UsedBlockCount (map_blocks ids f impl) \<le> UsedBlockCount impl"
    by (rule UsedBlockCount_mono) (auto simp: frame_simps free split: if_splits)
  ultimately show ?thesis
    using parts ok sub
    by (auto simp: kv_invp_def config_ok_def blocks_ok_def seqs_ok_def cache_ok_def stats_ok_def frame_simps)
qed

lemma kv_invp_hold:
  assumes inv: "kv_inv impl" and here: "omap_find (kv_prefix_cache impl) k = Some e"
  shows "kv_invp (pe_block_ids e) (map_blocks (set (pe_block_ids e)) (bump 1) impl)"
proof -
  have inv0: "kv_invp [] impl" using inv by (simp add: kv_inv_def)
  have e: "entry_ok impl k e" using kv_invpD(4) [OF inv0] here by (simp add: cache_ok_def)
  have ok: "block_ok (seq_refs impl i) (kv_blocks impl ! i)" if "i < length (kv_blocks impl)" for i
    using kv_invpD(2) [OF inv0] that by (simp add: blocks_ok_def)
  show ?thesis
  proof (rule kv_invp_map_blocks [OF inv0])
    fix i assume "i < length (kv_blocks impl)"
    then show "block_ok (seq_refs impl i + count_list (pe_block_ids e) i)
      (if i \<in> set (pe_block_ids e) then bump 1 (kv_blocks impl ! i) else kv_blocks impl ! i)"
      using ok [of i] e by (auto simp: entry_ok_def block_ok_def bump_def count_list_le_1)
  qed (use e in \<open>auto simp: entry_ok_def bump_def\<close>)
qed

lemma kv_invp_unhold:
  assumes inv: "kv_invp pend impl" and dist: "distinct pend"
    and cached: "\<forall>i \<in> set pend. cached_prefix_key (kv_blocks impl ! i) \<noteq> ''''"
  shows "kv_inv (map_blocks (set pend) (bump (- 1)) impl)"
proof -
  have ok: "block_ok (seq_refs impl i + count_list pend i) (kv_blocks impl ! i)" if "i < length (kv_blocks impl)" for i
    using kv_invpD(2) [OF inv] that by (simp add: blocks_ok_def)
  have occ: "occupied (kv_blocks impl ! i)" if "i < length (kv_blocks impl)" "i \<in> set pend" for i
    using ok [OF that(1)] cached that(2) by (auto simp: block_ok_def empty_block_def)
  show ?thesis
    unfolding kv_inv_def
  proof (rule kv_invp_map_blocks [OF inv])
    fix i assume i: "i < length (kv_blocks impl)"
    show "block_ok (seq_refs impl i + count_list [] i)
      (if i \<in> set pend then bump (- 1) (kv_blocks impl ! i) else kv_blocks impl ! i)"
      using ok [OF i] occ [OF i] cached dist by (auto simp: block_ok_def bump_def count_list_le_1)
  next
    fix i assume "i \<in> set pend"
    then have "i < length (kv_blocks impl)" using kv_invpD(2) [OF inv] by (simp add: blocks_ok_def)
    with \<open>i \<in> set pend\<close> occ
    show "occupied (bump (- 1) (kv_blocks impl ! i)) \<and>
      cached_prefix_key (bump (- 1) (kv_blocks impl ! i)) = cached_prefix_key (kv_blocks impl ! i)"
      by (simp add: bump_def)
  qed (simp_all add: bump_def)
qed

lemma kv_invp_drop:
  assumes inv: "kv_invp pend impl" and dist: "distinct pend"
    and unshared: "\<forall>i \<in> set pend. seq_refs impl i = 0 \<and> \<not> cached_in impl i"
  shows "kv_inv (map_blocks (set pend) (\<lambda>_. empty_block) impl)"
proof -
  have ok: "block_ok (seq_refs impl i + count_list pend i) (kv_blocks impl ! i)" if "i < length (kv_blocks impl)" for i
    using kv_invpD(2) [OF inv] that by (simp add: blocks_ok_def)
  show ?thesis
    unfolding kv_inv_def
  proof (rule kv_invp_map_blocks [OF inv])
    fix i assume "i < length (kv_blocks impl)"
    then show "block_ok (seq_refs impl i + count_list [] i)
      (if i \<in> set pend then empty_block else kv_blocks impl ! i)"
      using ok [of i] unshared by (auto simp: block_ok_def empty_block_def)
  qed (use unshared in \<open>auto simp: empty_block_def\<close>)
qed

lemma ReleaseSequence_eq:
  assumes "kv_inv impl" and "omap_find (kv_sequences impl) sid = Some s"
  shows "ReleaseSequence sid impl = (map_blocks (set (sq_block_ids s)) unhold impl)
     \<lparr>kv_sequences := omap_erase sid (kv_sequences impl)\<rparr>"
proof -
  have "seq_ok (length (kv_blocks impl)) sid s"
    using assms by (auto simp: kv_inv_def kv_invp_def seqs_ok_def)
  then have "fold release_block (sq_block_ids s) impl = map_blocks (set (sq_block_ids s)) unhold impl"
    by (intro fold_release_block) (auto simp: seq_ok_def)
  then show ?thesis using assms(2) by (simp add: ReleaseSequence_def frame_simps)
qed

lemma kv_inv_unregister:
  assumes inv: "kv_inv impl" and here: "omap_find (kv_sequences impl) sid = Some s"
  shows "kv_invp (sq_block_ids s) (impl\<lparr>kv_sequences := omap_erase sid (kv_sequences impl)\<rparr>)" (is "kv_invp _ ?mid")
proof -
  have inv0: "kv_invp [] impl" using inv by (simp add: kv_inv_def)
  note oinv = kv_invp_omap(1) [OF inv0]
  have s: "seq_ok (length (kv_blocks impl)) sid s"
    using kv_invpD(3) [OF inv0] here by (simp add: seqs_ok_def)
  have refs: "seq_refs impl i = seq_refs ?mid i + count_list (sq_block_ids s) i" for i
    using om.sum_erase [OF oinv here, of "\<lambda>(_, s). count_list (sq_block_ids s) i"]
    by (simp add: seq_refs_def)
  have "config_ok ?mid" "cache_ok ?mid" "stats_ok ?mid"
    using kv_invpD [OF inv0]
    by (auto simp: config_ok_def cache_ok_def entry_ok_def stats_ok_def UsedBlockCount_def FreeBlockCount_def)
  moreover have "seqs_ok ?mid"
    using kv_invpD(3) [OF inv0] oinv
    by (auto simp: seqs_ok_def om.invar_erase om.find_erase split: if_splits)
  moreover have "blocks_ok (sq_block_ids s) ?mid"
    using kv_invpD(2) [OF inv0] s by (auto simp: blocks_ok_def refs seq_ok_def)
  ultimately show ?thesis by (simp add: kv_invp_def)
qed

lemma kv_inv_release:
  assumes inv: "kv_inv impl"
  shows "kv_inv (ReleaseSequence sid impl)"
proof (cases "omap_find (kv_sequences impl) sid")
  case None
  with inv show ?thesis by (simp add: ReleaseSequence_def)
next
  case (Some s)
  let ?mid = "impl\<lparr>kv_sequences := omap_erase sid (kv_sequences impl)\<rparr>"
  note mid = kv_inv_unregister [OF inv Some]
  have s: "distinct (sq_block_ids s)"
    using inv Some by (auto simp: kv_inv_def kv_invp_def seqs_ok_def seq_ok_def)
  have ok: "block_ok (seq_refs ?mid i + count_list (sq_block_ids s) i) (kv_blocks impl ! i)"
    if "i < length (kv_blocks impl)" for i
    using kv_invpD(2) [OF mid] that by (simp add: blocks_ok_def)
  have "kv_invp [] (map_blocks (set (sq_block_ids s)) unhold ?mid)"
  proof (rule kv_invp_map_blocks [OF mid])
    fix i assume "i < length (kv_blocks ?mid)"
    then show "block_ok (seq_refs ?mid i + count_list [] i)
      (if i \<in> set (sq_block_ids s) then unhold (kv_blocks ?mid ! i) else kv_blocks ?mid ! i)"
      using ok [of i] s
      by (auto simp: block_ok_def unhold_def bump_def count_list_le_1 empty_block_def Let_def)
  next
    fix i assume "i \<in> set (sq_block_ids s)" "cached_in ?mid i"
    then have "occupied (kv_blocks impl ! i)" "cached_prefix_key (kv_blocks impl ! i) \<noteq> ''''"
      using kv_invpD(4) [OF mid] by (auto simp: cached_in_def cache_ok_def entry_ok_def)
    then show "occupied (unhold (kv_blocks ?mid ! i)) \<and>
      cached_prefix_key (unhold (kv_blocks ?mid ! i)) = cached_prefix_key (kv_blocks ?mid ! i)"
      by (simp add: unhold_def bump_def Let_def)
  qed (simp_all add: unhold_occupied)
  moreover have "map_blocks (set (sq_block_ids s)) unhold ?mid = ReleaseSequence sid impl"
    unfolding ReleaseSequence_eq [OF inv Some] by (simp add: map_blocks_def)
  ultimately show ?thesis by (simp add: kv_inv_def)
qed

end
