(* ===== verification/Kv_Correct.thy ===== *)
theory Kv_Correct
  imports Kv_Invariant
begin

text \<open>
  Correctness of the allocator's public operations: every operation keeps the invariant on every
  branch, a failed operation changes no sequence, a successful one attaches exactly the number of
  blocks the token counts call for, allocation fails only when the free blocks and the idle cached
  blocks together are too few, and blocks leak exactly when a prefix key is cached again with a
  different token count.
\<close>

subsection \<open>The two allocation paths of a prompt\<close>

lemma attach_hit_cases:
  assumes inv: "kv_inv impl" and here: "omap_find (kv_prefix_cache impl) k = Some e"
    and run: "attach_hit sid sq e m bc impl = (r, impl')"
  obtains (fail) impl2 where
      "AllocateBlocks m '''' (map_blocks (set (pe_block_ids e)) (bump 1) impl) = ([], impl2)" "m \<noteq> 0"
      "kv_invp (pe_block_ids e) impl2" "evolves {} (map_blocks (set (pe_block_ids e)) (bump 1) impl) impl2"
      "r = AllocationError ''kv cache exhausted''" "impl' = map_blocks (set (pe_block_ids e)) (bump (- 1)) impl2"
  | (ok) suffix impl2 where
      "AllocateBlocks m '''' (map_blocks (set (pe_block_ids e)) (bump 1) impl) = (suffix, impl2)"
      "int (length suffix) = m" "r = AllocationOk bc True"
      "impl' = impl2\<lparr>kv_sequences := omap_emplace sid (sq\<lparr>sq_block_ids := pe_block_ids e @ suffix\<rparr>) (kv_sequences impl2),
         kv_stats := (kv_stats impl2)\<lparr>st_prefix_cache_hits := st_prefix_cache_hits (kv_stats impl2) + 1\<rparr>\<rparr>"
proof -
  let ?impl1 = "map_blocks (set (pe_block_ids e)) (bump 1) impl"
  have e: "entry_ok impl k e" using inv here by (auto simp: kv_inv_def kv_invp_def cache_ok_def)
  have hold: "fold (add_ref 1) (pe_block_ids e) impl = ?impl1"
    using e by (intro fold_add_ref) (auto simp: entry_ok_def)
  obtain suffix impl2 where alloc: "AllocateBlocks m '''' ?impl1 = (suffix, impl2)" by fastforce
  note spec = AllocateBlocks_spec [OF kv_invp_hold [OF inv here] alloc]
  show thesis
  proof (cases "int (length suffix) = m")
    case True
    with run alloc show ?thesis
      by (intro ok [of suffix impl2]) (auto simp: attach_hit_def hold Let_def)
  next
    case False
    with spec(5) have "suffix = []" "m \<noteq> 0" by auto
    moreover have "fold (add_ref (- 1)) (pe_block_ids e) impl2 = map_blocks (set (pe_block_ids e)) (bump (- 1)) impl2"
      using e spec(2) by (intro fold_add_ref) (auto simp: entry_ok_def evolves_def frame_simps)
    ultimately show ?thesis
      using run alloc spec by (intro fail [of impl2]) (auto simp: attach_hit_def hold Let_def)
  qed
qed

lemma attach_miss_cases:
  assumes inv: "kv_inv impl" and run: "attach_miss sid key ct sq n m bc impl = (r, impl')"
  obtains (no_prefix) "AllocateBlocks n key impl = ([], impl')" "n \<noteq> 0"
      "r = AllocationError ''kv cache exhausted''"
  | (no_suffix) prefix impl1 impl2 where
      "AllocateBlocks n key impl = (prefix, impl1)" "int (length prefix) = n"
      "AllocateBlocks m '''' impl1 = ([], impl2)" "m \<noteq> 0"
      "r = AllocationError ''kv cache exhausted''" "impl' = map_blocks (set prefix) (\<lambda>_. empty_block) impl2"
  | (ok) prefix suffix impl1 impl2 where
      "AllocateBlocks n key impl = (prefix, impl1)" "int (length prefix) = n"
      "AllocateBlocks m '''' impl1 = (suffix, impl2)" "int (length suffix) = m"
      "r = AllocationOk bc False"
      "impl' = impl2\<lparr>kv_prefix_cache :=
            (if key \<noteq> '''' \<and> ct > 0
             then omap_put key \<lparr>pe_token_count = ct, pe_block_ids = prefix\<rparr> (kv_prefix_cache impl2)
             else kv_prefix_cache impl2),
         kv_sequences := omap_emplace sid (sq\<lparr>sq_block_ids := prefix @ suffix\<rparr>) (kv_sequences impl2)\<rparr>"
proof -
  have inv0: "kv_invp [] impl" using inv by (simp add: kv_inv_def)
  obtain prefix impl1 where alloc1: "AllocateBlocks n key impl = (prefix, impl1)" by fastforce
  obtain suffix impl2 where alloc2: "AllocateBlocks m '''' impl1 = (suffix, impl2)" by fastforce
  note spec1 = AllocateBlocks_spec [OF inv0 alloc1]
  note spec2 = AllocateBlocks_spec [OF spec1(1) alloc2]
  show thesis
  proof (cases "int (length prefix) = n")
    case False
    with spec1(5) have "prefix = []" "n \<noteq> 0" by auto
    with False run alloc1 show ?thesis by (intro no_prefix) (auto simp: attach_miss_def Let_def)
  next
    case n: True
    show ?thesis
    proof (cases "int (length suffix) = m")
      case True
      with n run alloc1 alloc2 show ?thesis
        by (intro ok [of prefix impl1 suffix impl2]) (auto simp: attach_miss_def Let_def)
    next
      case False
      with spec2(5) have "suffix = []" "m \<noteq> 0" by auto
      moreover have "fold FreeBlock prefix impl2 = map_blocks (set prefix) (\<lambda>_. empty_block) impl2"
        using spec1 spec2(2) by (intro fold_FreeBlock) (auto simp: evolves_def)
      ultimately show ?thesis
        using n False run alloc1 alloc2
        by (intro no_suffix [of prefix impl1 impl2]) (auto simp: attach_miss_def Let_def)
    qed
  qed
qed

text \<open>A block with a reference is never freed by an allocation.\<close>

lemma evolves_held:
  assumes "evolves new impl impl'" and "i < length (kv_blocks impl)" and "i \<notin> new"
    and "ref_count (kv_blocks impl ! i) \<noteq> 0"
  shows "kv_blocks impl' ! i = kv_blocks impl ! i"
  using assms by (auto simp: evolves_def)

lemma attach_hit_inv:
  assumes inv: "kv_inv impl" and here: "omap_find (kv_prefix_cache impl) k = Some e"
    and new: "omap_find (kv_sequences impl) sid = None" and sid: "sid \<noteq> ''''"
    and tok: "0 \<le> sq_prompt_tokens sq" "0 \<le> sq_generated_tokens sq"
    and run: "attach_hit sid sq e m bc impl = (r, impl')"
  shows "kv_inv impl'"
proof -
  let ?impl1 = "map_blocks (set (pe_block_ids e)) (bump 1) impl"
  have e: "entry_ok impl k e" using inv here by (auto simp: kv_inv_def kv_invp_def cache_ok_def)
  note hold = kv_invp_hold [OF inv here]
  show ?thesis using inv here run
  proof (cases rule: attach_hit_cases)
    case (fail impl2)
    have "cached_prefix_key (kv_blocks impl2 ! i) \<noteq> ''''" if "i \<in> set (pe_block_ids e)" for i
    proof -
      have i: "i < length (kv_blocks impl)" "cached_prefix_key (kv_blocks impl ! i) = k" "k \<noteq> ''''"
        using e that by (auto simp: entry_ok_def)
      have "ref_count (kv_blocks ?impl1 ! i) \<noteq> 0"
        using kv_invpD(2) [OF hold] i(1) that count_list_pos [OF that]
        by (auto simp: blocks_ok_def block_ok_def frame_simps)
      then have "kv_blocks impl2 ! i = kv_blocks ?impl1 ! i"
        using fail(4) i(1) by (intro evolves_held) (auto simp: frame_simps)
      with i that show ?thesis by (simp add: bump_def)
    qed
    then show ?thesis
      unfolding fail(6) using e fail(3) by (intro kv_invp_unhold) (auto simp: entry_ok_def)
  next
    case (ok suffix impl2)
    note spec = AllocateBlocks_spec [OF hold ok(1)]
    have impl2: "kv_sequences impl2 = kv_sequences impl" "length (kv_blocks impl2) = length (kv_blocks impl)"
      using spec(2) by (auto simp: evolves_def frame_simps)
    have "kv_inv (impl2\<lparr>kv_sequences := omap_emplace sid (sq\<lparr>sq_block_ids := pe_block_ids e @ suffix\<rparr>) (kv_sequences impl2)\<rparr>)"
      using spec e sid tok new
      by (intro kv_invp_register [OF spec(1)]) (auto simp: impl2 seq_ok_def entry_ok_def frame_simps)
    from kv_invp_failure(3) [OF this [unfolded kv_inv_def]] show ?thesis
      unfolding ok(4) kv_inv_def by simp
  qed
qed

lemma attach_miss_inv:
  assumes inv: "kv_inv impl"
    and new: "omap_find (kv_sequences impl) sid = None" and sid: "sid \<noteq> ''''"
    and tok: "0 \<le> sq_prompt_tokens sq" "0 \<le> sq_generated_tokens sq"
    and n: "n = CeilDiv ct (cfg_tokens_per_block (kv_config impl))"
    and run: "attach_miss sid key ct sq n m bc impl = (r, impl')"
  shows "kv_inv impl'"
proof -
  have inv0: "kv_invp [] impl" using inv by (simp add: kv_inv_def)
  show ?thesis using inv run
  proof (cases rule: attach_miss_cases)
    case no_prefix
    with AllocateBlocks_spec(1) [OF inv0 no_prefix(1)] show ?thesis by (simp add: kv_inv_def)
  next
    case (no_suffix prefix impl1 impl2)
    note spec1 = AllocateBlocks_spec [OF inv0 no_suffix(1)]
    note spec2 = AllocateBlocks_spec [OF spec1(1) no_suffix(3)]
    have "\<forall>i \<in> set prefix. seq_refs impl2 i = 0 \<and> \<not> cached_in impl2 i"
      using spec1 spec2(2) evolves_refs [OF spec1(2)] evolves_refs [OF spec2(2)] cached_in_mono [OF spec2(2)]
      by auto
    with spec1(3) spec2(1) show ?thesis
      unfolding no_suffix(6) by (intro kv_invp_drop) simp_all
  next
    case (ok prefix suffix impl1 impl2)
    note spec1 = AllocateBlocks_spec [OF inv0 ok(1)]
    note spec2 = AllocateBlocks_spec [OF spec1(1) ok(3)]
    let ?e = "\<lparr>pe_token_count = ct, pe_block_ids = prefix\<rparr>"
    let ?cache = "if key \<noteq> '''' \<and> ct > 0 then omap_put key ?e (kv_prefix_cache impl2) else kv_prefix_cache impl2"
    have impl2: "kv_config impl2 = kv_config impl" "kv_sequences impl2 = kv_sequences impl"
      "length (kv_blocks impl2) = length (kv_blocks impl)" "length (kv_blocks impl1) = length (kv_blocks impl)"
      using spec1(2) spec2(2) by (auto simp: evolves_def)
    have held: "kv_blocks impl2 ! i = fresh_block key" if "i \<in> set prefix" for i
    proof -
      have "kv_blocks impl1 ! i = fresh_block key" "i < length (kv_blocks impl1)" "i \<notin> set suffix"
        using spec1(4) spec2(4) that by (auto simp: impl2)
      then show ?thesis
        using evolves_held [OF spec2(2), of i] by (simp add: fresh_block_def)
    qed
    have "kv_invp (suffix @ prefix) (impl2\<lparr>kv_prefix_cache := ?cache\<rparr>)"
    proof (cases "key \<noteq> '''' \<and> ct > 0")
      case True
      then have "entry_ok impl2 key ?e"
        using spec1(3,4) held ok(2) n by (auto simp: entry_ok_def impl2 fresh_block_def)
      with True spec2(1) show ?thesis by (simp add: kv_invp_cache_put)
    qed (use spec2(1) in auto)
    moreover have "seq_ok (length (kv_blocks impl)) sid (sq\<lparr>sq_block_ids := prefix @ suffix\<rparr>)"
      using spec1(3,4) spec2(3,4) sid tok by (auto simp: impl2 seq_ok_def)
    ultimately show ?thesis
      using kv_invp_register [of "suffix @ prefix" "impl2\<lparr>kv_prefix_cache := ?cache\<rparr>" sid
          "sq\<lparr>sq_block_ids := prefix @ suffix\<rparr>"] new
      by (simp add: ok(6) impl2)
  qed
qed

subsection \<open>Outcomes of \<open>AllocatePrompt\<close>\<close>

text \<open>The tokens a request may share, and the blocks its prompt needs.\<close>

definition prompt_cacheable :: "int \<Rightarrow> string \<Rightarrow> int \<Rightarrow> int" where
  "prompt_cacheable n key p = cacheable (max 0 n) key p"

definition prompt_blocks :: "kv_impl \<Rightarrow> int \<Rightarrow> string \<Rightarrow> int \<Rightarrow> int" where
  "prompt_blocks impl n key p =
     (let c = prompt_cacheable n key p; t = cfg_tokens_per_block (kv_config impl)
      in CeilDiv c t + CeilDiv (max 0 n - c) t)"

definition new_sequence :: "kv_impl \<Rightarrow> int \<Rightarrow> string \<Rightarrow> int \<Rightarrow> nat list \<Rightarrow> Sequence" where
  "new_sequence impl n key p ids =
     \<lparr>sq_prompt_tokens = max 0 n, sq_generated_tokens = 0,
      sq_prefix_block_count = CeilDiv (prompt_cacheable n key p) (cfg_tokens_per_block (kv_config impl)),
      sq_block_ids = ids\<rparr>"

lemma prompt_cacheable_bounds: "0 \<le> prompt_cacheable n key p" "prompt_cacheable n key p \<le> max 0 n"
  by (auto simp: prompt_cacheable_def cacheable_def)

lemma prompt_cacheable_key: "0 < prompt_cacheable n key p \<Longrightarrow> key \<noteq> ''''"
  by (auto simp: prompt_cacheable_def cacheable_def split: if_splits)

definition count_miss :: "kv_impl \<Rightarrow> kv_impl" where
  "count_miss impl = impl\<lparr>kv_stats := (kv_stats impl)\<lparr>st_prefix_cache_misses :=
     st_prefix_cache_misses (kv_stats impl) + 1\<rparr>\<rparr>"

lemma count_miss_simps [simp]:
  "kv_config (count_miss impl) = kv_config impl" "kv_blocks (count_miss impl) = kv_blocks impl"
  "kv_sequences (count_miss impl) = kv_sequences impl" "kv_prefix_cache (count_miss impl) = kv_prefix_cache impl"
  by (simp_all add: count_miss_def)

lemma kv_inv_count_miss: "kv_inv impl \<Longrightarrow> kv_inv (count_miss impl)"
  unfolding kv_inv_def count_miss_def by (rule kv_invp_failure)

lemma AllocatePrompt_eq:
  "AllocatePrompt sid n key p impl =
     (if sid = '''' then (AllocationError ''sequence id is required'', impl)
      else if omap_find (kv_sequences impl) sid \<noteq> None then (AllocationError ''sequence already exists'', impl)
      else
        let c = prompt_cacheable n key p; t = cfg_tokens_per_block (kv_config impl);
            miss = attach_miss sid key c (new_sequence impl n key p []) (CeilDiv c t) (CeilDiv (max 0 n - c) t)
              (prompt_blocks impl n key p)
        in if 0 < c then
             (case omap_find (kv_prefix_cache impl) key of
                Some e \<Rightarrow> if pe_token_count e = c
                  then attach_hit sid (new_sequence impl n key p []) e (CeilDiv (max 0 n - c) t)
                    (prompt_blocks impl n key p) impl
                  else miss (count_miss impl)
              | None \<Rightarrow> miss (count_miss impl))
           else miss impl)"
proof -
  have "key \<noteq> '''' \<and> 0 < prompt_cacheable n key p \<longleftrightarrow> 0 < prompt_cacheable n key p"
    using prompt_cacheable_key by blast
  then show ?thesis
    unfolding AllocatePrompt_def prompt_cacheable_def prompt_blocks_def new_sequence_def count_miss_def Let_def
    by (simp cong: option.case_cong)
qed

lemma AllocatePrompt_cases:
  assumes run: "AllocatePrompt sid n key p impl = (r, impl')"
  obtains (no_id) "sid = ''''" "r = AllocationError ''sequence id is required''" "impl' = impl"
  | (dup) "sid \<noteq> ''''" "omap_find (kv_sequences impl) sid \<noteq> None"
      "r = AllocationError ''sequence already exists''" "impl' = impl"
  | (hit) e where "sid \<noteq> ''''" "omap_find (kv_sequences impl) sid = None"
      "0 < prompt_cacheable n key p" "omap_find (kv_prefix_cache impl) key = Some e"
      "pe_token_count e = prompt_cacheable n key p"
      "attach_hit sid (new_sequence impl n key p []) e
         (CeilDiv (max 0 n - prompt_cacheable n key p) (cfg_tokens_per_block (kv_config impl)))
         (prompt_blocks impl n key p) impl = (r, impl')"
  | (miss) impl0 where "sid \<noteq> ''''" "omap_find (kv_sequences impl) sid = None"
      "impl0 = impl \<or> impl0 = count_miss impl"
      "0 < prompt_cacheable n key p \<longrightarrow>
         (\<forall>e. omap_find (kv_prefix_cache impl) key = Some e \<longrightarrow> pe_token_count e \<noteq> prompt_cacheable n key p)"
      "attach_miss sid key (prompt_cacheable n key p) (new_sequence impl n key p [])
         (CeilDiv (prompt_cacheable n key p) (cfg_tokens_per_block (kv_config impl)))
         (CeilDiv (max 0 n - prompt_cacheable n key p) (cfg_tokens_per_block (kv_config impl)))
         (prompt_blocks impl n key p) impl0 = (r, impl')"
proof -
  let ?c = "prompt_cacheable n key p"
  consider (a) "sid = ''''" | (b) "sid \<noteq> ''''" "omap_find (kv_sequences impl) sid \<noteq> None"
    | (new) "sid \<noteq> ''''" "omap_find (kv_sequences impl) sid = None" by blast
  then show thesis
  proof cases
    case new
    note eq = run [unfolded AllocatePrompt_eq Let_def, simplified new, simplified]
    consider (h) e where "0 < ?c" "omap_find (kv_prefix_cache impl) key = Some e" "pe_token_count e = ?c"
      | (m) "0 < ?c" "\<forall>e. omap_find (kv_prefix_cache impl) key = Some e \<longrightarrow> pe_token_count e \<noteq> ?c"
      | (z) "\<not> 0 < ?c" by blast
    then show thesis
    proof cases
      case h
      with eq new show thesis by (intro hit [of e]) simp_all
    next
      case m
      with eq new show thesis by (intro miss [of "count_miss impl"]) (simp_all split: option.splits)
    next
      case z
      with eq new show thesis by (intro miss [of impl]) simp_all
    qed
  next
    case a
    with run show thesis by (intro no_id) (simp_all add: AllocatePrompt_def)
  next
    case b
    with run show thesis by (intro dup) (simp_all add: AllocatePrompt_def)
  qed
qed

lemma AllocatePrompt_inv:
  assumes inv: "kv_inv impl" and run: "AllocatePrompt sid n key p impl = (r, impl')"
  shows "kv_inv impl'"
  using run
proof (cases rule: AllocatePrompt_cases)
  case (hit e)
  then show ?thesis by (intro attach_hit_inv [OF inv hit(4,2,1) _ _ hit(6)]) (simp_all add: new_sequence_def)
next
  case (miss impl0)
  then have "kv_inv impl0" "kv_sequences impl0 = kv_sequences impl" "kv_config impl0 = kv_config impl"
    using inv kv_inv_count_miss by auto
  with miss show ?thesis
    by (intro attach_miss_inv [OF _ _ _ _ _ _ miss(5)]) (simp_all add: new_sequence_def)
qed (use inv in auto)

lemma attach_hit_outcome:
  assumes inv: "kv_inv impl" and here: "omap_find (kv_prefix_cache impl) k = Some e"
    and new: "omap_find (kv_sequences impl) sid = None"
    and run: "attach_hit sid sq e m bc impl = (r, impl')"
  shows "kv_config impl' = kv_config impl"
    and "\<not> al_ok r \<Longrightarrow> r = AllocationError ''kv cache exhausted'' \<and> kv_sequences impl' = kv_sequences impl"
    and "al_ok r \<Longrightarrow> r = AllocationOk bc True \<and> (\<exists>suffix. int (length suffix) = m \<and> kv_sequences impl' =
      omap_put sid (sq\<lparr>sq_block_ids := pe_block_ids e @ suffix\<rparr>) (kv_sequences impl))"
proof -
  have "kv_config impl' = kv_config impl \<and>
    (\<not> al_ok r \<longrightarrow> r = AllocationError ''kv cache exhausted'' \<and> kv_sequences impl' = kv_sequences impl) \<and>
    (al_ok r \<longrightarrow> r = AllocationOk bc True \<and> (\<exists>suffix. int (length suffix) = m \<and> kv_sequences impl' =
      omap_put sid (sq\<lparr>sq_block_ids := pe_block_ids e @ suffix\<rparr>) (kv_sequences impl)))"
    using inv here run
  proof (cases rule: attach_hit_cases)
    case (fail impl2)
    then show ?thesis by (simp add: frame_simps evolves_def AllocationError_def)
  next
    case (ok suffix impl2)
    from AllocateBlocks_spec(2) [OF kv_invp_hold [OF inv here] ok(1)] ok new show ?thesis
      by (auto simp: frame_simps evolves_def AllocationOk_def omap_emplace_new)
  qed
  then show "kv_config impl' = kv_config impl"
    and "\<not> al_ok r \<Longrightarrow> r = AllocationError ''kv cache exhausted'' \<and> kv_sequences impl' = kv_sequences impl"
    and "al_ok r \<Longrightarrow> r = AllocationOk bc True \<and> (\<exists>suffix. int (length suffix) = m \<and> kv_sequences impl' =
      omap_put sid (sq\<lparr>sq_block_ids := pe_block_ids e @ suffix\<rparr>) (kv_sequences impl))"
    by blast+
qed

lemma attach_miss_outcome:
  assumes inv: "kv_inv impl" and new: "omap_find (kv_sequences impl) sid = None"
    and run: "attach_miss sid key ct sq n m bc impl = (r, impl')"
  shows "kv_config impl' = kv_config impl"
    and "\<not> al_ok r \<Longrightarrow> r = AllocationError ''kv cache exhausted'' \<and> kv_sequences impl' = kv_sequences impl"
    and "al_ok r \<Longrightarrow> r = AllocationOk bc False \<and> (\<exists>ids. int (length ids) = n + m \<and> kv_sequences impl' =
      omap_put sid (sq\<lparr>sq_block_ids := ids\<rparr>) (kv_sequences impl))"
proof -
  have inv0: "kv_invp [] impl" using inv by (simp add: kv_inv_def)
  have "kv_config impl' = kv_config impl \<and>
    (\<not> al_ok r \<longrightarrow> r = AllocationError ''kv cache exhausted'' \<and> kv_sequences impl' = kv_sequences impl) \<and>
    (al_ok r \<longrightarrow> r = AllocationOk bc False \<and> (\<exists>ids. int (length ids) = n + m \<and> kv_sequences impl' =
      omap_put sid (sq\<lparr>sq_block_ids := ids\<rparr>) (kv_sequences impl)))"
    using inv run
  proof (cases rule: attach_miss_cases)
    case no_prefix
    with AllocateBlocks_spec(2) [OF inv0 no_prefix(1)] show ?thesis
      by (simp add: evolves_def AllocationError_def)
  next
    case (no_suffix prefix impl1 impl2)
    note spec1 = AllocateBlocks_spec [OF inv0 no_suffix(1)]
    with AllocateBlocks_spec(2) [OF spec1(1) no_suffix(3)] no_suffix show ?thesis
      by (simp add: evolves_def AllocationError_def frame_simps)
  next
    case (ok prefix suffix impl1 impl2)
    note spec1 = AllocateBlocks_spec [OF inv0 ok(1)]
    note spec2 = AllocateBlocks_spec [OF spec1(1) ok(3)]
    have "kv_config impl2 = kv_config impl" "kv_sequences impl2 = kv_sequences impl"
      using spec1(2) spec2(2) by (auto simp: evolves_def)
    moreover have "int (length (prefix @ suffix)) = n + m" using ok by simp
    ultimately show ?thesis
      using ok(5,6) new by (auto simp: AllocationOk_def omap_emplace_new simp del: length_append)
  qed
  then show "kv_config impl' = kv_config impl"
    and "\<not> al_ok r \<Longrightarrow> r = AllocationError ''kv cache exhausted'' \<and> kv_sequences impl' = kv_sequences impl"
    and "al_ok r \<Longrightarrow> r = AllocationOk bc False \<and> (\<exists>ids. int (length ids) = n + m \<and> kv_sequences impl' =
      omap_put sid (sq\<lparr>sq_block_ids := ids\<rparr>) (kv_sequences impl))"
    by blast+
qed

lemma AllocatePrompt_outcome:
  assumes inv: "kv_inv impl" and run: "AllocatePrompt sid n key p impl = (r, impl')"
  shows "kv_config impl' = kv_config impl"
    and "\<not> al_ok r \<Longrightarrow> kv_sequences impl' = kv_sequences impl"
    and "al_ok r \<Longrightarrow> sid \<noteq> '''' \<and> omap_find (kv_sequences impl) sid = None \<and>
      al_attached_blocks r = prompt_blocks impl n key p \<and>
      (\<exists>ids. int (length ids) = prompt_blocks impl n key p \<and>
        kv_sequences impl' = omap_put sid (new_sequence impl n key p ids) (kv_sequences impl))"
proof -
  have "kv_config impl' = kv_config impl \<and>
    (\<not> al_ok r \<longrightarrow> kv_sequences impl' = kv_sequences impl) \<and>
    (al_ok r \<longrightarrow> sid \<noteq> '''' \<and> omap_find (kv_sequences impl) sid = None \<and>
      al_attached_blocks r = prompt_blocks impl n key p \<and>
      (\<exists>ids. int (length ids) = prompt_blocks impl n key p \<and>
        kv_sequences impl' = omap_put sid (new_sequence impl n key p ids) (kv_sequences impl)))"
    using run
  proof (cases rule: AllocatePrompt_cases)
    case (hit e)
    have "int (length (pe_block_ids e)) = CeilDiv (prompt_cacheable n key p) (cfg_tokens_per_block (kv_config impl))"
      using inv hit(4,5) by (auto simp: kv_inv_def kv_invp_def cache_ok_def entry_ok_def)
    then have "int (length (pe_block_ids e @ suffix)) = prompt_blocks impl n key p"
      if "int (length suffix) = CeilDiv (max 0 n - prompt_cacheable n key p) (cfg_tokens_per_block (kv_config impl))" for suffix
      using that by (simp add: prompt_blocks_def Let_def)
    with attach_hit_outcome [OF inv hit(4,2,6)] hit(1,2) show ?thesis
      by (fastforce simp: AllocationOk_def new_sequence_def simp del: length_append)
  next
    case (miss impl0)
    then have impl0: "kv_inv impl0" "kv_sequences impl0 = kv_sequences impl" "kv_config impl0 = kv_config impl"
      using inv kv_inv_count_miss by auto
    with attach_miss_outcome [OF impl0(1) _ miss(5)] miss(1,2) show ?thesis
      by (auto simp: AllocationOk_def new_sequence_def prompt_blocks_def Let_def)
  qed (use inv in \<open>auto simp: AllocationError_def\<close>)
  then show "kv_config impl' = kv_config impl"
    and "\<not> al_ok r \<Longrightarrow> kv_sequences impl' = kv_sequences impl"
    and "al_ok r \<Longrightarrow> sid \<noteq> '''' \<and> omap_find (kv_sequences impl) sid = None \<and>
      al_attached_blocks r = prompt_blocks impl n key p \<and>
      (\<exists>ids. int (length ids) = prompt_blocks impl n key p \<and>
        kv_sequences impl' = omap_put sid (new_sequence impl n key p ids) (kv_sequences impl))"
    by blast+
qed

subsection \<open>Outcomes of \<open>AppendTokens\<close> and \<open>ReleaseSequence\<close>\<close>

definition append_blocks :: "kv_impl \<Rightarrow> Sequence \<Rightarrow> int \<Rightarrow> int" where
  "append_blocks impl s n =
     CeilDiv (sq_generated_tokens s + n) (cfg_tokens_per_block (kv_config impl)) -
     CeilDiv (sq_generated_tokens s) (cfg_tokens_per_block (kv_config impl))"

definition grown_sequence :: "Sequence \<Rightarrow> int \<Rightarrow> nat list \<Rightarrow> Sequence" where
  "grown_sequence s n ids = s\<lparr>sq_generated_tokens := sq_generated_tokens s + n, sq_block_ids := sq_block_ids s @ ids\<rparr>"

lemma AppendTokens_cases:
  assumes inv: "kv_inv impl" and run: "AppendTokens sid n impl = (r, impl')"
  obtains (absent) "omap_find (kv_sequences impl) sid = None"
      "r = AllocationError ''sequence does not exist''" "impl' = impl"
  | (nothing) s where "omap_find (kv_sequences impl) sid = Some s" "n \<le> 0" "r = AllocationOk 0 False" "impl' = impl"
  | (fail) s where "omap_find (kv_sequences impl) sid = Some s" "0 < n"
      "AllocateBlocks (append_blocks impl s n) '''' impl = ([], impl')" "append_blocks impl s n \<noteq> 0"
      "r = AllocationError ''kv cache exhausted''"
  | (ok) s ids impl1 where "omap_find (kv_sequences impl) sid = Some s" "0 < n"
      "AllocateBlocks (append_blocks impl s n) '''' impl = (ids, impl1)"
      "int (length ids) = append_blocks impl s n" "r = AllocationOk (append_blocks impl s n) False"
      "impl' = impl1\<lparr>kv_sequences := omap_put sid (grown_sequence s n ids) (kv_sequences impl1)\<rparr>"
proof (cases "omap_find (kv_sequences impl) sid")
  case None
  with run show thesis by (intro absent) (simp_all add: AppendTokens_def)
next
  case (Some s)
  show thesis
  proof (cases "n \<le> 0")
    case True
    with Some run have "r = AllocationOk 0 False" "impl' = impl" by (simp_all add: AppendTokens_def)
    with Some True show thesis by (rule nothing)
  next
    case False
    obtain ids impl1 where alloc: "AllocateBlocks (append_blocks impl s n) '''' impl = (ids, impl1)" by fastforce
    show thesis
    proof (cases "int (length ids) = append_blocks impl s n")
      case False2: False
      with AllocateBlocks_spec(5) [OF inv [unfolded kv_inv_def] alloc]
      have "ids = []" "append_blocks impl s n \<noteq> 0" by auto
      with Some run alloc False show thesis
        by (intro fail [of s]) (simp_all add: AppendTokens_def append_blocks_def Let_def)
    next
      case True
      with Some run alloc False show thesis
        by (intro ok [of s ids impl1]) (simp_all add: AppendTokens_def append_blocks_def grown_sequence_def Let_def)
    qed
  qed
qed

lemma AppendTokens_inv:
  assumes inv: "kv_inv impl" and run: "AppendTokens sid n impl = (r, impl')"
  shows "kv_inv impl'"
  using inv run
proof (cases rule: AppendTokens_cases)
  case (fail s)
  with AllocateBlocks_spec(1) [OF inv [unfolded kv_inv_def] fail(3)] show ?thesis by (simp add: kv_inv_def)
next
  case (ok s ids impl1)
  note inv0 = inv [unfolded kv_inv_def]
  note spec = AllocateBlocks_spec [OF inv0 ok(3)]
  have impl1: "kv_sequences impl1 = kv_sequences impl" "length (kv_blocks impl1) = length (kv_blocks impl)"
    using spec(2) by (auto simp: evolves_def)
  have s: "seq_ok (length (kv_blocks impl)) sid s"
    using kv_invpD(3) [OF inv0] ok(1) by (simp add: seqs_ok_def)
  have "set (sq_block_ids s) \<inter> set ids = {}"
    using seq_refs_pos [OF kv_invpD(3) [OF inv0] ok(1)] spec(4) by (fastforce simp: disjoint_iff)
  with s spec(3,4) ok(2) have "seq_ok (length (kv_blocks impl)) sid (grown_sequence s n ids)"
    by (auto simp: seq_ok_def grown_sequence_def)
  with spec(1) ok(1) show ?thesis
    unfolding ok(6) by (intro kv_invp_extend [of ids]) (simp_all add: impl1 grown_sequence_def)
qed (use inv in auto)

lemma AppendTokens_outcome:
  assumes inv: "kv_inv impl" and run: "AppendTokens sid n impl = (r, impl')"
  shows "kv_config impl' = kv_config impl"
    and "\<not> al_ok r \<Longrightarrow> kv_sequences impl' = kv_sequences impl"
    and "al_ok r \<Longrightarrow> n \<le> 0 \<Longrightarrow> impl' = impl"
    and "al_ok r \<Longrightarrow> 0 < n \<Longrightarrow> \<exists>s ids. omap_find (kv_sequences impl) sid = Some s \<and>
      int (length ids) = append_blocks impl s n \<and> al_attached_blocks r = append_blocks impl s n \<and>
      kv_sequences impl' = omap_put sid (grown_sequence s n ids) (kv_sequences impl)"
proof -
  have "kv_config impl' = kv_config impl \<and>
    (\<not> al_ok r \<longrightarrow> kv_sequences impl' = kv_sequences impl) \<and>
    (al_ok r \<longrightarrow> n \<le> 0 \<longrightarrow> impl' = impl) \<and>
    (al_ok r \<longrightarrow> 0 < n \<longrightarrow> (\<exists>s ids. omap_find (kv_sequences impl) sid = Some s \<and>
      int (length ids) = append_blocks impl s n \<and> al_attached_blocks r = append_blocks impl s n \<and>
      kv_sequences impl' = omap_put sid (grown_sequence s n ids) (kv_sequences impl)))"
    using inv run
  proof (cases rule: AppendTokens_cases)
    case (fail s)
    with AllocateBlocks_spec(2) [OF inv [unfolded kv_inv_def] fail(3)] show ?thesis
      by (simp add: evolves_def AllocationError_def)
  next
    case (ok s ids impl1)
    with AllocateBlocks_spec(2) [OF inv [unfolded kv_inv_def] ok(3)] show ?thesis
      by (auto simp: evolves_def AllocationOk_def)
  qed (auto simp: AllocationError_def AllocationOk_def)
  then show "kv_config impl' = kv_config impl"
    and "\<not> al_ok r \<Longrightarrow> kv_sequences impl' = kv_sequences impl"
    and "al_ok r \<Longrightarrow> n \<le> 0 \<Longrightarrow> impl' = impl"
    and "al_ok r \<Longrightarrow> 0 < n \<Longrightarrow> \<exists>s ids. omap_find (kv_sequences impl) sid = Some s \<and>
      int (length ids) = append_blocks impl s n \<and> al_attached_blocks r = append_blocks impl s n \<and>
      kv_sequences impl' = omap_put sid (grown_sequence s n ids) (kv_sequences impl)"
    by blast+
qed

lemma ReleaseSequence_outcome:
  assumes inv: "kv_inv impl"
  shows "kv_config (ReleaseSequence sid impl) = kv_config impl"
    and "kv_sequences (ReleaseSequence sid impl) =
      (if omap_find (kv_sequences impl) sid = None then kv_sequences impl else omap_erase sid (kv_sequences impl))"
    and "kv_prefix_cache (ReleaseSequence sid impl) = kv_prefix_cache impl"
    and "kv_stats (ReleaseSequence sid impl) = kv_stats impl"
    and "length (kv_blocks (ReleaseSequence sid impl)) = length (kv_blocks impl)"
proof -
  have "kv_config (ReleaseSequence sid impl) = kv_config impl \<and>
    kv_sequences (ReleaseSequence sid impl) =
      (if omap_find (kv_sequences impl) sid = None then kv_sequences impl else omap_erase sid (kv_sequences impl)) \<and>
    kv_prefix_cache (ReleaseSequence sid impl) = kv_prefix_cache impl \<and>
    kv_stats (ReleaseSequence sid impl) = kv_stats impl \<and>
    length (kv_blocks (ReleaseSequence sid impl)) = length (kv_blocks impl)"
  proof (cases "omap_find (kv_sequences impl) sid")
    case None
    then show ?thesis by (simp add: ReleaseSequence_def)
  next
    case (Some s)
    then show ?thesis by (simp add: ReleaseSequence_eq [OF inv Some] frame_simps)
  qed
  then show "kv_config (ReleaseSequence sid impl) = kv_config impl"
    and "kv_sequences (ReleaseSequence sid impl) =
      (if omap_find (kv_sequences impl) sid = None then kv_sequences impl else omap_erase sid (kv_sequences impl))"
    and "kv_prefix_cache (ReleaseSequence sid impl) = kv_prefix_cache impl"
    and "kv_stats (ReleaseSequence sid impl) = kv_stats impl"
    and "length (kv_blocks (ReleaseSequence sid impl)) = length (kv_blocks impl)"
    by blast+
qed

lemma Impl_inv: "kv_inv (Impl cfg)"
proof -
  have "UsedBlockCount (Impl cfg) = 0"
    by (simp add: UsedBlockCount_def FreeBlockCount_def Impl_def Let_def empty_block_def)
  then show ?thesis
    by (auto simp: kv_inv_def kv_invp_def config_ok_def blocks_ok_def seqs_ok_def cache_ok_def stats_ok_def
        block_ok_def Impl_def Let_def seq_refs_def empty_block_def zero_stats_def omap_inv_def ClampPositive_def)
qed

subsection \<open>Runs of operations\<close>

inductive kv_step :: "kv_impl \<Rightarrow> kv_impl \<Rightarrow> bool" where
  prompt: "kv_step impl (snd (AllocatePrompt sid n key p impl))"
| append: "kv_step impl (snd (AppendTokens sid n impl))"
| release: "kv_step impl (ReleaseSequence sid impl)"

inductive kv_reachable :: "KvCacheConfig \<Rightarrow> kv_impl \<Rightarrow> bool" for cfg where
  start: "kv_reachable cfg (Impl cfg)"
| step: "kv_reachable cfg impl \<Longrightarrow> kv_step impl impl' \<Longrightarrow> kv_reachable cfg impl'"

inductive_cases kv_stepE: "kv_step impl impl'"

lemma kv_step_inv: "kv_step impl impl' \<Longrightarrow> kv_inv impl \<Longrightarrow> kv_inv impl'"
  by (elim kv_stepE) (auto intro: AllocatePrompt_inv AppendTokens_inv kv_inv_release simp: prod_eq_iff)

lemma kv_reachable_inv: "kv_reachable cfg impl \<Longrightarrow> kv_inv impl"
  by (induction rule: kv_reachable.induct) (auto intro: Impl_inv kv_step_inv)

lemma kv_steps_reachable: "kv_step\<^sup>*\<^sup>* impl impl' \<Longrightarrow> kv_reachable cfg impl \<Longrightarrow> kv_reachable cfg impl'"
  by (induction rule: rtranclp_induct) (auto intro: kv_reachable.step)

lemma kv_step_config:
  assumes "kv_step impl impl'" and inv: "kv_inv impl"
  shows "kv_config impl' = kv_config impl"
  using assms(1)
proof cases
  case (prompt sid n key p)
  then show ?thesis using AllocatePrompt_outcome(1) [OF inv] by (metis prod.collapse)
next
  case (append sid n)
  then show ?thesis using AppendTokens_outcome(1) [OF inv] by (metis prod.collapse)
next
  case (release sid)
  then show ?thesis using ReleaseSequence_outcome(1) [OF inv] by simp
qed

lemma kv_steps_config:
  assumes "kv_step\<^sup>*\<^sup>* impl impl'" and "kv_inv impl"
  shows "kv_inv impl' \<and> kv_config impl' = kv_config impl"
  using assms by (induction rule: rtranclp_induct) (auto simp: kv_step_config intro: kv_step_inv)

end
