(* ===== verification/Kv_Capacity.thy ===== *)
theory Kv_Capacity
  imports Kv_Correct
begin

text \<open>
  How much the allocator can allocate, and what it can lose. \<open>EnsureFreeBlocks\<close> succeeds exactly
  when the free blocks and the blocks of idle cache entries cover the request. A block that is
  occupied, unreferenced and in no cache entry is leaked: nothing ever frees it again. Leaks come
  from one place, the overwrite of a cache entry in \<open>AllocatePrompt\<close>; when every prefix key is
  always used with one token count there are none, and all blocks can be reclaimed.
\<close>

subsection \<open>Exact capacity\<close>

definition idle_sum :: "kv_impl \<Rightarrow> (string \<times> PrefixEntry) list \<Rightarrow> nat" where
  "idle_sum impl es = sum_list (map (\<lambda>(_, e). if PrefixEntryIsIdle impl e then length (pe_block_ids e) else 0) es)"

definition reclaimable :: "kv_impl \<Rightarrow> int" where
  "reclaimable impl = FreeBlockCount impl + int (idle_sum impl (kv_prefix_cache impl))"

lemma evict_entry_idle:
  assumes "PrefixEntryIsIdle impl e"
  shows "PrefixEntryIsIdle (evict_entry k e impl) e' \<longleftrightarrow> PrefixEntryIsIdle impl e'"
proof -
  have "ref_count (kv_blocks (evict_entry k e impl) ! i) = ref_count (kv_blocks impl ! i)"
    if "i < length (kv_blocks impl)" for i
    using assms that by (auto simp: PrefixEntryIsIdle_def blocks_idle_iff empty_block_def)
  then show ?thesis by (auto simp: PrefixEntryIsIdle_def blocks_idle_iff)
qed

lemma idle_sum_evict_entry:
  "PrefixEntryIsIdle impl e \<Longrightarrow> idle_sum (evict_entry k e impl) es = idle_sum impl es"
  by (simp add: idle_sum_def evict_entry_idle)

lemma FreeBlockCount_evict_entry:
  assumes inv: "kv_invp pend impl" and here: "omap_find (kv_prefix_cache impl) k = Some e"
  shows "FreeBlockCount (evict_entry k e impl) = FreeBlockCount impl + int (length (pe_block_ids e))"
proof -
  let ?free = "\<lambda>impl. {i. i < length (kv_blocks impl) \<and> \<not> occupied (kv_blocks impl ! i)}"
  have e: "distinct (pe_block_ids e)"
    "\<forall>i \<in> set (pe_block_ids e). i < length (kv_blocks impl) \<and> occupied (kv_blocks impl ! i)"
    using kv_invpD(4) [OF inv] here by (auto simp: cache_ok_def entry_ok_def)
  then have "?free (evict_entry k e impl) = ?free impl \<union> set (pe_block_ids e)"
    by (auto simp: empty_block_def split: if_splits)
  moreover have "card (?free impl \<union> set (pe_block_ids e)) = card (?free impl) + card (set (pe_block_ids e))"
    using e by (intro card_Un_disjoint) auto
  ultimately show ?thesis
    using e(1) by (simp add: FreeBlockCount_card distinct_card)
qed

lemma evict_loop_capacity:
  assumes "kv_invp pend impl"
    and "\<forall>(k, e) \<in> set es. omap_find (kv_prefix_cache impl) k = Some e" and "distinct (map fst es)"
  shows "n \<le> FreeBlockCount (evict_loop es n impl) \<longleftrightarrow> n \<le> FreeBlockCount impl + int (idle_sum impl es)"
  using assms
  supply evict_loop.simps(2) [simp del]
proof (induction es arbitrary: impl)
  case Nil
  then show ?case by (simp add: idle_sum_def)
next
  case (Cons ke es)
  obtain k e where ke: "ke = (k, e)" by (cases ke)
  have here: "omap_find (kv_prefix_cache impl) k = Some e"
    using Cons.prems(2) ke by simp
  note unf = evict_loop_Cons [OF kv_invpD(4) [OF Cons.prems(1)] here]
  consider (stop) "\<not> FreeBlockCount impl < n"
    | (busy) "FreeBlockCount impl < n" "\<not> PrefixEntryIsIdle impl e"
    | (evict) "FreeBlockCount impl < n" "PrefixEntryIsIdle impl e" by blast
  then show ?case
  proof cases
    case stop
    then show ?thesis by (simp add: ke unf)
  next
    case busy
    with Cons show ?thesis by (simp add: ke unf idle_sum_def)
  next
    case evict
    note oinv = kv_invp_omap(2) [OF Cons.prems(1)]
    have "\<forall>(k', e') \<in> set es. omap_find (kv_prefix_cache (evict_entry k e impl)) k' = Some e'"
      using Cons.prems(2,3) ke by (force simp: om.find_erase [OF oinv])
    then have "n \<le> FreeBlockCount (evict_loop es n (evict_entry k e impl)) \<longleftrightarrow>
        n \<le> FreeBlockCount (evict_entry k e impl) + int (idle_sum (evict_entry k e impl) es)"
      using evict_entry_inv [OF Cons.prems(1) here evict(2)] Cons.prems(3) ke by (intro Cons.IH) auto
    with evict show ?thesis
      by (simp add: ke unf FreeBlockCount_evict_entry [OF Cons.prems(1) here] idle_sum_evict_entry)
        (simp add: idle_sum_def add.assoc)
  qed
qed

lemma EnsureFreeBlocks_iff:
  assumes inv: "kv_invp pend impl"
  shows "fst (EnsureFreeBlocks n impl) \<longleftrightarrow> n \<le> reclaimable impl"
proof -
  note oinv = kv_invp_omap(2) [OF inv]
  have "n \<le> FreeBlockCount (EvictIdlePrefixesUntil n impl) \<longleftrightarrow> n \<le> reclaimable impl"
    unfolding EvictIdlePrefixesUntil_def reclaimable_def
    by (rule evict_loop_capacity [OF inv]) (auto simp: om.in_entries_iff [OF oinv] om.entries_distinct [OF oinv])
  then show ?thesis by (auto simp: EnsureFreeBlocks_def reclaimable_def Let_def)
qed

lemma AllocateBlocks_succeeds_iff:
  assumes inv: "kv_invp pend impl" and "0 \<le> n" and run: "AllocateBlocks n key impl = (ids, impl')"
  shows "int (length ids) = n \<longleftrightarrow> n \<le> reclaimable impl"
proof (cases "n = 0")
  case True
  with run show ?thesis by (simp add: AllocateBlocks_def reclaimable_def)
next
  case False
  obtain ok m where m: "EnsureFreeBlocks n impl = (ok, m)" by fastforce
  note ens = EnsureFreeBlocks_inv [OF inv m]
  have "ok \<longleftrightarrow> n \<le> reclaimable impl"
    using EnsureFreeBlocks_iff [OF inv, of n] m by simp
  moreover have "int (length ids) = n \<longleftrightarrow> ok"
  proof (cases ok)
    case True
    then obtain bs where "alloc_scan key n 0 (kv_blocks m) = (ids, bs)"
      using run False assms(2) m by (auto simp: AllocateBlocks_def split: prod.splits)
    from alloc_scan_spec(5) [OF this] ens(3) True assms(2) show ?thesis
      by (simp add: FreeBlockCount_def)
  next
    case no: False
    then have "ids = []"
      using run False assms(2) m by (auto simp: AllocateBlocks_def)
    with False no show ?thesis by simp
  qed
  ultimately show ?thesis by simp
qed

subsection \<open>Leaked blocks\<close>

definition leaked :: "kv_impl \<Rightarrow> nat \<Rightarrow> bool" where
  "leaked impl i \<longleftrightarrow> i < length (kv_blocks impl) \<and> occupied (kv_blocks impl ! i) \<and>
     ref_count (kv_blocks impl ! i) = 0 \<and> \<not> cached_in impl i"

lemma leaked_evolves:
  assumes "leaked impl i" and "evolves new impl impl'" and "i \<notin> new"
  shows "leaked impl' i"
  using assms cached_in_mono [OF assms(2)] by (auto simp: leaked_def evolves_def)

lemma leaked_not_allocated:
  assumes inv: "kv_invp pend impl" and alloc: "AllocateBlocks n key impl = (ids, impl')" and leak: "leaked impl i"
  shows "i \<notin> set ids" "leaked impl' i"
proof -
  show "i \<notin> set ids"
  proof
    assume i: "i \<in> set ids"
    then obtain ok m bs where m: "EnsureFreeBlocks n impl = (ok, m)" "alloc_scan key n 0 (kv_blocks m) = (ids, bs)"
      using alloc by (auto simp: AllocateBlocks_def split: if_splits prod.splits bool.splits)
    with alloc_scan_spec(3) [OF m(2)] i have "\<not> occupied (kv_blocks m ! i)" by simp
    moreover have "leaked m i"
      using leaked_evolves [OF leak EnsureFreeBlocks_inv(2) [OF inv m(1)]] by simp
    ultimately show False by (simp add: leaked_def)
  qed
  then show "leaked impl' i"
    using leaked_evolves [OF leak AllocateBlocks_spec(2) [OF inv alloc]] by simp
qed

lemma leaked_map_blocks: "i \<notin> ids \<Longrightarrow> leaked (map_blocks ids f impl) i \<longleftrightarrow> leaked impl i"
  by (auto simp: leaked_def cached_in_def frame_simps)

lemma leaked_sequences [simp]: "leaked (kv_sequences_update f impl) i \<longleftrightarrow> leaked impl i"
  by (simp add: leaked_def cached_in_def)

lemma leaked_stats [simp]: "leaked (kv_stats_update f impl) i \<longleftrightarrow> leaked impl i"
  by (simp add: leaked_def cached_in_def)

lemma leaked_attach_hit:
  assumes inv: "kv_inv impl" and here: "omap_find (kv_prefix_cache impl) k = Some e" and leak: "leaked impl i"
    and run: "attach_hit sid sq e m bc impl = (r, impl')"
  shows "leaked impl' i"
proof -
  have i: "i \<notin> set (pe_block_ids e)" using leak here by (auto simp: leaked_def cached_in_def)
  then have hold: "leaked (map_blocks (set (pe_block_ids e)) (bump 1) impl) i"
    using leak by (simp add: leaked_map_blocks)
  show ?thesis using inv here run
  proof (cases rule: attach_hit_cases)
    case (fail impl2)
    with leaked_not_allocated(2) [OF kv_invp_hold [OF inv here] fail(1) hold] i show ?thesis
      by (simp add: leaked_map_blocks)
  next
    case (ok suffix impl2)
    with leaked_not_allocated(2) [OF kv_invp_hold [OF inv here] ok(1) hold] show ?thesis by simp
  qed
qed

lemma leaked_attach_miss:
  assumes inv: "kv_inv impl" and leak: "leaked impl i"
    and run: "attach_miss sid key ct sq n m bc impl = (r, impl')"
  shows "leaked impl' i"
proof -
  note inv0 = inv [unfolded kv_inv_def]
  show ?thesis using inv run
  proof (cases rule: attach_miss_cases)
    case no_prefix
    with leaked_not_allocated(2) [OF inv0 no_prefix(1) leak] show ?thesis by simp
  next
    case (no_suffix prefix impl1 impl2)
    note spec1 = AllocateBlocks_spec [OF inv0 no_suffix(1)]
    note leak1 = leaked_not_allocated [OF inv0 no_suffix(1) leak]
    from leaked_not_allocated(2) [OF spec1(1) no_suffix(3) leak1(2)] leak1(1) no_suffix(6)
    show ?thesis by (simp add: leaked_map_blocks)
  next
    case (ok prefix suffix impl1 impl2)
    note spec1 = AllocateBlocks_spec [OF inv0 ok(1)]
    note leak1 = leaked_not_allocated [OF inv0 ok(1) leak]
    note leak2 = leaked_not_allocated [OF spec1(1) ok(3) leak1(2)]
    have "omap_inv (kv_prefix_cache impl2)"
      using AllocateBlocks_spec(1) [OF spec1(1) ok(3)] by (rule kv_invp_omap)
    with leak1(1) leak2(2) show ?thesis
      unfolding ok(6) by (auto simp: leaked_def cached_in_def om.find_put split: if_splits)
  qed
qed

lemma leaked_AllocatePrompt:
  assumes inv: "kv_inv impl" and leak: "leaked impl i" and run: "AllocatePrompt sid n key p impl = (r, impl')"
  shows "leaked impl' i"
  using run
proof (cases rule: AllocatePrompt_cases)
  case (hit e)
  then show ?thesis using leaked_attach_hit [OF inv _ leak] by blast
next
  case (miss impl0)
  then have "kv_inv impl0" "leaked impl0 i"
    using inv leak kv_inv_count_miss by (auto simp: count_miss_def)
  with miss(5) show ?thesis using leaked_attach_miss by blast
qed (use leak in auto)

lemma leaked_AppendTokens:
  assumes inv: "kv_inv impl" and leak: "leaked impl i" and run: "AppendTokens sid n impl = (r, impl')"
  shows "leaked impl' i"
  using inv run
proof (cases rule: AppendTokens_cases)
  case (fail s)
  with leaked_not_allocated(2) [OF inv [unfolded kv_inv_def] fail(3) leak] show ?thesis by simp
next
  case (ok s ids impl1)
  with leaked_not_allocated(2) [OF inv [unfolded kv_inv_def] ok(3) leak] show ?thesis by simp
qed (use leak in auto)

lemma leaked_ReleaseSequence:
  assumes inv: "kv_inv impl" and leak: "leaked impl i"
  shows "leaked (ReleaseSequence sid impl) i"
proof (cases "omap_find (kv_sequences impl) sid")
  case None
  with leak show ?thesis by (simp add: ReleaseSequence_def)
next
  case (Some s)
  have "i \<notin> set (sq_block_ids s)"
    using held_occupied(2) [OF inv [unfolded kv_inv_def] Some] leak by (force simp: leaked_def)
  with leak show ?thesis by (simp add: ReleaseSequence_eq [OF inv Some] leaked_map_blocks)
qed

lemma leaked_kv_step: "kv_step impl impl' \<Longrightarrow> kv_inv impl \<Longrightarrow> leaked impl i \<Longrightarrow> leaked impl' i"
  by (elim kv_stepE)
    (auto intro: leaked_AllocatePrompt leaked_AppendTokens leaked_ReleaseSequence simp: prod_eq_iff)

lemma leaked_kv_steps:
  assumes "kv_step\<^sup>*\<^sup>* impl impl'" and "kv_inv impl" and "leaked impl i"
  shows "kv_inv impl' \<and> leaked impl' i"
  using assms by (induction rule: rtranclp_induct) (auto intro: kv_step_inv leaked_kv_step)

text \<open>With enough free blocks an allocation takes free blocks only and leaves the cache alone.\<close>

lemma AllocateBlocks_room:
  assumes inv: "kv_invp pend impl" and n: "0 \<le> n" "n \<le> FreeBlockCount impl" and run: "AllocateBlocks n key impl = (ids, impl')"
  shows "int (length ids) = n" and "kv_prefix_cache impl' = kv_prefix_cache impl"
    and "FreeBlockCount impl' = FreeBlockCount impl - n"
    and "i < length (kv_blocks impl) \<Longrightarrow> occupied (kv_blocks impl ! i) \<Longrightarrow> i \<notin> set ids \<and> kv_blocks impl' ! i = kv_blocks impl ! i"
proof -
  have "int (length ids) = n \<and> kv_prefix_cache impl' = kv_prefix_cache impl \<and> FreeBlockCount impl' = FreeBlockCount impl - n \<and>
    (\<forall>i < length (kv_blocks impl). occupied (kv_blocks impl ! i) \<longrightarrow> i \<notin> set ids \<and> kv_blocks impl' ! i = kv_blocks impl ! i)"
  proof (cases "n = 0")
    case True
    with run show ?thesis by (simp add: AllocateBlocks_def)
  next
    case False
    then obtain bs where scan: "alloc_scan key n 0 (kv_blocks impl) = (ids, bs)"
      and impl': "impl' = RefreshHighWatermark (impl\<lparr>kv_blocks := bs\<rparr>)"
      using run n by (auto simp: AllocateBlocks_def EnsureFreeBlocks_def split: prod.splits)
    note spec = alloc_scan_spec [OF scan]
    let ?free = "\<lambda>bs. {i. i < length bs \<and> \<not> occupied (bs ! i)}"
    have "?free bs = ?free (kv_blocks impl) - set ids"
      using spec(1,3,4) by (auto simp: fresh_block_def split: if_splits)
    moreover have "set ids \<subseteq> ?free (kv_blocks impl)" using spec(3) by auto
    ultimately have "card (?free bs) = card (?free (kv_blocks impl)) - length ids" "length ids \<le> card (?free (kv_blocks impl))"
      using spec(2) card_mono [of "?free (kv_blocks impl)" "set ids"] by (simp_all add: card_Diff_subset distinct_card)
    then have "FreeBlockCount impl' = FreeBlockCount impl - int (length ids)"
      by (simp add: FreeBlockCount_card impl' frame_simps)
    moreover have "int (length ids) = n" using spec(5) n by (simp add: FreeBlockCount_def)
    ultimately show ?thesis using spec(3,4) by (auto simp: impl' frame_simps)
  qed
  then show "int (length ids) = n" and "kv_prefix_cache impl' = kv_prefix_cache impl"
    and "FreeBlockCount impl' = FreeBlockCount impl - n"
    and "i < length (kv_blocks impl) \<Longrightarrow> occupied (kv_blocks impl ! i) \<Longrightarrow> i \<notin> set ids \<and> kv_blocks impl' ! i = kv_blocks impl ! i"
    by blast+
qed

text \<open>A miss on a key that is cached overwrites the entry, and its idle blocks are leaked.\<close>

lemma attach_miss_leaks:
  assumes inv: "kv_inv impl" and here: "omap_find (kv_prefix_cache impl) key = Some e" and idle: "PrefixEntryIsIdle impl e"
    and i: "i \<in> set (pe_block_ids e)" and n: "0 \<le> n" "0 \<le> m" "n + m \<le> FreeBlockCount impl" and ct: "0 < ct"
    and run: "attach_miss sid key ct sq n m bc impl = (r, impl')"
  shows "al_ok r \<and> leaked impl' i"
proof -
  note inv0 = inv [unfolded kv_inv_def]
  obtain prefix impl1 where a: "AllocateBlocks n key impl = (prefix, impl1)" by fastforce
  obtain suffix impl2 where b: "AllocateBlocks m '''' impl1 = (suffix, impl2)" by fastforce
  note spec1 = AllocateBlocks_spec [OF inv0 a] and room1 = AllocateBlocks_room [OF inv0 n(1) _ a]
  have free: "n \<le> FreeBlockCount impl" "m \<le> FreeBlockCount impl1" using n room1(3) by simp_all
  note spec2 = AllocateBlocks_spec [OF spec1(1) b] and room2 = AllocateBlocks_room [OF spec1(1) n(2) free(2) b]
  have entry: "entry_ok impl key e" using kv_invpD(4) [OF inv0] here by (simp add: cache_ok_def)
  then have blk: "i < length (kv_blocks impl)" "occupied (kv_blocks impl ! i)" and key: "key \<noteq> ''''"
    using i by (auto simp: entry_ok_def)
  have len: "length (kv_blocks impl1) = length (kv_blocks impl)" "length (kv_blocks impl2) = length (kv_blocks impl)"
    using spec1(2) spec2(2) by (simp_all add: evolves_def)
  have kept: "i \<notin> set prefix" "kv_blocks impl2 ! i = kv_blocks impl ! i"
    using room1(4) [OF free(1) blk] room2(4) [of i] blk len by simp_all
  let ?cache = "omap_put key \<lparr>pe_token_count = ct, pe_block_ids = prefix\<rparr> (kv_prefix_cache impl)"
  have cache: "kv_prefix_cache impl2 = kv_prefix_cache impl" using room1(2) [OF free(1)] room2(2) by simp
  have impl': "kv_blocks impl' = kv_blocks impl2" "kv_prefix_cache impl' = ?cache" "al_ok r"
    using run a b room1(1) [OF free(1)] room2(1) key ct cache by (auto simp: attach_miss_def AllocationOk_def Let_def)
  have "ref_count (kv_blocks impl ! i) = 0" using idle i by (simp add: PrefixEntryIsIdle_def blocks_idle_iff)
  moreover have "\<not> cached_in impl' i"
    using entry_blocks_disjoint [OF kv_invpD(4) [OF inv0] here] i kept(1) kv_invp_omap(2) [OF inv0]
    by (fastforce simp: cached_in_def impl' om.find_put split: if_splits)
  ultimately show ?thesis using impl' kept blk len by (simp add: leaked_def)
qed

lemma AllocatePrompt_leaks:
  assumes inv: "kv_inv impl" and here: "omap_find (kv_prefix_cache impl) key = Some e" and idle: "PrefixEntryIsIdle impl e"
    and i: "i \<in> set (pe_block_ids e)" and new: "sid \<noteq> ''''" "omap_find (kv_sequences impl) sid = None"
    and ct: "0 < prompt_cacheable n key p" "prompt_cacheable n key p \<noteq> pe_token_count e"
    and room: "prompt_blocks impl n key p \<le> FreeBlockCount impl"
  shows "al_ok (fst (AllocatePrompt sid n key p impl)) \<and> leaked (snd (AllocatePrompt sid n key p impl)) i"
proof -
  let ?c = "prompt_cacheable n key p" and ?t = "cfg_tokens_per_block (kv_config impl)"
  let ?miss = "attach_miss sid key ?c (new_sequence impl n key p []) (CeilDiv ?c ?t) (CeilDiv (max 0 n - ?c) ?t)
      (prompt_blocks impl n key p) (count_miss impl)"
  have t: "0 < ?t" using inv by (simp add: kv_inv_def kv_invp_def config_ok_def)
  have "al_ok (fst ?miss) \<and> leaked (snd ?miss) i"
    by (rule attach_miss_leaks [OF kv_inv_count_miss [OF inv] _ _ i CeilDiv_nonneg [OF t] CeilDiv_nonneg [OF t] _ ct(1) prod.collapse [symmetric]])
      (use here idle room in \<open>simp_all add: prompt_blocks_def Let_def PrefixEntryIsIdle_def FreeBlockCount_def\<close>)
  moreover have "AllocatePrompt sid n key p impl = ?miss" using new here ct by (auto simp: AllocatePrompt_eq Let_def)
  ultimately show ?thesis by simp
qed

subsection \<open>No leaks when every key has one token count\<close>

definition covered_but :: "nat set \<Rightarrow> kv_impl \<Rightarrow> bool" where
  "covered_but P impl \<longleftrightarrow> (\<forall>i < length (kv_blocks impl). i \<notin> P \<longrightarrow> occupied (kv_blocks impl ! i) \<longrightarrow>
     cached_prefix_key (kv_blocks impl ! i) \<noteq> '''' \<longrightarrow> cached_in impl i)"

definition token_discipline :: "(string \<Rightarrow> int) \<Rightarrow> kv_impl \<Rightarrow> bool" where
  "token_discipline tok impl \<longleftrightarrow> covered_but {} impl \<and>
     (\<forall>k e. omap_find (kv_prefix_cache impl) k = Some e \<longrightarrow> pe_token_count e = tok k)"

lemma covered_evolves:
  assumes "covered_but P impl" and "evolves new impl impl'"
  shows "covered_but (P \<union> new) impl'"
  unfolding covered_but_def
proof (intro allI impI)
  fix i assume i: "i < length (kv_blocks impl')" "i \<notin> P \<union> new" "occupied (kv_blocks impl' ! i)"
    "cached_prefix_key (kv_blocks impl' ! i) \<noteq> ''''"
  then have "kv_blocks impl' ! i = kv_blocks impl ! i" "kv_blocks impl' ! i \<noteq> empty_block"
    using assms(2) by (auto simp: evolves_def empty_block_def)
  moreover from this have "cached_in impl i"
    using assms i by (auto simp: covered_but_def evolves_def)
  ultimately show "cached_in impl' i"
    using assms(2) i by (auto simp: evolves_def)
qed

lemma covered_AllocateBlocks:
  assumes "kv_invp pend impl" and "AllocateBlocks n key impl = (ids, impl')" and "covered_but P impl"
  shows "covered_but (P \<union> set ids) impl'" and "key = '''' \<Longrightarrow> covered_but P impl'"
proof -
  note spec = AllocateBlocks_spec [OF assms(1,2)]
  show cov: "covered_but (P \<union> set ids) impl'"
    using covered_evolves [OF assms(3) spec(2)] .
  show "covered_but P impl'" if "key = ''''"
    using cov spec(4) that by (auto simp: covered_but_def fresh_block_def)
qed

lemma covered_map_blocks:
  assumes "covered_but P impl"
    and "\<And>i. i < length (kv_blocks impl) \<Longrightarrow> i \<in> ids \<Longrightarrow> occupied (f (kv_blocks impl ! i)) \<Longrightarrow>
      cached_prefix_key (f (kv_blocks impl ! i)) \<noteq> '''' \<Longrightarrow>
      i \<notin> P \<and> occupied (kv_blocks impl ! i) \<and> cached_prefix_key (kv_blocks impl ! i) \<noteq> ''''"
  shows "covered_but (P - ids) (map_blocks ids f impl)"
  using assms by (auto simp: covered_but_def cached_in_def frame_simps split: if_splits)

lemma covered_update [simp]:
  "covered_but P (kv_sequences_update f impl) \<longleftrightarrow> covered_but P impl"
  "covered_but P (kv_stats_update g impl) \<longleftrightarrow> covered_but P impl"
  by (simp_all add: covered_but_def cached_in_def)

lemma covered_bump: "covered_but {} impl \<Longrightarrow> covered_but {} (map_blocks ids (bump d) impl)"
  using covered_map_blocks [of "{}" impl ids "bump d"] by (simp add: bump_def)

lemma discipline_attach_hit:
  assumes inv: "kv_inv impl" and here: "omap_find (kv_prefix_cache impl) k = Some e"
    and disc: "token_discipline tok impl" and run: "attach_hit sid sq e m bc impl = (r, impl')"
  shows "token_discipline tok impl'"
proof -
  note hold = kv_invp_hold [OF inv here]
  have cov: "covered_but {} (map_blocks (set (pe_block_ids e)) (bump 1) impl)"
    using disc by (simp add: token_discipline_def covered_bump)
  have sub: "pe_token_count e' = tok k'"
    if "evolves new (map_blocks (set (pe_block_ids e)) (bump 1) impl) impl2"
      "omap_find (kv_prefix_cache impl2) k' = Some e'" for new impl2 k' e'
    using that disc by (simp add: evolves_def token_discipline_def frame_simps)
  show ?thesis using inv here run
  proof (cases rule: attach_hit_cases)
    case (fail impl2)
    with covered_AllocateBlocks(2) [OF hold fail(1) cov] sub [OF fail(4)] show ?thesis
      by (simp add: token_discipline_def covered_bump frame_simps)
  next
    case (ok suffix impl2)
    with covered_AllocateBlocks(2) [OF hold ok(1) cov] sub [OF AllocateBlocks_spec(2) [OF hold ok(1)]] show ?thesis
      by (simp add: token_discipline_def)
  qed
qed

lemma discipline_register:
  assumes cov: "covered_but (set prefix) impl2" and none: "omap_find (kv_prefix_cache impl2) key = None"
    and cnt: "\<And>k e. omap_find (kv_prefix_cache impl2) k = Some e \<Longrightarrow> pe_token_count e = tok k"
    and oinv: "omap_inv (kv_prefix_cache impl2)" and blocks: "kv_blocks impl' = kv_blocks impl2"
    and cache: "kv_prefix_cache impl' = omap_put key \<lparr>pe_token_count = tok key, pe_block_ids = prefix\<rparr> (kv_prefix_cache impl2)"
  shows "token_discipline tok impl'"
proof -
  let ?e = "\<lparr>pe_token_count = tok key, pe_block_ids = prefix\<rparr>"
  have find': "omap_find (kv_prefix_cache impl') = (omap_find (kv_prefix_cache impl2))(key \<mapsto> ?e)"
    by (simp add: cache om.find_put [OF oinv])
  have "cached_in impl' i" if "cached_in impl2 i" for i
  proof -
    from that obtain k e where "omap_find (kv_prefix_cache impl2) k = Some e" "i \<in> set (pe_block_ids e)"
      by (auto simp: cached_in_def)
    with none have "omap_find (kv_prefix_cache impl') k = Some e" by (auto simp: find')
    with \<open>i \<in> set (pe_block_ids e)\<close> show ?thesis by (auto simp: cached_in_def)
  qed
  moreover have "cached_in impl' i" if "i \<in> set prefix" for i
    using that by (auto simp: cached_in_def find' intro: exI [of _ key])
  ultimately have "covered_but {} impl'" using cov by (auto simp: covered_but_def blocks)
  moreover have "pe_token_count e' = tok k'" if "omap_find (kv_prefix_cache impl') k' = Some e'" for k' e'
    using that cnt by (auto simp: find' split: if_splits)
  ultimately show ?thesis by (simp add: token_discipline_def)
qed

lemma discipline_attach_miss:
  assumes inv: "kv_inv impl" and disc: "token_discipline tok impl"
    and run: "attach_miss sid key ct sq n m bc impl = (r, impl')"
    and n: "n = CeilDiv ct (cfg_tokens_per_block (kv_config impl))" and ct: "0 < ct \<Longrightarrow> ct = tok key" "0 \<le> ct"
    and key: "0 < ct \<Longrightarrow> key \<noteq> '''' \<and> omap_find (kv_prefix_cache impl) key = None"
  shows "token_discipline tok impl'"
proof -
  note inv0 = inv [unfolded kv_inv_def]
  have cov: "covered_but {} impl" using disc by (simp add: token_discipline_def)
  have cnt: "pe_token_count e' = tok k'"
    if "\<forall>k e. omap_find (kv_prefix_cache impl2) k = Some e \<longrightarrow> omap_find (kv_prefix_cache impl) k = Some e"
      "omap_find (kv_prefix_cache impl2) k' = Some e'" for impl2 k' e'
    using that disc by (simp add: token_discipline_def)
  show ?thesis using inv run
  proof (cases rule: attach_miss_cases)
    case no_prefix
    note spec = AllocateBlocks_spec [OF inv0 no_prefix(1)]
    have "covered_but {} impl'"
      using covered_AllocateBlocks(1) [OF inv0 no_prefix(1) cov] by simp
    with cnt [of impl'] spec(2) show ?thesis by (auto simp: token_discipline_def evolves_def)
  next
    case (no_suffix prefix impl1 impl2)
    note spec1 = AllocateBlocks_spec [OF inv0 no_suffix(1)]
    note spec2 = AllocateBlocks_spec [OF spec1(1) no_suffix(3)]
    have "covered_but (set prefix) impl2"
      using covered_AllocateBlocks(1) [OF inv0 no_suffix(1) cov]
        covered_AllocateBlocks(2) [OF spec1(1) no_suffix(3)] by simp
    then have "covered_but {} impl'"
      using covered_map_blocks [of "set prefix" impl2 "set prefix" "\<lambda>_. empty_block"]
      by (simp add: no_suffix(6) empty_block_def)
    with cnt [of impl2] spec1(2) spec2(2) show ?thesis
      by (auto simp: token_discipline_def evolves_def no_suffix(6) frame_simps)
  next
    case (ok prefix suffix impl1 impl2)
    note spec1 = AllocateBlocks_spec [OF inv0 ok(1)]
    note spec2 = AllocateBlocks_spec [OF spec1(1) ok(3)]
    note oinv = kv_invp_omap(2) [OF spec2(1)]
    have cov2: "covered_but (set prefix) impl2"
      using covered_AllocateBlocks(1) [OF inv0 ok(1) cov] covered_AllocateBlocks(2) [OF spec1(1) ok(3)] by simp
    have sub: "\<forall>k e. omap_find (kv_prefix_cache impl2) k = Some e \<longrightarrow> omap_find (kv_prefix_cache impl) k = Some e"
      using spec1(2) spec2(2) by (simp add: evolves_def)
    show ?thesis
    proof (cases "0 < ct")
      case True
      with key sub have none: "omap_find (kv_prefix_cache impl2) key = None"
        by (metis not_None_eq)
      show ?thesis
        by (rule discipline_register [OF cov2 none cnt [OF sub] oinv]) (use True key ct(1) in \<open>simp_all add: ok(6)\<close>)
    next
      case False
      with ct(2) n ok(2) have "prefix = []" by (simp add: CeilDiv_def)
      with False cov2 cnt [OF sub] show ?thesis
        by (auto simp: token_discipline_def ok(6) covered_but_def cached_in_def)
    qed
  qed
qed

text \<open>Requests follow the discipline \<open>tok\<close> when a key is shared over \<open>tok key\<close> tokens or not at all.\<close>

inductive disciplined_step :: "(string \<Rightarrow> int) \<Rightarrow> kv_impl \<Rightarrow> kv_impl \<Rightarrow> bool" for tok where
  prompt: "prompt_cacheable n key p = 0 \<or> prompt_cacheable n key p = tok key \<Longrightarrow>
     disciplined_step tok impl (snd (AllocatePrompt sid n key p impl))"
| append: "disciplined_step tok impl (snd (AppendTokens sid n impl))"
| release: "disciplined_step tok impl (ReleaseSequence sid impl)"

inductive_cases disciplined_stepE: "disciplined_step tok impl impl'"

lemma disciplined_kv_step: "disciplined_step tok impl impl' \<Longrightarrow> kv_step impl impl'"
  by (elim disciplined_stepE) (auto intro: kv_step.intros)

lemma discipline_AllocatePrompt:
  assumes inv: "kv_inv impl" and disc: "token_discipline tok impl"
    and ct: "prompt_cacheable n key p = 0 \<or> prompt_cacheable n key p = tok key"
    and run: "AllocatePrompt sid n key p impl = (r, impl')"
  shows "token_discipline tok impl'"
  using run
proof (cases rule: AllocatePrompt_cases)
  case (hit e)
  then show ?thesis using discipline_attach_hit [OF inv _ disc] by blast
next
  case (miss impl0)
  then have impl0: "kv_inv impl0" "token_discipline tok impl0" "kv_config impl0 = kv_config impl"
    "kv_prefix_cache impl0 = kv_prefix_cache impl"
    using inv disc kv_inv_count_miss
    by (auto simp: token_discipline_def count_miss_def covered_but_def cached_in_def)
  have "omap_find (kv_prefix_cache impl) key = None" if "0 < prompt_cacheable n key p"
    using miss(4) that disc ct
    by (cases "omap_find (kv_prefix_cache impl) key") (auto simp: token_discipline_def)
  with impl0 miss(5) ct prompt_cacheable_key [of n key p] prompt_cacheable_bounds(1) [of n key p]
  show ?thesis by (intro discipline_attach_miss [OF impl0(1,2) miss(5)]) auto
qed (use disc in auto)

lemma discipline_AppendTokens:
  assumes inv: "kv_inv impl" and disc: "token_discipline tok impl" and run: "AppendTokens sid n impl = (r, impl')"
  shows "token_discipline tok impl'"
proof -
  have cov: "covered_but {} impl" using disc by (simp add: token_discipline_def)
  note inv0 = inv [unfolded kv_inv_def]
  show ?thesis using inv run
  proof (cases rule: AppendTokens_cases)
    case (fail s)
    with covered_AllocateBlocks(2) [OF inv0 fail(3) cov] AllocateBlocks_spec(2) [OF inv0 fail(3)] disc
    show ?thesis by (simp add: token_discipline_def evolves_def)
  next
    case (ok s ids impl1)
    with covered_AllocateBlocks(2) [OF inv0 ok(3) cov] AllocateBlocks_spec(2) [OF inv0 ok(3)] disc
    show ?thesis by (simp add: token_discipline_def evolves_def)
  qed (use disc in auto)
qed

lemma discipline_ReleaseSequence:
  assumes inv: "kv_inv impl" and disc: "token_discipline tok impl"
  shows "token_discipline tok (ReleaseSequence sid impl)"
proof (cases "omap_find (kv_sequences impl) sid")
  case None
  with disc show ?thesis by (simp add: ReleaseSequence_def)
next
  case (Some s)
  have "covered_but {} (map_blocks (set (sq_block_ids s)) unhold impl)"
    using disc covered_map_blocks [of "{}" impl "set (sq_block_ids s)" unhold]
    by (simp add: token_discipline_def unhold_occupied unhold_key)
  with disc show ?thesis
    by (simp add: ReleaseSequence_eq [OF inv Some] token_discipline_def frame_simps)
qed

lemma disciplined_step_discipline:
  "disciplined_step tok impl impl' \<Longrightarrow> kv_inv impl \<Longrightarrow> token_discipline tok impl \<Longrightarrow> token_discipline tok impl'"
  by (elim disciplined_stepE)
    (auto intro: discipline_AllocatePrompt discipline_AppendTokens discipline_ReleaseSequence simp: prod_eq_iff)

lemma disciplined_steps:
  assumes "(disciplined_step tok)\<^sup>*\<^sup>* (Impl cfg) impl"
  shows "kv_inv impl \<and> token_discipline tok impl"
  using assms
proof (induction rule: rtranclp_induct)
  case base
  have "token_discipline tok (Impl cfg)"
    by (auto simp: token_discipline_def covered_but_def Impl_def Let_def empty_block_def)
  then show ?case using Impl_inv by simp
next
  case (step impl impl')
  then show ?case using disciplined_step_discipline disciplined_kv_step kv_step_inv by blast
qed

lemma discipline_no_leak: "kv_inv impl \<Longrightarrow> token_discipline tok impl \<Longrightarrow> \<not> leaked impl i"
  by (auto simp: token_discipline_def covered_but_def leaked_def kv_inv_def kv_invp_def blocks_ok_def block_ok_def)

subsection \<open>An idle allocator without leaks can reclaim everything\<close>

lemma sum_length_disjoint:
  assumes "distinct (map fst es)" and "\<And>k e. (k, e) \<in> set es \<Longrightarrow> distinct (ids e) \<and> (\<forall>i \<in> set (ids e). key i = k)"
  shows "sum_list (map (\<lambda>(_, e). length (ids e)) es) = card (\<Union>(k, e) \<in> set es. set (ids e))"
  using assms
proof (induction es)
  case (Cons x es)
  obtain k e where x: "x = (k, e)" by fastforce
  have "set (ids e) \<inter> (\<Union>(k, e) \<in> set es. set (ids e)) = {}"
  proof -
    have "False" if "i \<in> set (ids e)" "(k', e') \<in> set es" "i \<in> set (ids e')" for i k' e'
    proof -
      have "k' = k" using Cons.prems(2) [of k e] Cons.prems(2) [of k' e'] that x by auto
      then show False using Cons.prems(1) that(2) x by force
    qed
    then show ?thesis by fastforce
  qed
  moreover have "card (set (ids e)) = length (ids e)" using Cons.prems(2) [of k e] x by (simp add: distinct_card)
  moreover have "finite (\<Union>(k, e) \<in> set es. set (ids e))" by auto
  moreover have "sum_list (map (\<lambda>(_, e). length (ids e)) es) = card (\<Union>(k, e) \<in> set es. set (ids e))"
    using Cons by (intro Cons.IH) auto
  ultimately show ?case using x by (simp add: card_Un_disjoint)
qed simp

lemma no_sequences_idle:
  assumes inv: "kv_inv impl" and "kv_sequences impl = []" and e: "omap_find (kv_prefix_cache impl) k = Some e"
  shows "PrefixEntryIsIdle impl e"
proof -
  have "\<forall>i \<in> set (pe_block_ids e). i < length (kv_blocks impl) \<and> ref_count (kv_blocks impl ! i) = 0"
    using inv e assms(2)
    by (fastforce simp: kv_inv_def kv_invp_def cache_ok_def entry_ok_def blocks_ok_def block_ok_def seq_refs_def)
  then show ?thesis by (simp add: PrefixEntryIsIdle_def blocks_idle_iff)
qed

lemma drained_reclaimable:
  assumes inv: "kv_inv impl" and none: "kv_sequences impl = []" and tight: "\<And>i. \<not> leaked impl i"
  shows "reclaimable impl = cfg_total_blocks (kv_config impl)"
proof -
  let ?es = "kv_prefix_cache impl"
  note oinv = kv_invp_omap(2) [OF inv [unfolded kv_inv_def]]
  have entry: "entry_ok impl k e" if "(k, e) \<in> set ?es" for k e
    using inv that om.in_entries_iff [OF oinv] by (auto simp: kv_inv_def kv_invp_def cache_ok_def)
  have "idle_sum impl ?es = sum_list (map (\<lambda>(_, e). length (pe_block_ids e)) ?es)"
    unfolding idle_sum_def
    using no_sequences_idle [OF inv none] om.in_entries_iff [OF oinv] by (intro arg_cong [where f = sum_list] map_cong) auto
  also have "\<dots> = card (\<Union>(k, e) \<in> set ?es. set (pe_block_ids e))"
    using entry om.entries_distinct [OF oinv]
    by (intro sum_length_disjoint [where key = "\<lambda>i. cached_prefix_key (kv_blocks impl ! i)"]) (auto simp: entry_ok_def)
  also have "(\<Union>(k, e) \<in> set ?es. set (pe_block_ids e)) = {i. i < length (kv_blocks impl) \<and> occupied (kv_blocks impl ! i)}"
  proof (intro equalityI subsetI)
    fix i assume "i \<in> {i. i < length (kv_blocks impl) \<and> occupied (kv_blocks impl ! i)}"
    moreover from this have "ref_count (kv_blocks impl ! i) = 0"
      using inv none by (auto simp: kv_inv_def kv_invp_def blocks_ok_def block_ok_def seq_refs_def)
    ultimately have "cached_in impl i" using tight [of i] by (auto simp: leaked_def)
    then show "i \<in> (\<Union>(k, e) \<in> set ?es. set (pe_block_ids e))"
      using om.in_entries_iff [OF oinv] by (force simp: cached_in_def)
  qed (use entry in \<open>auto simp: entry_ok_def\<close>)
  also have "int (card \<dots>) = UsedBlockCount impl" by (simp add: UsedBlockCount_card)
  finally show ?thesis
    using inv by (simp add: reclaimable_def UsedBlockCount_def kv_inv_def kv_invp_def config_ok_def)
qed

end
