(* ===== verification/Kv_Interface.thy ===== *)
theory Kv_Interface
  imports Kv_Capacity
begin

text \<open>
  What a client of the allocator may rely on. The abstract state is the map from sequence ids to
  prompt tokens, generated tokens and attached blocks; the locale \<open>kv_cache\<close> states what each
  operation does to it, and derives the facts the scheduler needs. The interpretation at the end
  shows that the detailed allocator refines this specification.
\<close>

type_synonym kv_view = "string \<rightharpoonup> int \<times> int \<times> int"

definition kv_view :: "kv_impl \<Rightarrow> kv_view" where
  "kv_view impl sid = map_option (\<lambda>s. (sq_prompt_tokens s, sq_generated_tokens s, int (length (sq_block_ids s))))
     (omap_find (kv_sequences impl) sid)"

definition kv_per_block :: "kv_impl \<Rightarrow> int" where
  "kv_per_block impl = cfg_tokens_per_block (kv_config impl)"

text \<open>Blocks a prompt occupies, at \<open>t\<close> tokens per block.\<close>

definition prompt_need :: "int \<Rightarrow> int \<Rightarrow> string \<Rightarrow> int \<Rightarrow> int" where
  "prompt_need t n key p =
     CeilDiv (prompt_cacheable n key p) t + CeilDiv (max 0 n - prompt_cacheable n key p) t"

locale kv_cache =
  fixes alloc :: "string \<Rightarrow> int \<Rightarrow> string \<Rightarrow> int \<Rightarrow> 'm \<Rightarrow> KvAllocation \<times> 'm"
    and append :: "string \<Rightarrow> int \<Rightarrow> 'm \<Rightarrow> KvAllocation \<times> 'm"
    and release :: "string \<Rightarrow> 'm \<Rightarrow> 'm"
    and count :: "string \<Rightarrow> 'm \<Rightarrow> int"
    and view :: "'m \<Rightarrow> kv_view"
    and per_block :: "'m \<Rightarrow> int"
    and invar :: "'m \<Rightarrow> bool"
  assumes invar_alloc: "invar m \<Longrightarrow> alloc sid n key p m = (r, m') \<Longrightarrow> invar m'"
    and invar_append: "invar m \<Longrightarrow> append sid n m = (r, m') \<Longrightarrow> invar m'"
    and invar_release: "invar m \<Longrightarrow> invar (release sid m)"
    and per_block_alloc: "invar m \<Longrightarrow> alloc sid n key p m = (r, m') \<Longrightarrow> per_block m' = per_block m"
    and per_block_append: "invar m \<Longrightarrow> append sid n m = (r, m') \<Longrightarrow> per_block m' = per_block m"
    and per_block_release: "invar m \<Longrightarrow> per_block (release sid m) = per_block m"
    and alloc_fail: "invar m \<Longrightarrow> alloc sid n key p m = (r, m') \<Longrightarrow> \<not> al_ok r \<Longrightarrow> view m' = view m"
    and alloc_ok: "invar m \<Longrightarrow> alloc sid n key p m = (r, m') \<Longrightarrow> al_ok r \<Longrightarrow>
      view m sid = None \<and> view m' = (view m)(sid \<mapsto> (max 0 n, 0, prompt_need (per_block m) n key p))"
    and append_fail: "invar m \<Longrightarrow> append sid n m = (r, m') \<Longrightarrow> \<not> al_ok r \<Longrightarrow> view m' = view m"
    and append_ok: "invar m \<Longrightarrow> append sid n m = (r, m') \<Longrightarrow> al_ok r \<Longrightarrow> 0 < n \<Longrightarrow>
      \<exists>p g b. view m sid = Some (p, g, b) \<and>
        view m' = (view m)(sid \<mapsto> (p, g + n, b + CeilDiv (g + n) (per_block m) - CeilDiv g (per_block m)))"
    and release_view: "invar m \<Longrightarrow> view (release sid m) = (view m)(sid := None)"
    and count_view: "count sid m = (case view m sid of None \<Rightarrow> 0 | Some (p, g, b) \<Rightarrow> b)"
begin

text \<open>A sequence with \<open>n\<close> prompt tokens and \<open>g\<close> generated ones, holding exactly the blocks both need.\<close>

definition holds_exactly :: "'m \<Rightarrow> string \<Rightarrow> int \<Rightarrow> string \<Rightarrow> int \<Rightarrow> int \<Rightarrow> bool" where
  "holds_exactly m sid n key p g \<longleftrightarrow>
     view m sid = Some (max 0 n, g, prompt_need (per_block m) n key p + CeilDiv g (per_block m))"

lemma holds_after_alloc:
  assumes "invar m" and "alloc sid n key p m = (r, m')" and "al_ok r"
  shows "holds_exactly m' sid n key p 0"
  using alloc_ok [OF assms] per_block_alloc [OF assms(1,2)] by (simp add: holds_exactly_def CeilDiv_def)

lemma holds_after_append:
  assumes "invar m" and "append sid k m = (r, m')" and "al_ok r" and "0 < k" and "holds_exactly m sid n key p g"
  shows "holds_exactly m' sid n key p (g + k)"
  using append_ok [OF assms(1-4)] per_block_append [OF assms(1,2)] assms(5) by (auto simp: holds_exactly_def)

lemma count_holds:
  "holds_exactly m sid n key p g \<Longrightarrow> count sid m = prompt_need (per_block m) n key p + CeilDiv g (per_block m)"
  by (simp add: holds_exactly_def count_view)

lemma others_alloc:
  "invar m \<Longrightarrow> alloc sid n key p m = (r, m') \<Longrightarrow> sid' \<noteq> sid \<Longrightarrow> view m' sid' = view m sid'"
  by (cases "al_ok r") (auto dest: alloc_ok alloc_fail)

lemma others_append:
  "invar m \<Longrightarrow> append sid n m = (r, m') \<Longrightarrow> 0 < n \<Longrightarrow> sid' \<noteq> sid \<Longrightarrow> view m' sid' = view m sid'"
  by (cases "al_ok r") (auto dest: append_ok append_fail)

lemma append_keeps_held:
  "invar m \<Longrightarrow> append sid n m = (r, m') \<Longrightarrow> 0 < n \<Longrightarrow> (view m' sid = None) = (view m sid = None)"
  by (cases "al_ok r") (auto dest: append_ok append_fail)

lemma append_absent: "invar m \<Longrightarrow> append sid n m = (r, m') \<Longrightarrow> 0 < n \<Longrightarrow> view m sid = None \<Longrightarrow> \<not> al_ok r"
  by (auto dest: append_ok)

end

subsection \<open>The allocator meets the contract\<close>

lemma kv_view_put:
  assumes "kv_inv impl" and "kv_sequences impl' = omap_put sid s (kv_sequences impl)"
  shows "kv_view impl' = (kv_view impl)(sid \<mapsto>
    (sq_prompt_tokens s, sq_generated_tokens s, int (length (sq_block_ids s))))"
  using assms kv_invp_omap(1) [OF assms(1) [unfolded kv_inv_def]]
  by (auto simp: kv_view_def fun_eq_iff om.find_put)

lemma kv_view_alloc:
  assumes inv: "kv_inv impl" and run: "AllocatePrompt sid n key p impl = (r, impl')" and ok: "al_ok r"
  shows "kv_view impl sid = None \<and>
    kv_view impl' = (kv_view impl)(sid \<mapsto> (max 0 n, 0, prompt_need (kv_per_block impl) n key p))"
proof -
  from AllocatePrompt_outcome(3) [OF inv run ok] obtain ids where
    ids: "omap_find (kv_sequences impl) sid = None" "int (length ids) = prompt_blocks impl n key p"
      "kv_sequences impl' = omap_put sid (new_sequence impl n key p ids) (kv_sequences impl)" by blast
  from kv_view_put [OF inv ids(3)] ids(1,2) show ?thesis
    by (simp add: new_sequence_def kv_view_def prompt_need_def prompt_blocks_def kv_per_block_def Let_def)
qed

lemma kv_view_append:
  assumes inv: "kv_inv impl" and run: "AppendTokens sid n impl = (r, impl')" and ok: "al_ok r" and n: "0 < n"
  shows "\<exists>p g b. kv_view impl sid = Some (p, g, b) \<and> kv_view impl' = (kv_view impl)(sid \<mapsto>
    (p, g + n, b + CeilDiv (g + n) (kv_per_block impl) - CeilDiv g (kv_per_block impl)))"
proof -
  from AppendTokens_outcome(4) [OF inv run ok n] obtain s ids where
    s: "omap_find (kv_sequences impl) sid = Some s" "int (length ids) = append_blocks impl s n"
      "kv_sequences impl' = omap_put sid (grown_sequence s n ids) (kv_sequences impl)" by blast
  from kv_view_put [OF inv s(3)] s(1,2) show ?thesis
    by (simp add: grown_sequence_def kv_view_def append_blocks_def kv_per_block_def add_diff_eq)
qed

lemma kv_view_release:
  assumes "kv_inv impl"
  shows "kv_view (ReleaseSequence sid impl) = (kv_view impl)(sid := None)"
  using assms kv_invp_omap(1) [OF assms [unfolded kv_inv_def]]
  by (auto simp: kv_view_def fun_eq_iff ReleaseSequence_outcome(2) om.find_erase)

interpretation kvc: kv_cache AllocatePrompt AppendTokens ReleaseSequence SequenceBlockCount kv_view kv_per_block kv_inv
proof unfold_locales
  fix impl sid n key p r impl'
  assume inv: "kv_inv impl"
  {
    assume run: "AllocatePrompt sid n key p impl = (r, impl')"
    show "kv_inv impl'" by (rule AllocatePrompt_inv [OF inv run])
    show "kv_per_block impl' = kv_per_block impl"
      using AllocatePrompt_outcome(1) [OF inv run] by (simp add: kv_per_block_def)
    show "kv_view impl' = kv_view impl" if "\<not> al_ok r"
      using AllocatePrompt_outcome(2) [OF inv run that] by (simp add: kv_view_def fun_eq_iff)
    show "kv_view impl sid = None \<and>
        kv_view impl' = (kv_view impl)(sid \<mapsto> (max 0 n, 0, prompt_need (kv_per_block impl) n key p))" if "al_ok r"
      by (rule kv_view_alloc [OF inv run that])
  }
  {
    assume run: "AppendTokens sid n impl = (r, impl')"
    show "kv_inv impl'" by (rule AppendTokens_inv [OF inv run])
    show "kv_per_block impl' = kv_per_block impl"
      using AppendTokens_outcome(1) [OF inv run] by (simp add: kv_per_block_def)
    show "kv_view impl' = kv_view impl" if "\<not> al_ok r"
      using AppendTokens_outcome(2) [OF inv run that] by (simp add: kv_view_def fun_eq_iff)
    show "\<exists>p g b. kv_view impl sid = Some (p, g, b) \<and> kv_view impl' = (kv_view impl)(sid \<mapsto>
        (p, g + n, b + CeilDiv (g + n) (kv_per_block impl) - CeilDiv g (kv_per_block impl)))" if "al_ok r" "0 < n"
      by (rule kv_view_append [OF inv run that])
  }
  show "kv_inv (ReleaseSequence sid impl)" by (rule kv_inv_release [OF inv])
  show "kv_per_block (ReleaseSequence sid impl) = kv_per_block impl"
    using ReleaseSequence_outcome(1) [OF inv] by (simp add: kv_per_block_def)
  show "kv_view (ReleaseSequence sid impl) = (kv_view impl)(sid := None)"
    by (rule kv_view_release [OF inv])
next
  fix sid impl
  show "SequenceBlockCount sid impl = (case kv_view impl sid of None \<Rightarrow> 0 | Some (p, g, b) \<Rightarrow> b)"
    by (simp add: SequenceBlockCount_def kv_view_def split: option.splits)
qed

subsection \<open>Error messages\<close>

lemma attach_hit_error:
  "attach_hit sid sq e m bc impl = (r, impl') \<Longrightarrow> \<not> al_ok r \<Longrightarrow> al_message r = ''kv cache exhausted''"
  by (auto simp: attach_hit_def AllocationError_def AllocationOk_def Let_def split: prod.splits if_splits)

lemma attach_miss_error:
  "attach_miss sid key ct sq n m bc impl = (r, impl') \<Longrightarrow> \<not> al_ok r \<Longrightarrow> al_message r = ''kv cache exhausted''"
  by (auto simp: attach_miss_def AllocationError_def AllocationOk_def Let_def split: prod.splits if_splits)

lemma AllocatePrompt_why:
  assumes "AllocatePrompt sid n key p impl = (r, impl')" and "\<not> al_ok r"
  shows "al_message r = ''sequence id is required'' \<and> sid = '''' \<or>
    al_message r = ''sequence already exists'' \<and> kv_view impl sid \<noteq> None \<or>
    al_message r = ''kv cache exhausted''"
  using assms(1)
proof (cases rule: AllocatePrompt_cases)
  case (hit e)
  with attach_hit_error [OF hit(6) assms(2)] show ?thesis by simp
next
  case (miss impl0)
  with attach_miss_error [OF miss(5) assms(2)] show ?thesis by simp
qed (auto simp: kv_view_def AllocationError_def)

lemma AppendTokens_error:
  assumes "AppendTokens sid n impl = (r, impl')" and "\<not> al_ok r" and "kv_view impl sid \<noteq> None"
  shows "al_message r = ''kv cache exhausted''"
  using assms
  by (auto simp: AppendTokens_def kv_view_def AllocationError_def AllocationOk_def Let_def split: prod.splits if_splits)

lemma seq_refs_attached:
  assumes "omap_inv (kv_sequences impl)" and "omap_find (kv_sequences impl) a = Some s"
  shows "count_list (sq_block_ids s) i \<le> seq_refs impl i"
proof -
  have "(a, s) \<in> set (kv_sequences impl)" using assms by (simp add: om.in_entries_iff)
  then show ?thesis
    unfolding seq_refs_def
    using member_le_sum_list [of "count_list (sq_block_ids s) i" "map (\<lambda>(_, s). count_list (sq_block_ids s) i) (kv_sequences impl)"]
    by force
qed

lemma attached_occupied:
  assumes "kv_inv impl" and "omap_find (kv_sequences impl) a = Some s" and "i \<in> set (sq_block_ids s)"
  shows "i < length (kv_blocks impl)" and "occupied (kv_blocks impl ! i)"
proof -
  show i: "i < length (kv_blocks impl)"
    using assms by (auto simp: kv_inv_def kv_invp_def seqs_ok_def seq_ok_def)
  have "0 < seq_refs impl i"
    using seq_refs_attached [OF kv_invp_omap(1) [OF assms(1) [unfolded kv_inv_def]] assms(2)]
      count_list_pos [OF assms(3)] by (meson less_le_trans)
  moreover have "block_ok (seq_refs impl i) (kv_blocks impl ! i)"
    using assms(1) i by (simp add: kv_inv_def kv_invp_def blocks_ok_def)
  ultimately show "occupied (kv_blocks impl ! i)" by (auto simp: block_ok_def empty_block_def)
qed

end
