(* ===== verification/Kv_Theorems.thy ===== *)
theory Kv_Theorems
  imports Kv_Interface
begin

text \<open>
  The theorems of the paged KV cache allocator, over the reachable states of \<open>KvBlockAllocator\<close>:
  the invariant, isolation of sequences, what each operation does to a sequence, when an allocation
  succeeds, and which blocks can be lost.
\<close>

definition demo_kv :: KvCacheConfig where
  "demo_kv = \<lparr>cfg_total_blocks = 4, cfg_tokens_per_block = 2\<rparr>"

definition demo_impl :: kv_impl where
  "demo_impl = snd (AllocatePrompt ''b'' 3 ''k'' 2 (snd (AllocatePrompt ''a'' 2 ''k'' 2 (Impl demo_kv))))"

lemma demo_reachable: "kv_reachable demo_kv demo_impl"
  unfolding demo_impl_def
  by (rule kv_reachable.step [OF kv_reachable.step [OF kv_reachable.start kv_step.prompt] kv_step.prompt])

lemma demo_inv: "kv_inv demo_impl"
  by (rule kv_reachable_inv [OF demo_reachable])

subsection \<open>The invariant\<close>

text \<open>
  C3: In every state reachable by \<open>AllocatePrompt\<close>, \<open>AppendTokens\<close> and \<open>ReleaseSequence\<close> the
  allocator is well formed: the reference count of every block is the number of sequences that attach
  it, free blocks are blank, sequences and cache entries name existing blocks without repetition, every
  cache entry owns exactly the blocks its tokens need, and the high watermark bounds the used blocks.
\<close>

theorem kv_reachable_wellformed: "kv_reachable cfg impl \<Longrightarrow> kv_inv impl"
  by (induction rule: kv_reachable.induct) (auto intro: Impl_inv kv_step_inv)

theorem kv_reachable_wellformed_witness: "kv_inv demo_impl"
  by (rule kv_reachable_wellformed [OF demo_reachable])

lemma seq_refs_two:
  assumes "omap_inv (kv_sequences impl)" and "omap_find (kv_sequences impl) a = Some s"
    and "omap_find (kv_sequences impl) b = Some u" and "a \<noteq> b"
  shows "count_list (sq_block_ids s) i + count_list (sq_block_ids u) i \<le> seq_refs impl i"
proof -
  let ?f = "\<lambda>(_ :: string, s). count_list (sq_block_ids s) i"
  have "(a, s) \<in> set (kv_sequences impl)" "(b, u) \<in> set (kv_sequences impl)"
    using assms(2,3) by (simp_all add: om.in_entries_iff [OF assms(1)])
  then have "{(a, s), (b, u)} \<subseteq> set (kv_sequences impl)" by simp
  then have "sum ?f {(a, s), (b, u)} \<le> sum ?f (set (kv_sequences impl))" by (intro sum_mono2) auto
  also have "\<dots> \<le> sum_list (map ?f (kv_sequences impl))" by (rule sum_set_le_sum_list)
  finally show ?thesis using assms(4) by (simp add: seq_refs_def)
qed

text \<open>
  C17: Sequences are isolated: a block attached to two different sequences is a block of a cached
  prefix, never one of the private blocks a sequence appends to.
\<close>

theorem kv_sequences_share_only_prefixes:
  assumes "kv_reachable cfg impl"
    and "omap_find (kv_sequences impl) a = Some s" and "omap_find (kv_sequences impl) b = Some u" and "a \<noteq> b"
    and "i \<in> set (sq_block_ids s)" and "i \<in> set (sq_block_ids u)"
  shows "cached_prefix_key (kv_blocks impl ! i) \<noteq> ''''"
proof -
  have inv: "kv_inv impl" using assms(1) by (rule kv_reachable_inv)
  have i: "i < length (kv_blocks impl)" using inv assms(2,5) by (auto simp: kv_inv_def kv_invp_def seqs_ok_def seq_ok_def)
  have "2 \<le> seq_refs impl i"
    using seq_refs_two [OF kv_invp_omap(1) [OF inv [unfolded kv_inv_def]] assms(2-4), of i]
      count_list_pos [OF assms(5)] count_list_pos [OF assms(6)] by linarith
  moreover have "block_ok (seq_refs impl i) (kv_blocks impl ! i)"
    using inv i by (simp add: kv_inv_def kv_invp_def blocks_ok_def)
  ultimately show ?thesis by (auto simp: block_ok_def empty_block_def)
qed

theorem kv_sequences_share_only_prefixes_witness: "cached_prefix_key (kv_blocks demo_impl ! 0) \<noteq> ''''"
proof -
  have "map_option sq_block_ids (omap_find (kv_sequences demo_impl) ''a'') = Some [0]"
    "map_option sq_block_ids (omap_find (kv_sequences demo_impl) ''b'') = Some [0, 1]"
    by code_simp+
  then show ?thesis
    using kv_sequences_share_only_prefixes [OF demo_reachable, of "''a''" _ "''b''" _ 0] by force
qed

text \<open>
  The statistics of every reachable state are consistent: used and free blocks add up to the
  configured total, the high watermark lies between the used blocks and the total, and the counters
  are not negative.
\<close>

theorem kv_stats_consistent:
  assumes "kv_reachable cfg impl"
  shows "st_used_blocks (Stats impl) + st_free_blocks (Stats impl) = st_total_blocks (Stats impl) \<and>
    st_total_blocks (Stats impl) = ClampPositive (cfg_total_blocks cfg) 1 \<and>
    0 \<le> st_used_blocks (Stats impl) \<and> 0 \<le> st_free_blocks (Stats impl) \<and>
    st_used_blocks (Stats impl) \<le> st_high_watermark_blocks (Stats impl) \<and>
    st_high_watermark_blocks (Stats impl) \<le> st_total_blocks (Stats impl) \<and>
    0 \<le> st_evictions (Stats impl) \<and> 0 \<le> st_allocation_failures (Stats impl)"
proof -
  have "kv_config impl = kv_config (Impl cfg)"
    using assms kv_reachable_inv by (induction rule: kv_reachable.induct) (auto simp: kv_step_config)
  then show ?thesis
    using kv_reachable_inv [OF assms] UsedBlockCount_nonneg [of impl]
    by (auto simp: Stats_def kv_inv_def kv_invp_def stats_ok_def config_ok_def Impl_def Let_def UsedBlockCount_def)
qed

theorem kv_stats_consistent_witness:
  "st_used_blocks (Stats demo_impl) + st_free_blocks (Stats demo_impl) = st_total_blocks (Stats demo_impl)"
  using kv_stats_consistent [OF demo_reachable] by simp

subsection \<open>What the operations do to a sequence\<close>

text \<open>
  C5: \<open>AllocatePrompt\<close> refines the map of sequences: a successful call registers a new id with
  its prompt length, no generated tokens and exactly the blocks its cached part and its rest need; a
  failed call, for an empty or known id or for lack of blocks, changes no sequence.
\<close>

theorem AllocatePrompt_refines:
  assumes "kv_reachable cfg impl" and "AllocatePrompt sid n key p impl = (r, impl')"
  shows "if al_ok r
    then sid \<noteq> '''' \<and> kv_view impl sid = None \<and> al_attached_blocks r = prompt_need (kv_per_block impl) n key p \<and>
      kv_view impl' = (kv_view impl)(sid \<mapsto> (max 0 n, 0, prompt_need (kv_per_block impl) n key p))
    else kv_view impl' = kv_view impl \<and>
      (al_message r = ''sequence id is required'' \<and> sid = '''' \<or>
       al_message r = ''sequence already exists'' \<and> kv_view impl sid \<noteq> None \<or>
       al_message r = ''kv cache exhausted'')"
proof -
  have inv: "kv_inv impl" using assms(1) by (rule kv_reachable_inv)
  show ?thesis
  proof (cases "al_ok r")
    case True
    then have "sid \<noteq> ''''" "al_attached_blocks r = prompt_need (kv_per_block impl) n key p"
      using AllocatePrompt_outcome(3) [OF inv assms(2)]
      by (auto simp: prompt_need_def prompt_blocks_def kv_per_block_def Let_def)
    with True kvc.alloc_ok [OF inv assms(2)] show ?thesis by simp
  next
    case False
    with kvc.alloc_fail [OF inv assms(2)] AllocatePrompt_why [OF assms(2)] show ?thesis by auto
  qed
qed

theorem AllocatePrompt_refines_witness:
  "kv_view (snd (AllocatePrompt ''c'' 2 '''' (-1) demo_impl)) ''c'' = Some (2, 0, 1)"
proof -
  have "al_ok (fst (AllocatePrompt ''c'' 2 '''' (-1) demo_impl))"
    "prompt_need (kv_per_block demo_impl) 2 '''' (-1) = 1" by code_simp+
  then show ?thesis
    using AllocatePrompt_refines [OF demo_reachable prod.collapse [symmetric], of "''c''" 2 "''''" "-1"] by simp
qed

text \<open>
  C18: \<open>AppendTokens\<close> refines the map of sequences: a successful call adds the tokens and exactly
  the blocks they need beyond the generated ones; an absent id is an error; lack of blocks is an error
  that changes no sequence.
\<close>

theorem AppendTokens_refines:
  assumes "kv_reachable cfg impl" and "AppendTokens sid n impl = (r, impl')" and "0 < n"
  shows "case kv_view impl sid of
      None \<Rightarrow> r = AllocationError ''sequence does not exist'' \<and> impl' = impl
    | Some (p, g, b) \<Rightarrow>
        (if al_ok r then kv_view impl' = (kv_view impl)(sid \<mapsto>
             (p, g + n, b + CeilDiv (g + n) (kv_per_block impl) - CeilDiv g (kv_per_block impl)))
         else al_message r = ''kv cache exhausted'' \<and> kv_view impl' = kv_view impl)"
proof -
  have inv: "kv_inv impl" using assms(1) by (rule kv_reachable_inv)
  show ?thesis
  proof (cases "kv_view impl sid")
    case None
    with assms(2) show ?thesis by (auto simp: kv_view_def AppendTokens_def)
  next
    case (Some v)
    then show ?thesis
      using kvc.append_ok [OF inv assms(2) _ assms(3)] kvc.append_fail [OF inv assms(2)] AppendTokens_error [OF assms(2)]
      by (cases v) auto
  qed
qed

theorem AppendTokens_refines_witness:
  "kv_view (snd (AppendTokens ''a'' 3 demo_impl)) ''a'' = Some (2, 3, 3)"
proof -
  have "al_ok (fst (AppendTokens ''a'' 3 demo_impl))" "kv_view demo_impl ''a'' = Some (2, 0, 1)"
    "CeilDiv 3 (kv_per_block demo_impl) = 2" "CeilDiv 0 (kv_per_block demo_impl) = 0" by code_simp+
  then show ?thesis
    using AppendTokens_refines [OF demo_reachable prod.collapse [symmetric], of 3 "''a''"] by simp
qed

text \<open>
  C19: \<open>ReleaseSequence\<close> forgets exactly the named sequence and never takes a block from another:
  the other sequences keep their view, and every block a remaining sequence attaches stays occupied.
\<close>

theorem ReleaseSequence_refines:
  assumes "kv_reachable cfg impl"
  shows "kv_view (ReleaseSequence sid impl) = (kv_view impl)(sid := None) \<and>
    (\<forall>a s. omap_find (kv_sequences (ReleaseSequence sid impl)) a = Some s \<longrightarrow>
       (\<forall>i \<in> set (sq_block_ids s). occupied (kv_blocks (ReleaseSequence sid impl) ! i)))"
proof -
  have inv: "kv_inv impl" using assms by (rule kv_reachable_inv)
  then have "kv_inv (ReleaseSequence sid impl)" by (rule kvc.invar_release)
  from attached_occupied [OF this] kvc.release_view [OF inv] show ?thesis by blast
qed

theorem ReleaseSequence_refines_witness:
  "kv_view (ReleaseSequence ''a'' demo_impl) ''a'' = None"
  using ReleaseSequence_refines [OF demo_reachable, of "''a''"] by simp

subsection \<open>When an allocation succeeds\<close>

text \<open>
  C21: Exact capacity of \<open>AppendTokens\<close>: for a registered sequence it succeeds if and only if the
  blocks it needs are at most the free blocks plus the blocks of the idle prefix cache entries.
\<close>

theorem AppendTokens_succeeds_iff:
  assumes "kv_reachable cfg impl" and "kv_view impl sid = Some (q, g, b)" and "0 < n"
  shows "al_ok (fst (AppendTokens sid n impl)) \<longleftrightarrow>
    CeilDiv (g + n) (kv_per_block impl) - CeilDiv g (kv_per_block impl) \<le> reclaimable impl"
proof -
  let ?m = "CeilDiv (g + n) (kv_per_block impl) - CeilDiv g (kv_per_block impl)"
  have inv: "kv_invp [] impl" using kv_reachable_inv [OF assms(1)] by (simp add: kv_inv_def)
  obtain s where s: "omap_find (kv_sequences impl) sid = Some s" "sq_generated_tokens s = g"
    using assms(2) by (auto simp: kv_view_def)
  have "0 < kv_per_block impl" using inv by (simp add: kv_invp_def config_ok_def kv_per_block_def)
  then have "0 \<le> ?m" using CeilDiv_mono [of "kv_per_block impl" g "g + n"] assms(3) by simp
  moreover obtain ids impl' where run: "AllocateBlocks ?m '''' impl = (ids, impl')" by fastforce
  ultimately have "int (length ids) = ?m \<longleftrightarrow> ?m \<le> reclaimable impl" using AllocateBlocks_succeeds_iff [OF inv] by blast
  then show ?thesis
    using s run assms(3) by (simp add: AppendTokens_def Let_def kv_per_block_def AllocationOk_def AllocationError_def)
qed

theorem AppendTokens_succeeds_iff_witness: "\<not> al_ok (fst (AppendTokens ''a'' 5 demo_impl))"
proof -
  have "kv_view demo_impl ''a'' = Some (2, 0, 1)"
    "\<not> CeilDiv (0 + 5) (kv_per_block demo_impl) - CeilDiv 0 (kv_per_block demo_impl) \<le> reclaimable demo_impl" by code_simp+
  then show ?thesis using AppendTokens_succeeds_iff [OF demo_reachable, of "''a''" 2 0 1 5] by simp
qed

text \<open>
  C20: Exact capacity of \<open>AllocatePrompt\<close> for a prompt without a cacheable prefix: for a new,
  nonempty id it succeeds if and only if the blocks of the prompt are at most the free blocks plus the
  blocks of the idle prefix cache entries.
\<close>

theorem AllocatePrompt_succeeds_iff:
  assumes "kv_reachable cfg impl" and "sid \<noteq> ''''" and "kv_view impl sid = None" and "prompt_cacheable n key p = 0"
  shows "al_ok (fst (AllocatePrompt sid n key p impl)) \<longleftrightarrow> CeilDiv (max 0 n) (kv_per_block impl) \<le> reclaimable impl"
proof -
  let ?m = "CeilDiv (max 0 n) (kv_per_block impl)"
  have inv: "kv_invp [] impl" using kv_reachable_inv [OF assms(1)] by (simp add: kv_inv_def)
  have t: "0 < kv_per_block impl" using inv by (simp add: kv_invp_def config_ok_def kv_per_block_def)
  obtain ids impl' where run: "AllocateBlocks ?m '''' impl = (ids, impl')" by fastforce
  have "int (length ids) = ?m \<longleftrightarrow> ?m \<le> reclaimable impl"
    using AllocateBlocks_succeeds_iff [OF inv CeilDiv_nonneg [OF t] run] .
  moreover have "AllocateBlocks (CeilDiv 0 (kv_per_block impl)) key impl = ([], impl)" "CeilDiv 0 (kv_per_block impl) = 0"
    by (simp_all add: AllocateBlocks_def CeilDiv_def)
  ultimately show ?thesis
    using assms(2-4) run
    by (simp add: AllocatePrompt_eq attach_miss_def kv_view_def Let_def kv_per_block_def AllocationOk_def AllocationError_def)
qed

theorem AllocatePrompt_succeeds_iff_witness: "al_ok (fst (AllocatePrompt ''c'' 4 '''' (-1) demo_impl))"
proof -
  have "kv_view demo_impl ''c'' = None" "prompt_cacheable 4 '''' (-1) = 0"
    "CeilDiv (max 0 4) (kv_per_block demo_impl) \<le> reclaimable demo_impl" by code_simp+
  then show ?thesis using AllocatePrompt_succeeds_iff [OF demo_reachable, of "''c''" 4 "''''" "-1"] by simp
qed

subsection \<open>Leaked blocks\<close>

text \<open>
  A leaked block (occupied, referenced by no sequence, in no cache entry) stays leaked: no
  sequence of operations ever frees or reuses it.
\<close>

theorem leak_is_permanent:
  assumes "kv_reachable cfg impl" and "leaked impl i" and "kv_step\<^sup>*\<^sup>* impl impl'"
  shows "leaked impl' i"
  using leaked_kv_steps [OF assms(3) kv_reachable_inv [OF assms(1)] assms(2)] by simp

definition leaky_kv :: KvCacheConfig where
  "leaky_kv = \<lparr>cfg_total_blocks = 3, cfg_tokens_per_block = 1\<rparr>"

text \<open>One prefix key used with one token, then with two, both sequences released.\<close>

definition leaky_impl :: kv_impl where
  "leaky_impl = ReleaseSequence ''b'' (snd (AllocatePrompt ''b'' 2 ''k'' 2
     (ReleaseSequence ''a'' (snd (AllocatePrompt ''a'' 1 ''k'' 1 (Impl leaky_kv))))))"

lemma leaky_reachable: "kv_reachable leaky_kv leaky_impl"
  unfolding leaky_impl_def
  by (rule kv_reachable.step [OF kv_reachable.step [OF kv_reachable.step [OF kv_reachable.step
      [OF kv_reachable.start kv_step.prompt] kv_step.release] kv_step.prompt] kv_step.release])

lemma leaky_leak: "leaked leaky_impl 0"
proof -
  have "0 < length (kv_blocks leaky_impl)" "occupied (kv_blocks leaky_impl ! 0)" "ref_count (kv_blocks leaky_impl ! 0) = 0"
    "kv_prefix_cache leaky_impl = [(''k'', \<lparr>pe_token_count = 2, pe_block_ids = [1, 2]\<rparr>)]" by code_simp+
  then show ?thesis by (auto simp: leaked_def cached_in_def omap_find_def split: if_splits)
qed

theorem leak_is_permanent_witness: "leaked (ReleaseSequence ''b'' leaky_impl) 0"
  by (rule leak_is_permanent [OF leaky_reachable leaky_leak]) (rule r_into_rtranclp, rule kv_step.release)

text \<open>
  C39: Leaks happen: whenever a prefix key whose cache entry is idle is used again with another number of cacheable
  tokens and the prompt fits into the free blocks, the prompt is allocated, the cache entry is overwritten, and every
  block the entry had is leaked: no sequence of operations ever frees or reuses it.
\<close>

theorem overwritten_prefix_leaks:
  assumes "kv_reachable cfg impl" and "omap_find (kv_prefix_cache impl) key = Some e" and "PrefixEntryIsIdle impl e"
    and "sid \<noteq> ''''" and "kv_view impl sid = None"
    and "0 < prompt_cacheable n key p" and "prompt_cacheable n key p \<noteq> pe_token_count e"
    and "prompt_blocks impl n key p \<le> FreeBlockCount impl"
  shows "al_ok (fst (AllocatePrompt sid n key p impl)) \<and>
    (\<forall>later. kv_step\<^sup>*\<^sup>* (snd (AllocatePrompt sid n key p impl)) later \<longrightarrow> list_all (leaked later) (pe_block_ids e))"
proof -
  have inv: "kv_inv impl" by (rule kv_reachable_inv [OF assms(1)])
  have seq: "omap_find (kv_sequences impl) sid = None" using assms(5) by (simp add: kv_view_def)
  have "kv_inv (snd (AllocatePrompt sid n key p impl))" using kv_step_inv [OF kv_step.prompt inv] .
  moreover have "entry_ok impl key e" using inv assms(2) by (simp add: kv_inv_def kv_invp_def cache_ok_def)
  then have "pe_block_ids e \<noteq> []"
    using CeilDiv_pos [of "cfg_tokens_per_block (kv_config impl)" "pe_token_count e"] inv
    by (auto simp: entry_ok_def kv_inv_def kv_invp_def config_ok_def)
  ultimately show ?thesis
    using AllocatePrompt_leaks [OF inv assms(2,3) _ assms(4) seq assms(6-8)] leaked_kv_steps
    by (fastforce simp: list_all_iff neq_Nil_conv)
qed

definition leaky_idle :: kv_impl where
  "leaky_idle = ReleaseSequence ''a'' (snd (AllocatePrompt ''a'' 1 ''k'' 1 (Impl leaky_kv)))"

theorem overwritten_prefix_leaks_witness: "leaked (ReleaseSequence ''b'' (snd (AllocatePrompt ''b'' 2 ''k'' 2 leaky_idle))) 0"
proof -
  have "kv_reachable leaky_kv leaky_idle"
    unfolding leaky_idle_def by (rule kv_reachable.step [OF kv_reachable.step [OF kv_reachable.start kv_step.prompt] kv_step.release])
  moreover have "omap_find (kv_prefix_cache leaky_idle) ''k'' = Some \<lparr>pe_token_count = 1, pe_block_ids = [0]\<rparr>"
    "PrefixEntryIsIdle leaky_idle \<lparr>pe_token_count = 1, pe_block_ids = [0]\<rparr>" "kv_view leaky_idle ''b'' = None"
    "prompt_cacheable 2 ''k'' 2 = 2" "prompt_blocks leaky_idle 2 ''k'' 2 \<le> FreeBlockCount leaky_idle" by code_simp+
  moreover have "kv_step\<^sup>*\<^sup>* (snd (AllocatePrompt ''b'' 2 ''k'' 2 leaky_idle)) (ReleaseSequence ''b'' (snd (AllocatePrompt ''b'' 2 ''k'' 2 leaky_idle)))"
    by (rule r_into_rtranclp, rule kv_step.release)
  ultimately show ?thesis
    using overwritten_prefix_leaks [of leaky_kv leaky_idle "''k''" "\<lparr>pe_token_count = 1, pe_block_ids = [0]\<rparr>" "''b''" 2 2] by simp
qed

text \<open>
  C22: If every prefix key is only ever used with one number of cacheable tokens, no block is
  leaked, and whenever no sequence is active all blocks of the cache can be reclaimed.
\<close>

theorem disciplined_prefixes_do_not_leak:
  assumes "(disciplined_step tok)\<^sup>*\<^sup>* (Impl cfg) impl"
  shows "\<not> leaked impl i \<and> (kv_sequences impl = [] \<longrightarrow> reclaimable impl = cfg_total_blocks (kv_config impl))"
  using disciplined_steps [OF assms] discipline_no_leak drained_reclaimable by blast

theorem disciplined_prefixes_do_not_leak_witness:
  "reclaimable (ReleaseSequence ''a'' (snd (AllocatePrompt ''a'' 2 ''k'' 2 (Impl demo_kv)))) = 4"
proof -
  let ?impl = "ReleaseSequence ''a'' (snd (AllocatePrompt ''a'' 2 ''k'' 2 (Impl demo_kv)))"
  have "prompt_cacheable 2 ''k'' 2 = 2" by code_simp
  then have "disciplined_step (\<lambda>_. 2) (Impl demo_kv) (snd (AllocatePrompt ''a'' 2 ''k'' 2 (Impl demo_kv)))"
    by (intro disciplined_step.prompt) simp
  then have "(disciplined_step (\<lambda>_. 2))\<^sup>*\<^sup>* (Impl demo_kv) ?impl"
    by (meson disciplined_step.release r_into_rtranclp rtranclp.rtrancl_into_rtrancl)
  moreover have "kv_sequences ?impl = []" "cfg_total_blocks (kv_config ?impl) = 4" by code_simp+
  ultimately show ?thesis using disciplined_prefixes_do_not_leak by metis
qed

end
