(* ===== verification/Std_Sort.thy ===== *)
theory Std_Sort
  imports Laminar_Prelude
begin

text \<open>
  \<open>std::sort\<close> with a comparator. The C++ algorithm is not stable and not specified beyond its
  contract: the result is a permutation of the input in which no element precedes a smaller one.
  The model is an insertion sort; the locale shows that, for a comparator that orders elements with
  different keys and an input whose keys are distinct, the contract determines the result, so the
  choice of algorithm does not matter.
\<close>

fun insert_by :: "('a \<Rightarrow> 'a \<Rightarrow> bool) \<Rightarrow> 'a \<Rightarrow> 'a list \<Rightarrow> 'a list" where
  "insert_by lt x [] = [x]"
| "insert_by lt x (y # ys) = (if lt y x then y # insert_by lt x ys else x # y # ys)"

definition std_sort :: "('a \<Rightarrow> 'a \<Rightarrow> bool) \<Rightarrow> 'a list \<Rightarrow> 'a list" where
  "std_sort lt xs = foldr (insert_by lt) xs []"

lemma mset_insert_by [simp]: "mset (insert_by lt x ys) = add_mset x (mset ys)"
  by (induction ys) auto

lemma mset_std_sort [simp]: "mset (std_sort lt xs) = mset xs"
  by (induction xs) (auto simp: std_sort_def)

lemma set_std_sort [simp]: "set (std_sort lt xs) = set xs"
  by (metis mset_std_sort set_mset_mset)

lemma length_std_sort [simp]: "length (std_sort lt xs) = length xs"
  by (metis mset_std_sort size_mset)

lemma distinct_map_std_sort: "distinct (map f (std_sort lt xs)) \<longleftrightarrow> distinct (map f xs)"
  by (metis distinct_count_atmost_1 mset_map mset_std_sort set_mset_mset)

locale comparator =
  fixes lt :: "'a \<Rightarrow> 'a \<Rightarrow> bool" and key :: "'a \<Rightarrow> 'k"
  assumes less_asym: "lt x y \<Longrightarrow> \<not> lt y x"
    and less_trans: "lt x y \<Longrightarrow> lt y z \<Longrightarrow> lt x z"
    and less_total: "key x \<noteq> key y \<Longrightarrow> lt x y \<or> lt y x"
begin

lemma less_irrefl: "\<not> lt x x"
  using less_asym by blast

lemma set_insert_by [simp]: "set (insert_by lt x ys) = insert x (set ys)"
  by (induction ys) auto

lemma sorted_insert_by:
  assumes "sorted_wrt lt ys" and "\<forall>y \<in> set ys. key y \<noteq> key x"
  shows "sorted_wrt lt (insert_by lt x ys)"
  using assms
proof (induction ys)
  case Nil
  then show ?case by simp
next
  case (Cons y ys)
  show ?case
  proof (cases "lt y x")
    case True
    with Cons show ?thesis by auto
  next
    case False
    with Cons.prems(2) less_total [of x y] have "lt x y" by auto
    with Cons.prems(1) False show ?thesis using less_trans by auto
  qed
qed

lemma sorted_std_sort: "distinct (map key xs) \<Longrightarrow> sorted_wrt lt (std_sort lt xs)"
proof (induction xs)
  case Nil
  then show ?case by (simp add: std_sort_def)
next
  case (Cons x xs)
  then have "\<forall>y \<in> set (std_sort lt xs). key y \<noteq> key x"
    unfolding set_std_sort by (metis distinct.simps(2) image_eqI list.simps(9) set_map)
  with Cons show ?case by (simp add: std_sort_def sorted_insert_by)
qed

lemma sorted_unique:
  assumes "sorted_wrt lt xs" and "sorted_wrt lt ys" and "mset xs = mset ys"
  shows "xs = ys"
  using assms
proof (induction xs arbitrary: ys)
  case Nil
  then show ?case by simp
next
  case (Cons x xs)
  obtain y ys' where ys: "ys = y # ys'" using Cons.prems(3) by (cases ys) auto
  have "x = y"
  proof (rule ccontr)
    assume "x \<noteq> y"
    moreover have "set (x # xs) = set (y # ys')" using Cons.prems(3) ys by (metis set_mset_mset)
    ultimately have "lt x y" "lt y x" using Cons.prems ys by auto
    then show False using less_asym by blast
  qed
  with Cons ys show ?case by auto
qed

lemma std_sort_unique:
  assumes "distinct (map key xs)" and "mset ys = mset xs" and "sorted_wrt lt ys"
  shows "ys = std_sort lt xs"
  using sorted_unique [OF assms(3) sorted_std_sort [OF assms(1)]] assms(2) by simp

text \<open>Whatever comes before a scheduled element in the order is scheduled too.\<close>

lemma take_closed:
  assumes "distinct (map key xs)" and "x \<in> set xs" and "y \<in> set (take n (std_sort lt xs))" and "lt x y"
  shows "x \<in> set (take n (std_sort lt xs))"
proof -
  let ?s = "std_sort lt xs"
  have srt: "sorted_wrt lt ?s" using assms(1) by (rule sorted_std_sort)
  obtain j where j: "j < length ?s" "j < n" "?s ! j = y"
    using assms(3) by (auto simp: in_set_conv_nth)
  obtain i where i: "i < length ?s" "?s ! i = x"
    using assms(2) by (metis in_set_conv_nth set_std_sort)
  have "i < j"
  proof (rule ccontr)
    assume "\<not> i < j"
    then consider "i = j" | "j < i" by linarith
    then have "i = j \<or> lt y x" using sorted_wrt_nth_less [OF srt, of j i] i j by cases auto
    then show False using assms(4) i j less_asym less_irrefl by auto
  qed
  then show ?thesis using i j by (auto simp: in_set_conv_nth intro!: exI [of _ i])
qed

end

end
