(* ===== verification/Batcher.thy ===== *)
theory Batcher
  imports Complex_Main Kv_Interface Std_Sort "HOL-Library.While_Combinator"
begin

text \<open>
  The continuous batching scheduler, \<open>ContinuousBatcher::Run\<close> of
  \<open>backend/scheduling/continuous_batcher.cc\<close>. The local variables of \<open>Run\<close> that its loop changes
  are one record \<open>run_state\<close>. A \<open>State*\<close> pointer into the vector \<open>states\<close> is the position of the
  state, which is also its \<open>index\<close> field. The callback \<open>is_cancelled\<close> is a parameter
  \<open>cancel :: nat \<Rightarrow> bool\<close>, the answer to its \<open>k\<close>-th call; the state counts the calls. The
  \<open>double\<close> average is the exact quotient it rounds. The loop is \<open>while_option\<close>: \<^term>\<open>None\<close> would be
  a scheduler that never stops, and a theorem below excludes it.
\<close>

subsection \<open>Data\<close>

record ContinuousBatcherConfig =
  cb_max_prefill_tokens_per_step :: int
  cb_max_decode_sequences_per_step :: int
  cb_kv_cache_blocks :: int
  cb_kv_block_tokens :: int

record SequenceRequest =
  rq_id :: string
  rq_prompt_tokens :: int
  rq_max_generated_tokens :: int
  rq_priority :: int
  rq_prefix_cache_key :: string
  rq_prefix_cache_tokens :: int

datatype SequenceStatus = kCompleted | kRejected | kCancelled

record SequenceResult =
  rs_id :: string
  rs_status :: SequenceStatus
  rs_prompt_tokens :: int
  rs_generated_tokens :: int
  rs_first_token_step :: int
  rs_completion_step :: int
  rs_kv_blocks :: int
  rs_prefix_cache_hit :: bool
  rs_message :: string

record SchedulerStep =
  ss_step_index :: int
  ss_prefill_tokens :: int
  ss_decoded_tokens :: int
  ss_queued_sequences :: int
  ss_active_sequences :: int
  ss_kv_blocks_used :: int
  ss_decoded_sequence_ids :: "string list"

record ContinuousBatchingStats =
  bs_total_steps :: int
  bs_prefill_steps :: int
  bs_decode_steps :: int
  bs_total_prompt_tokens :: int
  bs_total_generated_tokens :: int
  bs_average_decode_batch_size :: rat
  bs_kv_cache :: KvCacheStats

record ContinuousBatchingRun =
  run_results :: "SequenceResult list"
  run_steps :: "SchedulerStep list"
  run_stats :: ContinuousBatchingStats

record State =
  sd_request :: SequenceRequest
  sd_index :: nat
  sd_prefill_remaining :: int
  sd_generated :: int
  sd_prompt_allocated :: bool
  sd_prompt_ready :: bool
  sd_done :: bool

record run_state =
  rn_states :: "State list"
  rn_results :: "SequenceResult list"
  rn_allocator :: kv_impl
  rn_steps :: "SchedulerStep list"
  rn_prefill_steps :: int
  rn_decode_steps :: int
  rn_total_generated :: int
  rn_step_index :: int
  rn_polls :: nat

definition SequenceStatusName :: "SequenceStatus \<Rightarrow> string" where
  "SequenceStatusName status = (case status of
     kCompleted \<Rightarrow> ''completed'' | kRejected \<Rightarrow> ''rejected'' | kCancelled \<Rightarrow> ''cancelled'')"

subsection \<open>Construction and initialisation\<close>

definition ContinuousBatcher :: "ContinuousBatcherConfig \<Rightarrow> ContinuousBatcherConfig" where
  "ContinuousBatcher config =
     \<lparr>cb_max_prefill_tokens_per_step = ClampPositive (cb_max_prefill_tokens_per_step config) 64,
      cb_max_decode_sequences_per_step = ClampPositive (cb_max_decode_sequences_per_step config) 8,
      cb_kv_cache_blocks = ClampPositive (cb_kv_cache_blocks config) 1024,
      cb_kv_block_tokens = ClampPositive (cb_kv_block_tokens config) 16\<rparr>"

definition clamp_request :: "SequenceRequest \<Rightarrow> SequenceRequest" where
  "clamp_request request = request\<lparr>
     rq_prompt_tokens := max 0 (rq_prompt_tokens request),
     rq_max_generated_tokens := max 0 (rq_max_generated_tokens request)\<rparr>"

definition initial_result :: "SequenceRequest \<Rightarrow> SequenceResult" where
  "initial_result request =
     \<lparr>rs_id = rq_id request, rs_status = kRejected, rs_prompt_tokens = rq_prompt_tokens request,
      rs_generated_tokens = 0, rs_first_token_step = -1, rs_completion_step = -1, rs_kv_blocks = 0,
      rs_prefix_cache_hit = False, rs_message = ''queued''\<rparr>"

definition initial_state :: "nat \<Rightarrow> SequenceRequest \<Rightarrow> State" where
  "initial_state index request =
     \<lparr>sd_request = request, sd_index = index, sd_prefill_remaining = rq_prompt_tokens request,
      sd_generated = 0, sd_prompt_allocated = False, sd_prompt_ready = False, sd_done = False\<rparr>"

definition run_init :: "ContinuousBatcherConfig \<Rightarrow> SequenceRequest list \<Rightarrow> nat \<Rightarrow> run_state" where
  "run_init config requests polls =
     \<lparr>rn_states = map (\<lambda>index. initial_state index (clamp_request (requests ! index))) [0..<length requests],
      rn_results = map (\<lambda>request. initial_result (clamp_request request)) requests,
      rn_allocator = Impl \<lparr>cfg_total_blocks = cb_kv_cache_blocks config,
                           cfg_tokens_per_block = cb_kv_block_tokens config\<rparr>,
      rn_steps = [], rn_prefill_steps = 0, rn_decode_steps = 0, rn_total_generated = 0,
      rn_step_index = 0, rn_polls = polls\<rparr>"

subsection \<open>The loop body\<close>

definition unfinished_count :: "State list \<Rightarrow> nat" where
  "unfinished_count states = length (filter (\<lambda>state. \<not> sd_done state) states)"

definition by_priority :: "State \<Rightarrow> State \<Rightarrow> bool" where
  "by_priority lhs rhs =
     (if rq_priority (sd_request lhs) \<noteq> rq_priority (sd_request rhs)
      then rq_priority (sd_request lhs) > rq_priority (sd_request rhs)
      else sd_index lhs < sd_index rhs)"

definition set_state :: "nat \<Rightarrow> State \<Rightarrow> run_state \<Rightarrow> run_state" where
  "set_state i s rn = rn\<lparr>rn_states := (rn_states rn)[i := s]\<rparr>"

definition set_result :: "nat \<Rightarrow> SequenceResult \<Rightarrow> run_state \<Rightarrow> run_state" where
  "set_result i r rn = rn\<lparr>rn_results := (rn_results rn)[i := r]\<rparr>"

definition cancel_one :: "nat \<Rightarrow> run_state \<Rightarrow> run_state" where
  "cancel_one i rn =
     (let state = rn_states rn ! i; result = rn_results rn ! sd_index state
      in if sd_done state then rn
         else set_state i (state\<lparr>sd_done := True\<rparr>)
           (set_result (sd_index state) (result\<lparr>rs_status := kCancelled, rs_message := ''cancelled''\<rparr>)
             (rn\<lparr>rn_allocator := ReleaseSequence (rq_id (sd_request state)) (rn_allocator rn)\<rparr>)))"

definition prefill_candidates :: "State list \<Rightarrow> nat list" where
  "prefill_candidates states =
     map sd_index (std_sort by_priority (filter (\<lambda>state. \<not> sd_done state \<and> \<not> sd_prompt_ready state) states))"

text \<open>
  The allocation part of one prefill iteration: \<open>False\<close> is the \<open>continue\<close> after a rejection.
\<close>

definition admit :: "nat \<Rightarrow> run_state \<Rightarrow> bool \<times> run_state" where
  "admit i rn =
     (let state = rn_states rn ! i; request = sd_request state; result = rn_results rn ! sd_index state
      in if sd_prompt_allocated state then (True, rn)
         else
           let (allocation, allocator) =
                 AllocatePrompt (rq_id request) (rq_prompt_tokens request) (rq_prefix_cache_key request)
                   (rq_prefix_cache_tokens request) (rn_allocator rn);
               rn1 = rn\<lparr>rn_allocator := allocator\<rparr>
           in if \<not> al_ok allocation then
                (False,
                 set_state i (state\<lparr>sd_done := True\<rparr>)
                   (set_result (sd_index state)
                     (result\<lparr>rs_status := kRejected, rs_message := al_message allocation,
                             rs_kv_blocks := SequenceBlockCount (rq_id request) allocator\<rparr>) rn1))
              else
                (True,
                 set_result (sd_index state) (result\<lparr>rs_prefix_cache_hit := al_cache_hit allocation\<rparr>)
                   (set_state i (state\<lparr>sd_prompt_allocated := True\<rparr>) rn1)))"

definition consume_prefill :: "nat \<Rightarrow> int \<Rightarrow> run_state \<Rightarrow> int \<times> run_state" where
  "consume_prefill i budget rn =
     (let state = rn_states rn ! i;
          consumed = min budget (sd_prefill_remaining state);
          state1 = state\<lparr>sd_prefill_remaining := sd_prefill_remaining state - consumed\<rparr>;
          state2 = (if sd_prefill_remaining state1 = 0 then state1\<lparr>sd_prompt_ready := True\<rparr> else state1)
      in (consumed, set_state i state2 rn))"

fun prefill_loop :: "nat list \<Rightarrow> int \<Rightarrow> int \<Rightarrow> run_state \<Rightarrow> int \<times> run_state" where
  "prefill_loop [] budget prefill_tokens rn = (prefill_tokens, rn)"
| "prefill_loop (i # rest) budget prefill_tokens rn =
     (if budget \<le> 0 then (prefill_tokens, rn)
      else case admit i rn of
        (False, rn1) \<Rightarrow> prefill_loop rest budget prefill_tokens rn1
      | (True, rn1) \<Rightarrow>
          (case consume_prefill i budget rn1 of
             (consumed, rn2) \<Rightarrow> prefill_loop rest (budget - consumed) (prefill_tokens + consumed) rn2))"

definition decode_candidates :: "State list \<Rightarrow> nat list" where
  "decode_candidates states =
     map sd_index (std_sort by_priority
       (filter (\<lambda>state. \<not> sd_done state \<and> sd_prompt_ready state \<and>
          sd_generated state < rq_max_generated_tokens (sd_request state)) states))"

definition finish :: "int \<Rightarrow> SequenceResult \<Rightarrow> SequenceResult" where
  "finish step_index result =
     result\<lparr>rs_status := kCompleted, rs_message := ''completed'', rs_completion_step := step_index\<rparr>"

text \<open>One decode iteration; the first component collects \<open>step.decoded_sequence_ids\<close>.\<close>

definition decode_one :: "int \<Rightarrow> nat \<Rightarrow> string list \<times> run_state \<Rightarrow> string list \<times> run_state" where
  "decode_one step_index i = (\<lambda>(decoded, rn).
     let state = rn_states rn ! i; request = sd_request state; result = rn_results rn ! sd_index state;
         (allocation, allocator) = AppendTokens (rq_id request) 1 (rn_allocator rn)
     in if \<not> al_ok allocation then
          (decoded,
           set_state i (state\<lparr>sd_done := True\<rparr>)
             (set_result (sd_index state)
               (result\<lparr>rs_status := kRejected, rs_message := al_message allocation,
                       rs_generated_tokens := sd_generated state,
                       rs_kv_blocks := SequenceBlockCount (rq_id request) allocator\<rparr>)
               (rn\<lparr>rn_allocator := ReleaseSequence (rq_id request) allocator\<rparr>)))
        else
          let state1 = state\<lparr>sd_generated := sd_generated state + 1\<rparr>;
              result1 = (if rs_first_token_step result < 0 then result\<lparr>rs_first_token_step := step_index\<rparr> else result)
          in (decoded @ [rq_id request],
              if sd_generated state1 = rq_max_generated_tokens request then
                set_state i (state1\<lparr>sd_done := True\<rparr>)
                  (set_result (sd_index state)
                    ((finish step_index result1)\<lparr>rs_generated_tokens := sd_generated state1,
                       rs_kv_blocks := SequenceBlockCount (rq_id request) allocator\<rparr>)
                    (rn\<lparr>rn_allocator := ReleaseSequence (rq_id request) allocator\<rparr>))
              else
                set_state i state1
                  (set_result (sd_index state) result1 (rn\<lparr>rn_allocator := allocator\<rparr>))))"

definition finish_empty :: "int \<Rightarrow> nat \<Rightarrow> run_state \<Rightarrow> run_state" where
  "finish_empty step_index i rn =
     (let state = rn_states rn ! i; request = sd_request state; result = rn_results rn ! sd_index state
      in if \<not> sd_done state \<and> sd_prompt_ready state \<and> rq_max_generated_tokens request = 0 then
           set_state i (state\<lparr>sd_done := True\<rparr>)
             (set_result (sd_index state)
               ((finish step_index result)\<lparr>rs_kv_blocks := SequenceBlockCount (rq_id request) (rn_allocator rn)\<rparr>)
               (rn\<lparr>rn_allocator := ReleaseSequence (rq_id request) (rn_allocator rn)\<rparr>))
         else rn)"

text \<open>
  A step without cancellation. The number of decoded tokens is the length of the list of decoded
  ids, since the code increments the counter and appends the id together.
\<close>

definition scheduler_step :: "ContinuousBatcherConfig \<Rightarrow> run_state \<Rightarrow> run_state" where
  "scheduler_step config rn =
     (let step_index = rn_step_index rn;
          queued = int (unfinished_count (rn_states rn));
          (prefill_tokens, rn1) =
            prefill_loop (prefill_candidates (rn_states rn)) (cb_max_prefill_tokens_per_step config) 0 rn;
          candidates = decode_candidates (rn_states rn1);
          decode_limit = min (cb_max_decode_sequences_per_step config) (int (length candidates));
          (decoded, rn2) = fold (decode_one step_index) (take (nat decode_limit) candidates) ([], rn1);
          rn3 = fold (finish_empty step_index) [0..<length (rn_states rn2)] rn2;
          decoded_tokens = int (length decoded);
          step = \<lparr>ss_step_index = step_index, ss_prefill_tokens = prefill_tokens,
                  ss_decoded_tokens = decoded_tokens, ss_queued_sequences = queued,
                  ss_active_sequences = int (length (filter (\<lambda>state. \<not> sd_done state \<and> sd_prompt_ready state) (rn_states rn3))),
                  ss_kv_blocks_used = st_used_blocks (Stats (rn_allocator rn3)),
                  ss_decoded_sequence_ids = decoded\<rparr>
      in rn3\<lparr>rn_steps := rn_steps rn3 @ [step],
             rn_prefill_steps := rn_prefill_steps rn3 + (if prefill_tokens > 0 then 1 else 0),
             rn_decode_steps := rn_decode_steps rn3 + (if decoded_tokens > 0 then 1 else 0),
             rn_total_generated := rn_total_generated rn3 + (if decoded_tokens > 0 then decoded_tokens else 0),
             rn_step_index := step_index + 1\<rparr>)"

text \<open>
  The body: cancelling marks every state done, so the loop condition fails next, which is the
  \<open>break\<close> of the source.
\<close>

definition run_body :: "ContinuousBatcherConfig \<Rightarrow> (nat \<Rightarrow> bool) \<Rightarrow> run_state \<Rightarrow> run_state" where
  "run_body config cancel rn =
     (let rn0 = rn\<lparr>rn_polls := Suc (rn_polls rn)\<rparr>
      in if cancel (rn_polls rn) then fold cancel_one [0..<length (rn_states rn0)] rn0
         else scheduler_step config rn0)"

definition run_loop :: "ContinuousBatcherConfig \<Rightarrow> (nat \<Rightarrow> bool) \<Rightarrow> run_state \<Rightarrow> run_state option" where
  "run_loop config cancel = while_option (\<lambda>rn. unfinished_count (rn_states rn) > 0) (run_body config cancel)"

definition run_finish :: "SequenceRequest list \<Rightarrow> run_state \<Rightarrow> ContinuousBatchingRun" where
  "run_finish requests rn =
     \<lparr>run_results = rn_results rn, run_steps = rn_steps rn,
      run_stats =
        \<lparr>bs_total_steps = int (length (rn_steps rn)), bs_prefill_steps = rn_prefill_steps rn,
         bs_decode_steps = rn_decode_steps rn,
         bs_total_prompt_tokens = sum_list (map (\<lambda>request. rq_prompt_tokens (clamp_request request)) requests),
         bs_total_generated_tokens = rn_total_generated rn,
         bs_average_decode_batch_size =
           (if rn_decode_steps rn > 0 then of_int (rn_total_generated rn) / of_int (rn_decode_steps rn) else 0),
         bs_kv_cache = Stats (rn_allocator rn)\<rparr>\<rparr>"

text \<open>\<open>Run\<close> returns the run and the number of \<open>is_cancelled\<close> calls made so far.\<close>

definition Run :: "ContinuousBatcherConfig \<Rightarrow> SequenceRequest list \<Rightarrow> (nat \<Rightarrow> bool) \<Rightarrow> nat \<Rightarrow>
    (ContinuousBatchingRun \<times> nat) option" where
  "Run config0 requests cancel polls =
     (let config = ContinuousBatcher config0
      in map_option (\<lambda>rn. (run_finish requests rn, rn_polls rn))
           (run_loop config cancel (run_init config requests polls)))"

subsection \<open>The order of the scheduler\<close>

text \<open>
  The comparator of the candidate sort orders any two states of different positions, so the contract
  of \<open>std::sort\<close> determines the order of the candidates.
\<close>

interpretation bp: comparator by_priority sd_index
  by unfold_locales (auto simp: by_priority_def split: if_splits)

end
