(* ===== verification/Batcher_Machine.thy ===== *)
theory Batcher_Machine
  imports Batcher
begin

text \<open>
  The scheduler as a state machine. \<open>slot_step\<close> lists what can happen to one request during the
  scheduler step \<open>si\<close>: rejection, admission, prefill, a failed decode, a decode, completion. The two
  labels are the prompt tokens prefilled and the ids decoded. Every transition changes one slot (the
  state and result of one request) and the allocator. The invariant \<open>batch_inv\<close> ties each slot to
  what the allocator holds for it; \<open>work\<close> is the termination measure.
\<close>

subsection \<open>Transitions\<close>

definition upd :: "nat \<Rightarrow> State \<Rightarrow> SequenceResult \<Rightarrow> kv_impl \<Rightarrow> run_state \<Rightarrow> run_state" where
  "upd i st res al rn = rn\<lparr>rn_states := (rn_states rn)[i := st], rn_results := (rn_results rn)[i := res],
     rn_allocator := al\<rparr>"

inductive slot_step :: "int \<Rightarrow> int \<Rightarrow> string list \<Rightarrow> run_state \<Rightarrow> run_state \<Rightarrow> bool" for si where
  reject: "\<lbrakk>i < length (rn_states rn); st = rn_states rn ! i; res = rn_results rn ! i;
     \<not> sd_done st; \<not> sd_prompt_ready st; \<not> sd_prompt_allocated st;
     AllocatePrompt (rq_id (sd_request st)) (rq_prompt_tokens (sd_request st)) (rq_prefix_cache_key (sd_request st))
       (rq_prefix_cache_tokens (sd_request st)) (rn_allocator rn) = (r, al); \<not> al_ok r\<rbrakk> \<Longrightarrow>
   slot_step si 0 [] rn (upd i (st\<lparr>sd_done := True\<rparr>)
     (res\<lparr>rs_status := kRejected, rs_message := al_message r,
          rs_kv_blocks := SequenceBlockCount (rq_id (sd_request st)) al\<rparr>) al rn)"
| admitted: "\<lbrakk>i < length (rn_states rn); st = rn_states rn ! i; res = rn_results rn ! i;
     \<not> sd_done st; \<not> sd_prompt_ready st; \<not> sd_prompt_allocated st;
     AllocatePrompt (rq_id (sd_request st)) (rq_prompt_tokens (sd_request st)) (rq_prefix_cache_key (sd_request st))
       (rq_prefix_cache_tokens (sd_request st)) (rn_allocator rn) = (r, al); al_ok r\<rbrakk> \<Longrightarrow>
   slot_step si 0 [] rn (upd i (st\<lparr>sd_prompt_allocated := True\<rparr>)
     (res\<lparr>rs_prefix_cache_hit := al_cache_hit r\<rparr>) al rn)"
| prefill: "\<lbrakk>i < length (rn_states rn); st = rn_states rn ! i; res = rn_results rn ! i;
     \<not> sd_done st; \<not> sd_prompt_ready st; sd_prompt_allocated st;
     0 < budget; c = min budget (sd_prefill_remaining st)\<rbrakk> \<Longrightarrow>
   slot_step si c [] rn (upd i (st\<lparr>sd_prefill_remaining := sd_prefill_remaining st - c,
     sd_prompt_ready := (sd_prefill_remaining st = c)\<rparr>) res (rn_allocator rn) rn)"
| starve: "\<lbrakk>i < length (rn_states rn); st = rn_states rn ! i; res = rn_results rn ! i;
     \<not> sd_done st; sd_prompt_ready st; sd_generated st < rq_max_generated_tokens (sd_request st);
     AppendTokens (rq_id (sd_request st)) 1 (rn_allocator rn) = (r, al); \<not> al_ok r\<rbrakk> \<Longrightarrow>
   slot_step si 0 [] rn (upd i (st\<lparr>sd_done := True\<rparr>)
     (res\<lparr>rs_status := kRejected, rs_message := al_message r, rs_generated_tokens := sd_generated st,
          rs_kv_blocks := SequenceBlockCount (rq_id (sd_request st)) al\<rparr>)
     (ReleaseSequence (rq_id (sd_request st)) al) rn)"
| decode: "\<lbrakk>i < length (rn_states rn); st = rn_states rn ! i; res = rn_results rn ! i;
     \<not> sd_done st; sd_prompt_ready st; sd_generated st + 1 < rq_max_generated_tokens (sd_request st);
     AppendTokens (rq_id (sd_request st)) 1 (rn_allocator rn) = (r, al); al_ok r\<rbrakk> \<Longrightarrow>
   slot_step si 0 [rq_id (sd_request st)] rn (upd i (st\<lparr>sd_generated := sd_generated st + 1\<rparr>)
     (if rs_first_token_step res < 0 then res\<lparr>rs_first_token_step := si\<rparr> else res) al rn)"
| complete: "\<lbrakk>i < length (rn_states rn); st = rn_states rn ! i; res = rn_results rn ! i;
     \<not> sd_done st; sd_prompt_ready st; sd_generated st + 1 = rq_max_generated_tokens (sd_request st);
     AppendTokens (rq_id (sd_request st)) 1 (rn_allocator rn) = (r, al); al_ok r\<rbrakk> \<Longrightarrow>
   slot_step si 0 [rq_id (sd_request st)] rn
     (upd i (st\<lparr>sd_generated := sd_generated st + 1, sd_done := True\<rparr>)
       ((finish si (if rs_first_token_step res < 0 then res\<lparr>rs_first_token_step := si\<rparr> else res))
         \<lparr>rs_generated_tokens := sd_generated st + 1,
          rs_kv_blocks := SequenceBlockCount (rq_id (sd_request st)) al\<rparr>)
       (ReleaseSequence (rq_id (sd_request st)) al) rn)"
| complete_empty: "\<lbrakk>i < length (rn_states rn); st = rn_states rn ! i; res = rn_results rn ! i;
     \<not> sd_done st; sd_prompt_ready st; rq_max_generated_tokens (sd_request st) = 0\<rbrakk> \<Longrightarrow>
   slot_step si 0 [] rn (upd i (st\<lparr>sd_done := True\<rparr>)
     ((finish si res)\<lparr>rs_kv_blocks := SequenceBlockCount (rq_id (sd_request st)) (rn_allocator rn)\<rparr>)
     (ReleaseSequence (rq_id (sd_request st)) (rn_allocator rn)) rn)"

inductive_cases slot_stepE: "slot_step si p ds rn rn'"

text \<open>A sequence of transitions, with the labels added up.\<close>

inductive slot_steps :: "int \<Rightarrow> int \<Rightarrow> string list \<Rightarrow> run_state \<Rightarrow> run_state \<Rightarrow> bool" for si where
  stay: "slot_steps si 0 [] rn rn"
| step: "slot_steps si p ds rn rn1 \<Longrightarrow> slot_step si q es rn1 rn2 \<Longrightarrow> slot_steps si (p + q) (ds @ es) rn rn2"

lemma slot_steps_one: "slot_step si p ds rn rn' \<Longrightarrow> slot_steps si p ds rn rn'"
  using slot_steps.step [OF slot_steps.stay] by fastforce

lemma slot_steps_trans:
  assumes "slot_steps si p ds rn rn1" and "slot_steps si q es rn1 rn2"
  shows "slot_steps si (p + q) (ds @ es) rn rn2"
  using assms(2,1)
proof (induction rule: slot_steps.induct)
  case stay
  then show ?case by simp
next
  case (step q es rn1 rn2 q' es' rn3)
  then show ?case using slot_steps.step [of si "p + q" "ds @ es"] by (simp add: add.assoc)
qed

subsection \<open>The invariant\<close>

definition holding :: "State \<Rightarrow> bool" where
  "holding st \<longleftrightarrow> sd_prompt_allocated st \<and> \<not> sd_done st"

definition rejections :: "string set" where
  "rejections = {''sequence id is required'', ''sequence already exists'', ''kv cache exhausted''}"

text \<open>What the result of a finished request says, at \<open>t\<close> tokens per block.\<close>

definition final_ok :: "int \<Rightarrow> int \<Rightarrow> State \<Rightarrow> SequenceResult \<Rightarrow> bool" where
  "final_ok t si st res = (case rs_status res of
     kCompleted \<Rightarrow> rs_message res = ''completed'' \<and> sd_prompt_ready st \<and>
       sd_generated st = rq_max_generated_tokens (sd_request st) \<and> rs_generated_tokens res = sd_generated st \<and>
       rs_kv_blocks res = prompt_need t (rq_prompt_tokens (sd_request st)) (rq_prefix_cache_key (sd_request st))
         (rq_prefix_cache_tokens (sd_request st)) + CeilDiv (sd_generated st) t \<and>
       rs_first_token_step res \<le> rs_completion_step res \<and> 0 \<le> rs_completion_step res \<and> rs_completion_step res \<le> si
   | kRejected \<Rightarrow> rs_message res \<in> rejections \<and> rs_generated_tokens res = sd_generated st \<and> rs_completion_step res = -1
   | kCancelled \<Rightarrow> rs_message res = ''cancelled'' \<and> rs_generated_tokens res = 0 \<and> rs_completion_step res = -1)"

definition slot_ok :: "int \<Rightarrow> int \<Rightarrow> SequenceRequest \<Rightarrow> State \<Rightarrow> SequenceResult \<Rightarrow> bool" where
  "slot_ok t si req st res \<longleftrightarrow>
     sd_request st = req \<and> rs_id res = rq_id req \<and> rs_prompt_tokens res = rq_prompt_tokens req \<and>
     0 \<le> sd_prefill_remaining st \<and> sd_prefill_remaining st \<le> rq_prompt_tokens req \<and>
     0 \<le> sd_generated st \<and> sd_generated st \<le> rq_max_generated_tokens req \<and>
     (sd_prompt_ready st \<longrightarrow> sd_prompt_allocated st \<and> sd_prefill_remaining st = 0) \<and>
     (\<not> sd_prompt_ready st \<longrightarrow> sd_generated st = 0) \<and>
     (\<not> sd_done st \<longrightarrow> sd_prompt_ready st \<longrightarrow>
        sd_generated st < rq_max_generated_tokens req \<or> rq_max_generated_tokens req = 0) \<and>
     (if sd_generated st = 0 then rs_first_token_step res = -1
      else 0 \<le> rs_first_token_step res \<and> rs_first_token_step res \<le> si) \<and>
     (if sd_done st then final_ok t si st res
      else rs_status res = kRejected \<and> rs_message res = ''queued'' \<and> rs_generated_tokens res = 0 \<and>
           rs_completion_step res = -1 \<and> rs_kv_blocks res = 0)"

definition batch_core :: "int \<Rightarrow> SequenceRequest list \<Rightarrow> run_state \<Rightarrow> bool" where
  "batch_core t reqs rn \<longleftrightarrow>
     length (rn_states rn) = length reqs \<and> length (rn_results rn) = length reqs \<and>
     (\<forall>i < length reqs. sd_index (rn_states rn ! i) = i \<and>
        slot_ok t (rn_step_index rn) (reqs ! i) (rn_states rn ! i) (rn_results rn ! i)) \<and>
     kv_inv (rn_allocator rn) \<and> kv_per_block (rn_allocator rn) = t \<and> 0 \<le> rn_step_index rn \<and>
     (\<forall>sid. kv_view (rn_allocator rn) sid \<noteq> None \<longrightarrow>
        (\<exists>i < length reqs. holding (rn_states rn ! i) \<and> rq_id (sd_request (rn_states rn ! i)) = sid))"

definition exact_hold :: "kv_impl \<Rightarrow> State \<Rightarrow> bool" where
  "exact_hold al st \<longleftrightarrow> kvc.holds_exactly al (rq_id (sd_request st)) (rq_prompt_tokens (sd_request st))
     (rq_prefix_cache_key (sd_request st)) (rq_prefix_cache_tokens (sd_request st)) (sd_generated st)"

definition batch_inv :: "int \<Rightarrow> SequenceRequest list \<Rightarrow> run_state \<Rightarrow> bool" where
  "batch_inv t reqs rn \<longleftrightarrow> batch_core t reqs rn \<and>
     (\<forall>i < length reqs. holding (rn_states rn ! i) \<longrightarrow> exact_hold (rn_allocator rn) (rn_states rn ! i)) \<and>
     (\<forall>i < length reqs. \<forall>j < length reqs. holding (rn_states rn ! i) \<longrightarrow> holding (rn_states rn ! j) \<longrightarrow>
        rq_id (sd_request (rn_states rn ! i)) = rq_id (sd_request (rn_states rn ! j)) \<longrightarrow> i = j)"

lemma upd_simps [frame_simps, simp]:
  "rn_states (upd i st res al rn) = (rn_states rn)[i := st]"
  "rn_results (upd i st res al rn) = (rn_results rn)[i := res]"
  "rn_allocator (upd i st res al rn) = al"
  "rn_steps (upd i st res al rn) = rn_steps rn"
  "rn_prefill_steps (upd i st res al rn) = rn_prefill_steps rn"
  "rn_decode_steps (upd i st res al rn) = rn_decode_steps rn"
  "rn_total_generated (upd i st res al rn) = rn_total_generated rn"
  "rn_step_index (upd i st res al rn) = rn_step_index rn"
  "rn_polls (upd i st res al rn) = rn_polls rn"
  by (simp_all add: upd_def)

lemma exact_hold_cong:
  assumes "kv_view al (rq_id (sd_request st)) = kv_view al' (rq_id (sd_request st))"
    and "kv_per_block al = kv_per_block al'"
  shows "exact_hold al st = exact_hold al' st"
  using assms by (simp add: exact_hold_def kvc.holds_exactly_def)

lemma exact_hold_same:
  "sd_request st' = sd_request st \<Longrightarrow> sd_generated st' = sd_generated st \<Longrightarrow> exact_hold al st' = exact_hold al st"
  by (simp add: exact_hold_def)

lemma batch_inv_slot:
  assumes "batch_inv t reqs rn" and "i < length (rn_states rn)"
  shows "i < length reqs" "sd_index (rn_states rn ! i) = i"
    "slot_ok t (rn_step_index rn) (reqs ! i) (rn_states rn ! i) (rn_results rn ! i)"
    "holding (rn_states rn ! i) \<Longrightarrow> exact_hold (rn_allocator rn) (rn_states rn ! i)"
  using assms by (auto simp: batch_inv_def batch_core_def)

lemma batch_inv_kv:
  assumes "batch_inv t reqs rn"
  shows "kv_inv (rn_allocator rn)" "kv_per_block (rn_allocator rn) = t" "0 \<le> rn_step_index rn"
    "length (rn_states rn) = length reqs" "length (rn_results rn) = length reqs"
  using assms by (auto simp: batch_inv_def batch_core_def)

lemma batch_core_holder:
  assumes "batch_core t reqs rn" and "kv_view (rn_allocator rn) sid \<noteq> None"
  obtains j where "j < length reqs" "holding (rn_states rn ! j)" "rq_id (sd_request (rn_states rn ! j)) = sid"
  using assms unfolding batch_core_def by blast

lemma batch_core_upd:
  assumes "batch_core t reqs rn" and "i < length (rn_states rn)" and "sd_index st = i"
    and "kv_inv al" and "kv_per_block al = t" and "slot_ok t (rn_step_index rn) (reqs ! i) st res"
    and "\<And>sid. kv_view al sid \<noteq> None \<Longrightarrow> \<exists>j < length reqs. holding ((rn_states rn)[i := st] ! j) \<and>
      rq_id (sd_request ((rn_states rn)[i := st] ! j)) = sid"
  shows "batch_core t reqs (upd i st res al rn)"
  using assms by (simp add: batch_core_def nth_list_update)

text \<open>An update of one slot that neither gains nor loses blocks.\<close>

lemma batch_inv_keep:
  assumes inv: "batch_inv t reqs rn" and i: "i < length (rn_states rn)"
    and st: "sd_request st = sd_request (rn_states rn ! i)" "sd_index st = i"
      "sd_generated st = sd_generated (rn_states rn ! i)" "holding st = holding (rn_states rn ! i)"
    and al: "kv_inv al" "kv_per_block al = t" "kv_view al = kv_view (rn_allocator rn)"
    and slot: "slot_ok t (rn_step_index rn) (reqs ! i) st res"
  shows "batch_inv t reqs (upd i st res al rn)"
proof -
  note len = batch_inv_kv [OF inv]
  have hold: "exact_hold al s = exact_hold (rn_allocator rn) s" for s
    using al len(2) by (intro exact_hold_cong) auto
  have eq: "holding ((rn_states rn)[i := st] ! j) = holding (rn_states rn ! j)"
    "sd_request ((rn_states rn)[i := st] ! j) = sd_request (rn_states rn ! j)"
    "exact_hold (rn_allocator rn) ((rn_states rn)[i := st] ! j) = exact_hold (rn_allocator rn) (rn_states rn ! j)"
    if "j < length reqs" for j
    using st i len that exact_hold_same [OF st(1,3)] by (auto simp: nth_list_update)
  have "batch_core t reqs (upd i st res al rn)"
  proof (rule batch_core_upd)
    show "batch_core t reqs rn" using inv by (simp add: batch_inv_def)
    then show "\<exists>j < length reqs. holding ((rn_states rn)[i := st] ! j) \<and>
      rq_id (sd_request ((rn_states rn)[i := st] ! j)) = sid" if "kv_view al sid \<noteq> None" for sid
      using batch_core_holder [of t reqs rn sid] that al(3) eq(1,2) by metis
  qed (use i st al slot in auto)
  then show ?thesis
    using inv by (simp add: batch_inv_def eq hold cong: conj_cong)
qed

text \<open>An update of one slot that changes what the allocator holds under its id.\<close>

lemma batch_inv_own:
  assumes inv: "batch_inv t reqs rn" and i: "i < length (rn_states rn)"
    and st: "sd_request st = sd_request (rn_states rn ! i)" "sd_index st = i"
    and own: "holding (rn_states rn ! i) \<or> kv_view (rn_allocator rn) (rq_id (sd_request st)) = None"
    and al: "kv_inv al" "kv_per_block al = t"
      "kv_view al = (kv_view (rn_allocator rn))(rq_id (sd_request st) := v)"
    and v: "if holding st then exact_hold al st else v = None"
    and slot: "slot_ok t (rn_step_index rn) (reqs ! i) st res"
  shows "batch_inv t reqs (upd i st res al rn)"
proof -
  note len = batch_inv_kv [OF inv]
  have other: "rq_id (sd_request (rn_states rn ! j)) \<noteq> rq_id (sd_request st)"
    if j: "j < length reqs" "j \<noteq> i" "holding (rn_states rn ! j)" for j
  proof
    assume same: "rq_id (sd_request (rn_states rn ! j)) = rq_id (sd_request st)"
    have "exact_hold (rn_allocator rn) (rn_states rn ! j)" using inv j by (simp add: batch_inv_def)
    then have "kv_view (rn_allocator rn) (rq_id (sd_request st)) \<noteq> None"
      by (simp add: exact_hold_def kvc.holds_exactly_def same)
    with own have "holding (rn_states rn ! i)" by blast
    with inv j i len same st(1) show False by (simp add: batch_inv_def)
  qed
  have core: "\<exists>j < length reqs. holding ((rn_states rn)[i := st] ! j) \<and>
      rq_id (sd_request ((rn_states rn)[i := st] ! j)) = sid" if sid: "kv_view al sid \<noteq> None" for sid
  proof (cases "sid = rq_id (sd_request st)")
    case True
    with sid v al(3) have "holding st" by (auto split: if_splits)
    with True i len show ?thesis by (auto intro!: exI [of _ i])
  next
    case False
    with sid al(3) have "kv_view (rn_allocator rn) sid \<noteq> None" by simp
    with inv obtain j where j: "j < length reqs" "holding (rn_states rn ! j)" "rq_id (sd_request (rn_states rn ! j)) = sid"
      unfolding batch_inv_def using batch_core_holder by blast
    with False st(1) have "j \<noteq> i" by auto
    with j show ?thesis by (auto intro!: exI [of _ j])
  qed
  have hold: "exact_hold al (rn_states rn ! j) = exact_hold (rn_allocator rn) (rn_states rn ! j)"
    if "j < length reqs" "j \<noteq> i" "holding (rn_states rn ! j)" for j
    using al len(2) other [OF that] by (intro exact_hold_cong) auto
  have "batch_core t reqs (upd i st res al rn)"
    using inv i al(1,2) st(2) slot core unfolding batch_inv_def by (intro batch_core_upd) auto
  moreover have "exact_hold al ((rn_states rn)[i := st] ! j)"
    if "j < length reqs" "holding ((rn_states rn)[i := st] ! j)" for j
    using that v hold inv i len by (auto simp: nth_list_update batch_inv_def split: if_splits)
  moreover have "j = k" if "j < length reqs" "k < length reqs" "holding ((rn_states rn)[i := st] ! j)"
    "holding ((rn_states rn)[i := st] ! k)"
    "rq_id (sd_request ((rn_states rn)[i := st] ! j)) = rq_id (sd_request ((rn_states rn)[i := st] ! k))" for j k
    using that other inv i len by (auto simp: nth_list_update batch_inv_def split: if_splits)
  ultimately show ?thesis by (simp add: batch_inv_def)
qed

subsection \<open>Every transition preserves the invariant\<close>

lemma AllocatePrompt_error:
  "AllocatePrompt sid n key p impl = (r, impl') \<Longrightarrow> \<not> al_ok r \<Longrightarrow> al_message r \<in> rejections"
  using AllocatePrompt_why [of sid n key p impl r impl'] by (auto simp: rejections_def)

lemma exact_hold_view: "exact_hold al st \<Longrightarrow> kv_view al (rq_id (sd_request st)) \<noteq> None"
  by (auto simp: exact_hold_def kvc.holds_exactly_def)

lemma exact_hold_append:
  assumes "kv_inv al" and "AppendTokens (rq_id (sd_request st)) 1 al = (r, al')" and "al_ok r" and "exact_hold al st"
  shows "exact_hold al' (st\<lparr>sd_generated := sd_generated st + 1\<rparr>)"
  using kvc.holds_after_append [OF assms(1-3)] assms(4) by (simp add: exact_hold_def)

lemma exact_hold_count:
  assumes "exact_hold al st"
  shows "SequenceBlockCount (rq_id (sd_request st)) al =
    prompt_need (kv_per_block al) (rq_prompt_tokens (sd_request st)) (rq_prefix_cache_key (sd_request st))
      (rq_prefix_cache_tokens (sd_request st)) + CeilDiv (sd_generated st) (kv_per_block al)"
  using assms by (simp add: exact_hold_def kvc.count_holds)

lemma ready_holding: "slot_ok t si req st res \<Longrightarrow> sd_prompt_ready st \<Longrightarrow> \<not> sd_done st \<Longrightarrow> holding st"
  by (simp add: slot_ok_def holding_def)

lemma reject_inv:
  assumes inv: "batch_inv t reqs rn"
    and i: "i < length (rn_states rn)"
    and st: "st = rn_states rn ! i"
    and res: "res = rn_results rn ! i"
    and g: "\<not> sd_done st" "\<not> sd_prompt_ready st" "\<not> sd_prompt_allocated st"
    and run: "AllocatePrompt (rq_id (sd_request st)) (rq_prompt_tokens (sd_request st)) (rq_prefix_cache_key (sd_request st))
      (rq_prefix_cache_tokens (sd_request st)) (rn_allocator rn) = (r, al)"
    and out: "\<not> al_ok r"
  shows "batch_inv t reqs (upd i (st\<lparr>sd_done := True\<rparr>)
     (res\<lparr>rs_status := kRejected, rs_message := al_message r,
          rs_kv_blocks := SequenceBlockCount (rq_id (sd_request st)) al\<rparr>) al rn)"
proof -
  note kv = batch_inv_kv [OF inv] and slot = batch_inv_slot [OF inv i]
  show ?thesis
  proof (rule batch_inv_keep [OF inv i])
    show "slot_ok t (rn_step_index rn) (reqs ! i) (st\<lparr>sd_done := True\<rparr>)
      (res\<lparr>rs_status := kRejected, rs_message := al_message r,
        rs_kv_blocks := SequenceBlockCount (rq_id (sd_request st)) al\<rparr>)"
      using slot(3) st res g run out AllocatePrompt_error [OF run out] by (simp add: slot_ok_def final_ok_def)
  qed (use st res g run out slot kv kvc.invar_alloc [OF kv(1) run] kvc.per_block_alloc [OF kv(1) run]
        kvc.alloc_fail [OF kv(1) run out] in \<open>simp_all add: holding_def\<close>)
qed

lemma admitted_inv:
  assumes inv: "batch_inv t reqs rn"
    and i: "i < length (rn_states rn)"
    and st: "st = rn_states rn ! i"
    and res: "res = rn_results rn ! i"
    and g: "\<not> sd_done st" "\<not> sd_prompt_ready st" "\<not> sd_prompt_allocated st"
    and run: "AllocatePrompt (rq_id (sd_request st)) (rq_prompt_tokens (sd_request st)) (rq_prefix_cache_key (sd_request st))
      (rq_prefix_cache_tokens (sd_request st)) (rn_allocator rn) = (r, al)"
    and out: "al_ok r"
  shows "batch_inv t reqs (upd i (st\<lparr>sd_prompt_allocated := True\<rparr>)
     (res\<lparr>rs_prefix_cache_hit := al_cache_hit r\<rparr>) al rn)"
proof -
  note kv = batch_inv_kv [OF inv] and slot = batch_inv_slot [OF inv i]
  note ok = kvc.alloc_ok [OF kv(1) run out]
  have gen: "sd_generated st = 0" using slot(3) st res g run out by (simp add: slot_ok_def)
  show ?thesis
  proof (rule batch_inv_own [OF inv i])
    show "if holding (st\<lparr>sd_prompt_allocated := True\<rparr>) then exact_hold al (st\<lparr>sd_prompt_allocated := True\<rparr>)
      else Some (max 0 (rq_prompt_tokens (sd_request st)), 0 :: int, prompt_need t (rq_prompt_tokens (sd_request st))
          (rq_prefix_cache_key (sd_request st)) (rq_prefix_cache_tokens (sd_request st))) = None"
      using kvc.holds_after_alloc [OF kv(1) run out] g(1) gen by (simp add: exact_hold_def holding_def)
    show "slot_ok t (rn_step_index rn) (reqs ! i) (st\<lparr>sd_prompt_allocated := True\<rparr>)
      (res\<lparr>rs_prefix_cache_hit := al_cache_hit r\<rparr>)"
      using slot(3) st res g run out by (simp add: slot_ok_def)
  qed (use st res g run out slot kv ok kvc.invar_alloc [OF kv(1) run] kvc.per_block_alloc [OF kv(1) run]
        in simp_all)
qed

lemma prefill_inv:
  assumes inv: "batch_inv t reqs rn"
    and i: "i < length (rn_states rn)"
    and st: "st = rn_states rn ! i"
    and res: "res = rn_results rn ! i"
    and g: "\<not> sd_done st" "\<not> sd_prompt_ready st" "sd_prompt_allocated st"
    and b: "0 < budget" "c = min budget (sd_prefill_remaining st)"
  shows "batch_inv t reqs (upd i (st\<lparr>sd_prefill_remaining := sd_prefill_remaining st - c,
     sd_prompt_ready := (sd_prefill_remaining st = c)\<rparr>) res (rn_allocator rn) rn)"
proof -
  note kv = batch_inv_kv [OF inv] and slot = batch_inv_slot [OF inv i]
  show ?thesis
  proof (rule batch_inv_keep [OF inv i])
    show "slot_ok t (rn_step_index rn) (reqs ! i) (st\<lparr>sd_prefill_remaining := sd_prefill_remaining st - c,
        sd_prompt_ready := (sd_prefill_remaining st = c)\<rparr>) res"
      using slot(3) st res g b by (auto simp: slot_ok_def)
  qed (use st res g b slot kv in \<open>simp_all add: holding_def\<close>)
qed

lemma starve_inv:
  assumes inv: "batch_inv t reqs rn"
    and i: "i < length (rn_states rn)"
    and st: "st = rn_states rn ! i"
    and res: "res = rn_results rn ! i"
    and g: "\<not> sd_done st" "sd_prompt_ready st" "sd_generated st < rq_max_generated_tokens (sd_request st)"
    and run: "AppendTokens (rq_id (sd_request st)) 1 (rn_allocator rn) = (r, al)"
    and out: "\<not> al_ok r"
  shows "batch_inv t reqs (upd i (st\<lparr>sd_done := True\<rparr>)
     (res\<lparr>rs_status := kRejected, rs_message := al_message r, rs_generated_tokens := sd_generated st,
          rs_kv_blocks := SequenceBlockCount (rq_id (sd_request st)) al\<rparr>)
     (ReleaseSequence (rq_id (sd_request st)) al) rn)"
proof -
  note kv = batch_inv_kv [OF inv] and slot = batch_inv_slot [OF inv i]
  have hold: "holding st" using slot(3) st res g run out ready_holding by blast
  then have here: "kv_view (rn_allocator rn) (rq_id (sd_request st)) \<noteq> None"
    using exact_hold_view slot(4) st res g run out by blast
  note al = kvc.invar_append [OF kv(1) run]
  show ?thesis
  proof (rule batch_inv_own [OF inv i])
    show "kv_view (ReleaseSequence (rq_id (sd_request st)) al) =
      (kv_view (rn_allocator rn))(rq_id (sd_request (st\<lparr>sd_done := True\<rparr>)) := None)"
      using kvc.release_view [OF al] kvc.append_fail [OF kv(1) run out] by simp
    show "slot_ok t (rn_step_index rn) (reqs ! i) (st\<lparr>sd_done := True\<rparr>)
      (res\<lparr>rs_status := kRejected, rs_message := al_message r, rs_generated_tokens := sd_generated st,
        rs_kv_blocks := SequenceBlockCount (rq_id (sd_request st)) al\<rparr>)"
      using slot(3) st res g run out AppendTokens_error [OF run out here]
      by (simp add: slot_ok_def final_ok_def rejections_def)
  qed (use st res g run out slot kv hold al kvc.invar_release [OF al] kvc.per_block_release [OF al]
        kvc.per_block_append [OF kv(1) run] in \<open>simp_all add: holding_def\<close>)
qed

lemma decode_inv:
  assumes inv: "batch_inv t reqs rn"
    and i: "i < length (rn_states rn)"
    and st: "st = rn_states rn ! i"
    and res: "res = rn_results rn ! i"
    and g: "\<not> sd_done st" "sd_prompt_ready st" "sd_generated st + 1 < rq_max_generated_tokens (sd_request st)"
    and run: "AppendTokens (rq_id (sd_request st)) 1 (rn_allocator rn) = (r, al)"
    and out: "al_ok r"
  shows "batch_inv t reqs (upd i (st\<lparr>sd_generated := sd_generated st + 1\<rparr>)
     (if rs_first_token_step res < 0 then res\<lparr>rs_first_token_step := (rn_step_index rn)\<rparr> else res) al rn)"
proof -
  note kv = batch_inv_kv [OF inv] and slot = batch_inv_slot [OF inv i]
  have hold: "holding st" using slot(3) st res g run out ready_holding by blast
  from kvc.append_ok [OF kv(1) run out] obtain v where
    v: "kv_view al = (kv_view (rn_allocator rn))(rq_id (sd_request st) := Some v)" by auto
  show ?thesis
  proof (rule batch_inv_own [OF inv i])
    show "slot_ok t (rn_step_index rn) (reqs ! i) (st\<lparr>sd_generated := sd_generated st + 1\<rparr>)
      (if rs_first_token_step res < 0 then res\<lparr>rs_first_token_step := rn_step_index rn\<rparr> else res)"
      using slot(3) st res g run out kv(3) by (auto simp: slot_ok_def split: if_splits)
    show "if holding (st\<lparr>sd_generated := sd_generated st + 1\<rparr>)
      then exact_hold al (st\<lparr>sd_generated := sd_generated st + 1\<rparr>) else Some v = None"
      using exact_hold_append [OF kv(1) run out] slot(4) st hold by (simp add: holding_def)
  qed (use st res g run out slot kv hold v kvc.invar_append [OF kv(1) run] kvc.per_block_append [OF kv(1) run]
        in simp_all)
qed

lemma complete_inv:
  assumes inv: "batch_inv t reqs rn"
    and i: "i < length (rn_states rn)"
    and st: "st = rn_states rn ! i"
    and res: "res = rn_results rn ! i"
    and g: "\<not> sd_done st" "sd_prompt_ready st" "sd_generated st + 1 = rq_max_generated_tokens (sd_request st)"
    and run: "AppendTokens (rq_id (sd_request st)) 1 (rn_allocator rn) = (r, al)"
    and out: "al_ok r"
  shows "batch_inv t reqs (upd i (st\<lparr>sd_generated := sd_generated st + 1, sd_done := True\<rparr>)
       ((finish (rn_step_index rn) (if rs_first_token_step res < 0 then res\<lparr>rs_first_token_step := (rn_step_index rn)\<rparr> else res))
         \<lparr>rs_generated_tokens := sd_generated st + 1,
          rs_kv_blocks := SequenceBlockCount (rq_id (sd_request st)) al\<rparr>)
       (ReleaseSequence (rq_id (sd_request st)) al) rn)"
proof -
  note kv = batch_inv_kv [OF inv] and slot = batch_inv_slot [OF inv i]
  have hold: "holding st" using slot(3) st res g run out ready_holding by blast
  note al = kvc.invar_append [OF kv(1) run] kvc.per_block_append [OF kv(1) run]
  from kvc.append_ok [OF kv(1) run out] obtain v where
    v: "kv_view al = (kv_view (rn_allocator rn))(rq_id (sd_request st) := Some v)" by auto
  note cnt = exact_hold_count [OF exact_hold_append [OF kv(1) run out]]
  show ?thesis
  proof (rule batch_inv_own [OF inv i])
    show "kv_view (ReleaseSequence (rq_id (sd_request st)) al) = (kv_view (rn_allocator rn))
      (rq_id (sd_request (st\<lparr>sd_generated := sd_generated st + 1, sd_done := True\<rparr>)) := None)"
      using kvc.release_view [OF al(1)] v by simp
    show "slot_ok t (rn_step_index rn) (reqs ! i) (st\<lparr>sd_generated := sd_generated st + 1, sd_done := True\<rparr>)
      ((finish (rn_step_index rn) (if rs_first_token_step res < 0 then res\<lparr>rs_first_token_step := rn_step_index rn\<rparr> else res))
        \<lparr>rs_generated_tokens := sd_generated st + 1, rs_kv_blocks := SequenceBlockCount (rq_id (sd_request st)) al\<rparr>)"
      using slot(3,4) st res g run out kv(2,3) cnt hold al(2)
      by (auto simp: slot_ok_def final_ok_def finish_def split: if_splits)
  qed (use st res g run out slot kv hold al kvc.invar_release [OF al(1)] kvc.per_block_release [OF al(1)]
        in \<open>simp_all add: holding_def\<close>)
qed

lemma complete_empty_inv:
  assumes inv: "batch_inv t reqs rn"
    and i: "i < length (rn_states rn)"
    and st: "st = rn_states rn ! i"
    and res: "res = rn_results rn ! i"
    and g: "\<not> sd_done st" "sd_prompt_ready st" "rq_max_generated_tokens (sd_request st) = 0"
  shows "batch_inv t reqs (upd i (st\<lparr>sd_done := True\<rparr>)
     ((finish (rn_step_index rn) res)\<lparr>rs_kv_blocks := SequenceBlockCount (rq_id (sd_request st)) (rn_allocator rn)\<rparr>)
     (ReleaseSequence (rq_id (sd_request st)) (rn_allocator rn)) rn)"
proof -
  note kv = batch_inv_kv [OF inv] and slot = batch_inv_slot [OF inv i]
  have hold: "holding st" using slot(3) st res g ready_holding by blast
  note cnt = exact_hold_count [of "rn_allocator rn" st]
  show ?thesis
  proof (rule batch_inv_own [OF inv i])
    show "kv_view (ReleaseSequence (rq_id (sd_request st)) (rn_allocator rn)) =
      (kv_view (rn_allocator rn))(rq_id (sd_request (st\<lparr>sd_done := True\<rparr>)) := None)"
      using kvc.release_view [OF kv(1)] by simp
    show "slot_ok t (rn_step_index rn) (reqs ! i) (st\<lparr>sd_done := True\<rparr>)
      ((finish (rn_step_index rn) res)\<lparr>rs_kv_blocks := SequenceBlockCount (rq_id (sd_request st)) (rn_allocator rn)\<rparr>)"
      using slot(3,4) st res g kv(2,3) cnt hold
      by (auto simp: slot_ok_def final_ok_def finish_def split: if_splits)
  qed (use st res g slot kv hold kvc.invar_release [OF kv(1)] kvc.per_block_release [OF kv(1)]
        in \<open>simp_all add: holding_def\<close>)
qed

lemma slot_step_inv:
  assumes "slot_step (rn_step_index rn) p ds rn rn'" and "batch_inv t reqs rn"
  shows "batch_inv t reqs rn'"
  using assms
proof cases
  case reject
  then show ?thesis using reject_inv [OF assms(2)] by blast
next
  case admitted
  then show ?thesis using admitted_inv [OF assms(2)] by blast
next
  case prefill
  then show ?thesis using prefill_inv [OF assms(2)] by blast
next
  case starve
  then show ?thesis using starve_inv [OF assms(2)] by blast
next
  case decode
  then show ?thesis using decode_inv [OF assms(2)] by blast
next
  case complete
  then show ?thesis using complete_inv [OF assms(2)] by blast
next
  case complete_empty
  then show ?thesis using complete_empty_inv [OF assms(2)] by blast
qed

lemma slot_steps_inv:
  assumes "slot_steps si p ds rn rn'" and "batch_inv t reqs rn" and "rn_step_index rn = si"
  shows "batch_inv t reqs rn' \<and> rn_step_index rn' = si"
  using assms
proof (induction rule: slot_steps.induct)
  case (step p ds rn rn1 q es rn2)
  moreover have "rn_step_index rn2 = rn_step_index rn1" using step(2) by (elim slot_stepE) auto
  ultimately show ?case using slot_step_inv by metis
qed auto

subsection \<open>The measure and the token sums\<close>

definition slot_work :: "State \<Rightarrow> nat" where
  "slot_work st = (if sd_done st then 0
     else nat (sd_prefill_remaining st) + nat (rq_max_generated_tokens (sd_request st) - sd_generated st) + 1 +
       (if sd_prompt_ready st then 0 else 1) + (if sd_prompt_allocated st then 0 else 1))"

definition work :: "run_state \<Rightarrow> nat" where
  "work rn = sum_list (map slot_work (rn_states rn))"

definition remaining_sum :: "run_state \<Rightarrow> int" where
  "remaining_sum rn = sum_list (map sd_prefill_remaining (rn_states rn))"

definition generated_sum :: "run_state \<Rightarrow> int" where
  "generated_sum rn = sum_list (map sd_generated (rn_states rn))"

lemma sum_list_upd_int:
  "i < length xs \<Longrightarrow> sum_list (map f (xs[i := x])) = sum_list (map f xs) - f (xs ! i) + (f x :: int)"
proof (induction xs arbitrary: i)
  case (Cons y ys)
  then show ?case by (cases i) auto
qed simp

lemma sum_list_upd_nat:
  "i < length xs \<Longrightarrow> sum_list (map f (xs[i := x])) + f (xs ! i) = sum_list (map f xs) + (f x :: nat)"
proof (induction xs arbitrary: i)
  case (Cons y ys)
  then show ?case by (cases i) auto
qed simp

text \<open>What all transitions have in common.\<close>

lemma slot_step_shape:
  assumes step: "slot_step si p ds rn rn'" and inv: "batch_inv t reqs rn"
  obtains i st res al where "i < length (rn_states rn)" "rn' = upd i st res al rn"
    "sd_prefill_remaining st = sd_prefill_remaining (rn_states rn ! i) - p"
    "sd_generated st = sd_generated (rn_states rn ! i) + int (length ds)"
    "kv_step\<^sup>*\<^sup>* (rn_allocator rn) al" "slot_work st < slot_work (rn_states rn ! i)" "0 \<le> p"
proof -
  have prompt: "kv_step\<^sup>*\<^sup>* impl impl'" if "AllocatePrompt sid n key q impl = (r, impl')" for sid n key q impl r impl'
    using kv_step.prompt [of impl sid n key q] that by auto
  have append: "kv_step\<^sup>*\<^sup>* impl impl'" if "AppendTokens sid n impl = (r, impl')" for sid n impl r impl'
    using kv_step.append [of impl sid n] that by auto
  have release: "kv_step\<^sup>*\<^sup>* impl (ReleaseSequence sid impl')" if "kv_step\<^sup>*\<^sup>* impl impl'" for sid impl impl'
    using that kv_step.release by (rule rtranclp.rtrancl_into_rtrancl)
  show ?thesis
    using step
  proof cases
    case (reject i st res r al)
    then show ?thesis by (intro that [OF reject(4,3)]) (auto simp: slot_work_def prompt)
  next
    case (admitted i st res r al)
    then show ?thesis by (intro that [OF admitted(4,3)]) (auto simp: slot_work_def prompt)
  next
    case (prefill i st res budget)
    moreover have "0 \<le> sd_prefill_remaining st"
      using batch_inv_slot(3) [OF inv] prefill by (simp add: slot_ok_def)
    ultimately show ?thesis by (intro that [OF prefill(3,2)]) (auto simp: slot_work_def)
  next
    case (starve i st res r al)
    then show ?thesis by (intro that [OF starve(4,3)]) (auto simp: slot_work_def intro: release append)
  next
    case (decode i st res r al)
    then show ?thesis by (intro that [OF decode(4,3)]) (auto simp: slot_work_def append)
  next
    case (complete i st res r al)
    then show ?thesis by (intro that [OF complete(4,3)]) (auto simp: slot_work_def intro: release append)
  next
    case (complete_empty i st res)
    then show ?thesis by (intro that [OF complete_empty(4,3)]) (auto simp: slot_work_def intro: release)
  qed
qed

text \<open>What a transition adds up to: less work, and the labels are the change of the token sums.\<close>

definition advances :: "int \<Rightarrow> string list \<Rightarrow> run_state \<Rightarrow> run_state \<Rightarrow> bool" where
  "advances p ds rn rn' \<longleftrightarrow> 0 \<le> p \<and> work rn' \<le> work rn \<and>
     remaining_sum rn' = remaining_sum rn - p \<and> generated_sum rn' = generated_sum rn + int (length ds) \<and>
     rn_steps rn' = rn_steps rn \<and> rn_prefill_steps rn' = rn_prefill_steps rn \<and>
     rn_decode_steps rn' = rn_decode_steps rn \<and> rn_total_generated rn' = rn_total_generated rn \<and>
     rn_polls rn' = rn_polls rn \<and> rn_step_index rn' = rn_step_index rn \<and>
     length (rn_states rn') = length (rn_states rn) \<and> kv_step\<^sup>*\<^sup>* (rn_allocator rn) (rn_allocator rn')"

lemma slot_step_advances:
  assumes "slot_step si p ds rn rn'" and "batch_inv t reqs rn"
  shows "advances p ds rn rn'" "work rn' < work rn"
proof -
  obtain i st res al where *: "i < length (rn_states rn)" "rn' = upd i st res al rn"
    "sd_prefill_remaining st = sd_prefill_remaining (rn_states rn ! i) - p"
    "sd_generated st = sd_generated (rn_states rn ! i) + int (length ds)"
    "kv_step\<^sup>*\<^sup>* (rn_allocator rn) al" "slot_work st < slot_work (rn_states rn ! i)" "0 \<le> p"
    using slot_step_shape [OF assms] .
  then show less: "work rn' < work rn"
    using sum_list_upd_nat [OF *(1), of slot_work st] by (simp add: work_def)
  show "advances p ds rn rn'"
    using * less by (auto simp: advances_def remaining_sum_def generated_sum_def sum_list_upd_int)
qed

lemma advances_refl: "advances 0 [] rn rn"
  by (simp add: advances_def)

lemma advances_trans: "advances p ds rn rn1 \<Longrightarrow> advances q es rn1 rn2 \<Longrightarrow> advances (p + q) (ds @ es) rn rn2"
  unfolding advances_def by (auto intro: rtranclp_trans)

lemma slot_steps_advances:
  assumes "slot_steps si p ds rn rn'" and "batch_inv t reqs rn" and "rn_step_index rn = si"
  shows "advances p ds rn rn'"
  using assms
proof (induction rule: slot_steps.induct)
  case (step p ds rn rn1 q es rn2)
  then have "batch_inv t reqs rn1" using slot_steps_inv by blast
  with step show ?case using advances_trans slot_step_advances(1) by blast
qed (simp add: advances_refl)

end
