(* ===== verification/Batcher_Correct.thy ===== *)
theory Batcher_Correct
  imports Batcher_Machine "HOL-Library.Sublist"
begin

text \<open>
  The code of \<open>Run\<close> is a run of the state machine: the three loops of a scheduler step are sequences
  of \<open>slot_step\<close> transitions within the budgets of the configuration, at least one transition per
  step, and cancellation ends every unfinished request. From this follow termination, the accounting
  of the statistics and the shape of every result.
\<close>

subsection \<open>The loops of a step\<close>

definition same_others :: "nat \<Rightarrow> run_state \<Rightarrow> run_state \<Rightarrow> bool" where
  "same_others i rn rn' \<longleftrightarrow> length (rn_states rn') = length (rn_states rn) \<and>
     (\<forall>j. j \<noteq> i \<longrightarrow> rn_states rn' ! j = rn_states rn ! j)"

lemma same_others_upd [simp]: "same_others i rn (upd i st res al rn)"
  by (simp add: same_others_def)

lemma same_others_refl [simp]: "same_others i rn rn"
  by (simp add: same_others_def)

lemma same_others_trans: "same_others i rn rn1 \<Longrightarrow> same_others i rn1 rn2 \<Longrightarrow> same_others i rn rn2"
  by (simp add: same_others_def)

definition waiting :: "run_state \<Rightarrow> nat \<Rightarrow> bool" where
  "waiting rn i \<longleftrightarrow> i < length (rn_states rn) \<and> \<not> sd_done (rn_states rn ! i) \<and> \<not> sd_prompt_ready (rn_states rn ! i)"

definition decodable :: "run_state \<Rightarrow> nat \<Rightarrow> bool" where
  "decodable rn i \<longleftrightarrow> i < length (rn_states rn) \<and> \<not> sd_done (rn_states rn ! i) \<and> sd_prompt_ready (rn_states rn ! i) \<and>
     sd_generated (rn_states rn ! i) < rq_max_generated_tokens (sd_request (rn_states rn ! i))"

lemma same_others_waiting: "same_others i rn rn' \<Longrightarrow> j \<noteq> i \<Longrightarrow> waiting rn' j = waiting rn j"
  by (simp add: same_others_def waiting_def)

lemma same_others_decodable: "same_others i rn rn' \<Longrightarrow> j \<noteq> i \<Longrightarrow> decodable rn' j = decodable rn j"
  by (simp add: same_others_def decodable_def)

lemma same_others_all:
  assumes "same_others i rn rn'" and "i \<notin> S"
  shows "\<forall>j \<in> S. waiting rn j \<Longrightarrow> \<forall>j \<in> S. waiting rn' j"
    and "\<forall>j \<in> S. decodable rn j \<Longrightarrow> \<forall>j \<in> S. decodable rn' j"
  using assms same_others_waiting same_others_decodable by metis+

lemma set_upd: "set_state i st (set_result i res (rn\<lparr>rn_allocator := al\<rparr>)) = upd i st res al rn"
  "set_result i res (set_state i st (rn\<lparr>rn_allocator := al\<rparr>)) = upd i st res al rn"
  by (simp_all add: set_state_def set_result_def upd_def)

lemma set_upd_state: "i < length (rn_results rn) \<Longrightarrow> set_state i st rn = upd i st (rn_results rn ! i) (rn_allocator rn) rn"
  by (simp add: set_state_def upd_def)

lemma admit_steps:
  assumes inv: "batch_inv t reqs rn" and i: "waiting rn i" and run: "admit i rn = (ok, rn1)"
  shows "same_others i rn rn1" and "\<not> ok \<Longrightarrow> slot_step si 0 [] rn rn1"
    and "ok \<Longrightarrow> slot_steps si 0 [] rn rn1 \<and> waiting rn1 i \<and> sd_prompt_allocated (rn_states rn1 ! i)"
proof -
  let ?st = "rn_states rn ! i" let ?rq = "sd_request ?st"
  have len: "i < length (rn_states rn)" "\<not> sd_done ?st" "\<not> sd_prompt_ready ?st" using i by (auto simp: waiting_def)
  have idx: "sd_index ?st = i" using batch_inv_slot(2) [OF inv len(1)] .
  obtain r al where al: "AllocatePrompt (rq_id ?rq) (rq_prompt_tokens ?rq) (rq_prefix_cache_key ?rq)
    (rq_prefix_cache_tokens ?rq) (rn_allocator rn) = (r, al)" by fastforce
  note reject = slot_step.reject [OF len(1) refl refl len(2,3) _ al, of si]
    and admitted = slot_step.admitted [OF len(1) refl refl len(2,3) _ al, of si]
  show "same_others i rn rn1" and "\<not> ok \<Longrightarrow> slot_step si 0 [] rn rn1"
    and "ok \<Longrightarrow> slot_steps si 0 [] rn rn1 \<and> waiting rn1 i \<and> sd_prompt_allocated (rn_states rn1 ! i)"
    using run len reject slot_steps_one [OF admitted] slot_steps.stay [of si rn] i
    by (auto simp: admit_def Let_def al idx set_upd waiting_def split: if_splits)
qed

lemma consume_steps:
  assumes inv: "batch_inv t reqs rn" and i: "waiting rn i" and alloc: "sd_prompt_allocated (rn_states rn ! i)"
    and budget: "0 < budget" and run: "consume_prefill i budget rn = (c, rn1)"
  shows "same_others i rn rn1" and "slot_step si c [] rn rn1" and "0 \<le> c" and "c \<le> budget"
proof -
  have len: "i < length (rn_states rn)" "\<not> sd_done (rn_states rn ! i)" "\<not> sd_prompt_ready (rn_states rn ! i)"
    using i by (auto simp: waiting_def)
  have res: "i < length (rn_results rn)" using len batch_inv_kv(4,5) [OF inv] by simp
  have rem: "0 \<le> sd_prefill_remaining (rn_states rn ! i)" using batch_inv_slot(3) [OF inv len(1)] by (simp add: slot_ok_def)
  note prefill = slot_step.prefill [OF len(1) refl refl len(2,3) alloc budget refl, of si]
  have c: "c = min budget (sd_prefill_remaining (rn_states rn ! i))"
    using run by (simp add: consume_prefill_def Let_def split: if_splits)
  then show "0 \<le> c" "c \<le> budget" using budget rem by auto
  have ready: "s\<lparr>sd_prefill_remaining := x\<rparr> = s\<lparr>sd_prefill_remaining := x, sd_prompt_ready := False\<rparr>"
    if "\<not> sd_prompt_ready s" for s :: State and x
    using that by (cases s) simp
  have "rn1 = upd i ((rn_states rn ! i)\<lparr>sd_prefill_remaining := sd_prefill_remaining (rn_states rn ! i) - c,
     sd_prompt_ready := (sd_prefill_remaining (rn_states rn ! i) = c)\<rparr>) (rn_results rn ! i) (rn_allocator rn) rn"
    using run c len(3)
    by (cases "sd_prefill_remaining (rn_states rn ! i) \<le> budget")
      (simp_all add: consume_prefill_def Let_def set_upd_state [OF res] ready [OF len(3), symmetric])
  then show "same_others i rn rn1" "slot_step si c [] rn rn1" using prefill c by simp_all
qed

lemma prefill_loop_steps:
  assumes "batch_inv t reqs rn" and "rn_step_index rn = si" and "distinct js" and "\<forall>i \<in> set js. waiting rn i"
    and "prefill_loop js budget acc rn = (toks, rn')"
  shows "slot_steps si (toks - acc) [] rn rn' \<and> 0 \<le> toks - acc \<and> toks - acc \<le> max 0 budget \<and>
    (js \<noteq> [] \<longrightarrow> 0 < budget \<longrightarrow> work rn' < work rn)"
  using assms
proof (induction js arbitrary: budget acc rn)
  case Nil
  then show ?case by (simp add: slot_steps.stay)
next
  case (Cons i rest)
  note inv = Cons.prems(1)
  show ?case
  proof (cases "budget \<le> 0")
    case True
    with Cons.prems show ?thesis by (simp add: slot_steps.stay)
  next
    case False
    obtain ok rn1 where ad: "admit i rn = (ok, rn1)" by fastforce
    note admit = admit_steps [OF inv _ ad]
    have i: "waiting rn i" using Cons.prems(4) by simp
    show ?thesis
    proof (cases ok)
      case False
      note step = admit(2) [OF i False]
      have "batch_inv t reqs rn1" "rn_step_index rn1 = si"
        using slot_steps_inv [OF slot_steps_one [OF step] inv Cons.prems(2)] by auto
      moreover have "\<forall>j \<in> set rest. waiting rn1 j"
        using Cons.prems(3,4) by (intro same_others_all(1) [OF admit(1) [OF i]]) auto
      ultimately show ?thesis
        using Cons.IH [of rn1 budget acc] Cons.prems(3,5) ad False \<open>\<not> budget \<le> 0\<close>
          slot_steps_trans [OF slot_steps_one [OF step]] slot_step_advances(2) [OF step inv]
          slot_steps_advances [of si _ _ rn1 rn' t reqs]
        by (auto simp: advances_def)
    next
      case True
      note adm = admit(3) [OF i True]
      then have inv1: "batch_inv t reqs rn1" "rn_step_index rn1 = si"
        using slot_steps_inv [OF _ inv Cons.prems(2)] by auto
      obtain c rn2 where co: "consume_prefill i budget rn1 = (c, rn2)" by fastforce
      have consume: "same_others i rn1 rn2" "slot_step si c [] rn1 rn2" "0 \<le> c" "c \<le> budget"
        using consume_steps [OF inv1(1) _ _ _ co] adm False by auto
      have inv2: "batch_inv t reqs rn2" "rn_step_index rn2 = si"
        using slot_steps_inv [OF slot_steps_one [OF consume(2)] inv1] by auto
      have wait: "\<forall>j \<in> set rest. waiting rn2 j"
        using Cons.prems(3,4) by (intro same_others_all(1) [OF same_others_trans [OF admit(1) [OF i] consume(1)]]) auto
      have rest: "prefill_loop rest (budget - c) (acc + c) rn2 = (toks, rn')"
        using Cons.prems(5) ad co True False by simp
      note IH = Cons.IH [OF inv2 _ wait rest]
      have "slot_steps si (0 + c + (toks - (acc + c))) [] rn rn'"
        using slot_steps_trans [OF slot_steps_trans [OF _ slot_steps_one [OF consume(2)]], of 0 "[]" rn] IH adm
          Cons.prems(3) by fastforce
      moreover have "work rn' \<le> work rn2" "work rn2 < work rn1" "work rn1 \<le> work rn"
        using slot_steps_advances [OF _ inv2] slot_step_advances(2) [OF consume(2) inv1(1)]
          slot_steps_advances [OF _ inv Cons.prems(2)] IH adm Cons.prems(3) by (fastforce simp: advances_def)+
      ultimately show ?thesis using IH Cons.prems(3) consume(3,4) False by (auto simp: algebra_simps)
    qed
  qed
qed

lemma decode_one_step:
  assumes inv: "batch_inv t reqs rn" and i: "decodable rn i" and run: "decode_one si i (decoded, rn) = (decoded', rn')"
  obtains ds where "decoded' = decoded @ ds" "slot_step si 0 ds rn rn'" "same_others i rn rn'"
    "ds = [] \<or> ds = [rq_id (sd_request (rn_states rn ! i))]"
proof -
  let ?st = "rn_states rn ! i" let ?rq = "sd_request ?st"
  have len: "i < length (rn_states rn)" "\<not> sd_done ?st" "sd_prompt_ready ?st" "sd_generated ?st < rq_max_generated_tokens ?rq"
    using i by (auto simp: decodable_def)
  have idx: "sd_index ?st = i" using batch_inv_slot(2) [OF inv len(1)] .
  obtain r al where al: "AppendTokens (rq_id ?rq) 1 (rn_allocator rn) = (r, al)" by fastforce
  note starve = slot_step.starve [OF len(1) refl refl len(2,3,4) al, of si]
    and decode = slot_step.decode [OF len(1) refl refl len(2,3) _ al, of si]
    and complete = slot_step.complete [OF len(1) refl refl len(2,3) _ al, of si]
  consider "\<not> al_ok r" | "al_ok r" "sd_generated ?st + 1 = rq_max_generated_tokens ?rq"
    | "al_ok r" "sd_generated ?st + 1 < rq_max_generated_tokens ?rq" using len(4) by linarith
  then show ?thesis
  proof cases
    case 1
    with run starve show ?thesis
      by (intro that [of "[]"]) (auto simp: decode_one_def Let_def al idx set_upd)
  next
    case 2
    with run complete show ?thesis
      by (intro that [of "[rq_id ?rq]"]) (auto simp: decode_one_def Let_def al idx set_upd)
  next
    case 3
    with run decode show ?thesis
      by (intro that [of "[rq_id ?rq]"]) (auto simp: decode_one_def Let_def al idx set_upd)
  qed
qed

lemma decode_loop_steps:
  assumes "batch_inv t reqs rn" and "rn_step_index rn = si" and "distinct js" and "\<forall>i \<in> set js. decodable rn i"
    and "fold (decode_one si) js (decoded, rn) = (decoded', rn')"
  shows "\<exists>ds. decoded' = decoded @ ds \<and> slot_steps si 0 ds rn rn' \<and>
    subseq ds (map (\<lambda>i. rq_id (sd_request (rn_states rn ! i))) js) \<and> (js \<noteq> [] \<longrightarrow> work rn' < work rn)"
  using assms
proof (induction js arbitrary: decoded rn)
  case Nil
  then show ?case by (simp add: slot_steps.stay)
next
  case (Cons i rest)
  note inv = Cons.prems(1)
  obtain decoded1 rn1 where one: "decode_one si i (decoded, rn) = (decoded1, rn1)" by fastforce
  with inv Cons.prems(4) obtain ds where ds: "decoded1 = decoded @ ds" "slot_step si 0 ds rn rn1" "same_others i rn rn1"
    "ds = [] \<or> ds = [rq_id (sd_request (rn_states rn ! i))]"
    by (elim decode_one_step) auto
  have inv1: "batch_inv t reqs rn1" "rn_step_index rn1 = si"
    using slot_steps_inv [OF slot_steps_one [OF ds(2)] inv Cons.prems(2)] by auto
  have "\<forall>j \<in> set rest. decodable rn1 j"
    using Cons.prems(3,4) by (intro same_others_all(2) [OF ds(3)]) auto
  then obtain es where es: "decoded' = decoded1 @ es" "slot_steps si 0 es rn1 rn'"
    "subseq es (map (\<lambda>i. rq_id (sd_request (rn_states rn1 ! i))) rest)"
    using Cons.IH [OF inv1 _ _ ] Cons.prems(3,5) one by auto
  have ids: "map (\<lambda>i. rq_id (sd_request (rn_states rn1 ! i))) rest = map (\<lambda>i. rq_id (sd_request (rn_states rn ! i))) rest"
    using ds(3) Cons.prems(3) by (auto simp: same_others_def)
  have "work rn' < work rn"
    using slot_step_advances(2) [OF ds(2) inv] slot_steps_advances [OF es(2) inv1] by (simp add: advances_def)
  moreover have "slot_steps si 0 (ds @ es) rn rn'"
    using slot_steps_trans [OF slot_steps_one [OF ds(2)] es(2)] by simp
  moreover have "subseq (ds @ es) (map (\<lambda>i. rq_id (sd_request (rn_states rn ! i))) (i # rest))"
    using ds(4) es(3) ids by auto
  ultimately show ?case using ds(1) es(1) by auto
qed

lemma finish_empty_step:
  assumes inv: "batch_inv t reqs rn" and i: "i < length (rn_states rn)"
  shows "finish_empty si i rn = rn \<or> slot_step si 0 [] rn (finish_empty si i rn)"
    and "\<not> sd_done (rn_states rn ! i) \<Longrightarrow> sd_prompt_ready (rn_states rn ! i) \<Longrightarrow>
      rq_max_generated_tokens (sd_request (rn_states rn ! i)) = 0 \<Longrightarrow> slot_step si 0 [] rn (finish_empty si i rn)"
  using slot_step.complete_empty [OF i refl refl, of si] batch_inv_slot(2) [OF inv i]
  by (auto simp: finish_empty_def Let_def set_upd)

lemma finish_loop_steps:
  assumes "batch_inv t reqs rn" and "rn_step_index rn = si" and "\<forall>i \<in> set js. i < length reqs"
  shows "slot_steps si 0 [] rn (fold (finish_empty si) js rn)"
  using assms
proof (induction js arbitrary: rn)
  case Nil
  then show ?case by (simp add: slot_steps.stay)
next
  case (Cons i rest)
  have "slot_steps si 0 [] rn (finish_empty si i rn)"
    using finish_empty_step(1) [OF Cons.prems(1), of i si] Cons.prems slot_steps.stay slot_steps_one
      batch_inv_kv(4) [OF Cons.prems(1)] by (metis list.set_intros(1))
  moreover from this Cons have "slot_steps si 0 [] (finish_empty si i rn) (fold (finish_empty si) rest (finish_empty si i rn))"
    using slot_steps_inv by (metis list.set_intros(2))
  ultimately show ?case using slot_steps_trans by fastforce
qed

lemma finish_loop_progress:
  assumes inv: "batch_inv t reqs rn" and si: "rn_step_index rn = si" and js: "\<forall>i \<in> set js. i < length reqs"
    and i: "i \<in> set js" "\<not> sd_done (rn_states rn ! i)" "sd_prompt_ready (rn_states rn ! i)"
      "rq_max_generated_tokens (sd_request (rn_states rn ! i)) = 0"
  shows "work (fold (finish_empty si) js rn) < work rn"
  using js i(1)
proof (induction js)
  case (Cons j rest)
  show ?case
  proof (cases "finish_empty si j rn = rn")
    case True
    then have "j \<noteq> i"
      using slot_step_advances(2) [OF finish_empty_step(2) [OF inv _ i(2-4)] inv] Cons.prems batch_inv_kv(4) [OF inv]
      by (metis list.set_intros(1) nat_less_le)
    with Cons True show ?thesis by simp
  next
    case False
    then have step: "slot_step si 0 [] rn (finish_empty si j rn)"
      using finish_empty_step(1) [OF inv] Cons.prems batch_inv_kv(4) [OF inv] by auto
    have "batch_inv t reqs (finish_empty si j rn)" "rn_step_index (finish_empty si j rn) = si"
      using slot_steps_inv [OF slot_steps_one [OF step] inv si] by auto
    then have "work (fold (finish_empty si) rest (finish_empty si j rn)) \<le> work (finish_empty si j rn)"
      using slot_steps_advances [OF finish_loop_steps] Cons.prems by (fastforce simp: advances_def)
    with slot_step_advances(2) [OF step inv] show ?thesis by simp
  qed
qed simp

subsection \<open>The candidates\<close>

lemma states_indexed:
  assumes "batch_inv t reqs rn"
  shows "map sd_index (rn_states rn) = [0..<length reqs]"
  using batch_inv_slot(2) [OF assms] batch_inv_kv(4) [OF assms] by (intro nth_equalityI) auto

lemma candidates:
  assumes "batch_inv t reqs rn"
  shows "set (map sd_index (std_sort by_priority (filter P (rn_states rn)))) = {i. i < length reqs \<and> P (rn_states rn ! i)}"
    and "distinct (map sd_index (std_sort by_priority (filter P (rn_states rn))))"
proof -
  have idx: "sd_index (rn_states rn ! i) = i" if "i < length reqs" for i
    using batch_inv_slot(2) [OF assms] batch_inv_kv(4) [OF assms] that by simp
  show "set (map sd_index (std_sort by_priority (filter P (rn_states rn)))) = {i. i < length reqs \<and> P (rn_states rn ! i)}"
    using idx batch_inv_kv(4) [OF assms] by (force simp: in_set_conv_nth)
  show "distinct (map sd_index (std_sort by_priority (filter P (rn_states rn))))"
    using states_indexed [OF assms] distinct_map_filter [of sd_index "rn_states rn" P]
    by (simp add: distinct_map_std_sort)
qed

lemma prefill_candidates_spec:
  assumes "batch_inv t reqs rn"
  shows "set (prefill_candidates (rn_states rn)) = {i. waiting rn i}" "distinct (prefill_candidates (rn_states rn))"
  using candidates [OF assms] batch_inv_kv(4) [OF assms] by (auto simp: prefill_candidates_def waiting_def)

lemma decode_candidates_spec:
  assumes "batch_inv t reqs rn"
  shows "set (decode_candidates (rn_states rn)) = {i. decodable rn i}" "distinct (decode_candidates (rn_states rn))"
  using candidates [OF assms] batch_inv_kv(4) [OF assms] by (auto simp: decode_candidates_def decodable_def)

subsection \<open>A scheduler step\<close>

definition step_record :: "int \<Rightarrow> int \<Rightarrow> string list \<Rightarrow> run_state \<Rightarrow> SchedulerStep" where
  "step_record queued p ds rn =
     \<lparr>ss_step_index = rn_step_index rn, ss_prefill_tokens = p, ss_decoded_tokens = int (length ds),
      ss_queued_sequences = queued,
      ss_active_sequences = int (length (filter (\<lambda>state. \<not> sd_done state \<and> sd_prompt_ready state) (rn_states rn))),
      ss_kv_blocks_used = st_used_blocks (Stats (rn_allocator rn)), ss_decoded_sequence_ids = ds\<rparr>"

definition record_step :: "int \<Rightarrow> int \<Rightarrow> string list \<Rightarrow> run_state \<Rightarrow> run_state" where
  "record_step queued p ds rn = rn\<lparr>rn_steps := rn_steps rn @ [step_record queued p ds rn],
     rn_prefill_steps := rn_prefill_steps rn + (if 0 < p then 1 else 0),
     rn_decode_steps := rn_decode_steps rn + (if ds \<noteq> [] then 1 else 0),
     rn_total_generated := rn_total_generated rn + int (length ds), rn_step_index := rn_step_index rn + 1\<rparr>"

lemma unfinished_pos: "0 < unfinished_count states \<longleftrightarrow> (\<exists>st \<in> set states. \<not> sd_done st)"
  by (auto simp: unfinished_count_def filter_empty_conv)

lemma unfinished_slot:
  assumes "batch_inv t reqs rn" and "0 < unfinished_count (rn_states rn)"
  obtains i where "i < length reqs" "\<not> sd_done (rn_states rn ! i)"
  using assms batch_inv_kv(4) [OF assms(1)] by (auto simp: unfinished_pos in_set_conv_nth)

text \<open>A step without prefill and decode candidates completes the requests that generate nothing.\<close>

lemma idle_step_progress:
  assumes inv: "batch_inv t reqs rn" and unf: "0 < unfinished_count (rn_states rn)"
    and idle: "\<forall>i. \<not> waiting rn i" "\<forall>i. \<not> decodable rn i"
  shows "work (fold (finish_empty (rn_step_index rn)) [0..<length (rn_states rn)] rn) < work rn"
proof -
  note len = batch_inv_kv(4) [OF inv]
  obtain i where i: "i < length reqs" "\<not> sd_done (rn_states rn ! i)" using unfinished_slot [OF inv unf] .
  with idle len have ready: "sd_prompt_ready (rn_states rn ! i)" and
    "\<not> sd_generated (rn_states rn ! i) < rq_max_generated_tokens (sd_request (rn_states rn ! i))"
    by (auto simp: waiting_def decodable_def)
  with batch_inv_slot(3) [OF inv, of i] i len have "rq_max_generated_tokens (sd_request (rn_states rn ! i)) = 0"
    by (auto simp: slot_ok_def)
  with finish_loop_progress [OF inv refl _ _ i(2) ready] i(1) len show ?thesis by simp
qed

lemma scheduler_step_spec:
  assumes inv: "batch_inv t reqs rn" and unf: "0 < unfinished_count (rn_states rn)"
    and cfg: "0 < cb_max_prefill_tokens_per_step config" "0 < cb_max_decode_sequences_per_step config"
  obtains p ds rn3 where "slot_steps (rn_step_index rn) p ds rn rn3" "work rn3 < work rn"
    "p \<le> cb_max_prefill_tokens_per_step config" "int (length ds) \<le> cb_max_decode_sequences_per_step config"
    "scheduler_step config rn = record_step (int (unfinished_count (rn_states rn))) p ds rn3"
proof -
  let ?si = "rn_step_index rn"
  obtain p rn1 where pre: "prefill_loop (prefill_candidates (rn_states rn)) (cb_max_prefill_tokens_per_step config) 0 rn = (p, rn1)"
    by fastforce
  have 1: "slot_steps ?si p [] rn rn1" "p \<le> cb_max_prefill_tokens_per_step config"
    "prefill_candidates (rn_states rn) \<noteq> [] \<Longrightarrow> work rn1 < work rn"
    using prefill_loop_steps [OF inv refl _ _ pre] prefill_candidates_spec [OF inv] cfg(1) by auto
  have inv1: "batch_inv t reqs rn1" "rn_step_index rn1 = ?si" using slot_steps_inv [OF 1(1) inv] by auto
  define js where "js = take (nat (min (cb_max_decode_sequences_per_step config)
    (int (length (decode_candidates (rn_states rn1)))))) (decode_candidates (rn_states rn1))"
  have js: "distinct js" "\<forall>i \<in> set js. decodable rn1 i" "js = [] \<longleftrightarrow> decode_candidates (rn_states rn1) = []"
    "int (length js) \<le> cb_max_decode_sequences_per_step config"
    using decode_candidates_spec [OF inv1(1)] cfg(2) by (auto simp: js_def min_le_iff_disj dest: in_set_takeD)
  obtain ds rn2 where dec: "fold (decode_one ?si) js ([], rn1) = (ds, rn2)" by fastforce
  have 2: "slot_steps ?si 0 ds rn1 rn2" "length ds \<le> length js" "js \<noteq> [] \<Longrightarrow> work rn2 < work rn1"
    using decode_loop_steps [OF inv1 js(1,2) dec] by (auto dest: list_emb_length)
  have inv2: "batch_inv t reqs rn2" "rn_step_index rn2 = ?si" using slot_steps_inv [OF 2(1) inv1] by auto
  define rn3 where "rn3 = fold (finish_empty ?si) [0..<length (rn_states rn2)] rn2"
  have 3: "slot_steps ?si 0 [] rn2 rn3"
    unfolding rn3_def using batch_inv_kv(4) [OF inv2(1)] by (intro finish_loop_steps [OF inv2]) simp
  have le: "work rn3 \<le> work rn2" "work rn2 \<le> work rn1" "work rn1 \<le> work rn"
    using slot_steps_advances [OF 3 inv2] slot_steps_advances [OF 2(1) inv1] slot_steps_advances [OF 1(1) inv]
    by (auto simp: advances_def)
  have "work rn3 < work rn"
  proof (cases "prefill_candidates (rn_states rn) = [] \<and> js = []")
    case True
    then have "rn1 = rn" using pre by simp
    moreover have "rn2 = rn1" using dec True by simp
    ultimately show ?thesis
      using idle_step_progress [OF inv unf] True prefill_candidates_spec(1) [OF inv] decode_candidates_spec(1) [OF inv1(1)] js(3)
      by (auto simp: rn3_def)
  qed (use 1(3) 2(3) le in linarith)
  moreover have "slot_steps ?si p ds rn rn3"
    using slot_steps_trans [OF slot_steps_trans [OF 1(1) 2(1)] 3] by simp
  moreover from this have "rn_step_index rn3 = ?si" using slot_steps_inv [OF _ inv] by blast
  then have "scheduler_step config rn = record_step (int (unfinished_count (rn_states rn))) p ds rn3"
    using pre dec by (simp add: scheduler_step_def Let_def flip: js_def rn3_def)
      (simp add: record_step_def step_record_def)
  ultimately show ?thesis using 1(2) 2(2) js(4) by (intro that) auto
qed

end
