(* ===== verification/Batcher_Run.thy ===== *)
theory Batcher_Run
  imports Batcher_Correct
begin

text \<open>
  The whole of \<open>ContinuousBatcher::Run\<close>: the loop invariant \<open>run_ok\<close> adds to the slots what the
  statistics count, every iteration preserves it and decreases \<open>work\<close>, so the loop returns; what the
  returned run looks like is read off the invariant.
\<close>

subsection \<open>Cancellation\<close>

lemma cancel_one_eq:
  assumes core: "batch_core t reqs rn" and i: "i < length reqs" and go: "\<not> sd_done (rn_states rn ! i)"
  shows "cancel_one i rn = upd i ((rn_states rn ! i)\<lparr>sd_done := True\<rparr>)
    ((rn_results rn ! i)\<lparr>rs_status := kCancelled, rs_message := ''cancelled''\<rparr>)
    (ReleaseSequence (rq_id (sd_request (rn_states rn ! i))) (rn_allocator rn)) rn"
  using assms by (simp add: cancel_one_def Let_def batch_core_def set_upd)

lemma cancel_one_core:
  assumes core: "batch_core t reqs rn" and i: "i < length reqs"
  shows "batch_core t reqs (cancel_one i rn)"
proof (cases "sd_done (rn_states rn ! i)")
  case True
  with core show ?thesis by (simp add: cancel_one_def)
next
  case False
  let ?st = "rn_states rn ! i" let ?al = "ReleaseSequence (rq_id (sd_request ?st)) (rn_allocator rn)"
  have kv: "kv_inv (rn_allocator rn)" "kv_per_block (rn_allocator rn) = t" "length (rn_states rn) = length reqs"
    and slot: "sd_index ?st = i" "slot_ok t (rn_step_index rn) (reqs ! i) ?st (rn_results rn ! i)"
    using core i by (auto simp: batch_core_def)
  show ?thesis unfolding cancel_one_eq [OF core i False]
  proof (rule batch_core_upd [OF core])
    show "slot_ok t (rn_step_index rn) (reqs ! i) (?st\<lparr>sd_done := True\<rparr>)
      ((rn_results rn ! i)\<lparr>rs_status := kCancelled, rs_message := ''cancelled''\<rparr>)"
      using slot(2) False by (simp add: slot_ok_def final_ok_def)
    fix sid assume "kv_view ?al sid \<noteq> None"
    then have sid: "sid \<noteq> rq_id (sd_request ?st)" "kv_view (rn_allocator rn) sid \<noteq> None"
      using kvc.release_view [OF kv(1)] by (auto split: if_splits)
    obtain j where j: "j < length reqs" "holding (rn_states rn ! j)" "rq_id (sd_request (rn_states rn ! j)) = sid"
      using batch_core_holder [OF core sid(2)] .
    then have "j \<noteq> i" using sid(1) by blast
    with j show "\<exists>j < length reqs. holding ((rn_states rn)[i := ?st\<lparr>sd_done := True\<rparr>] ! j) \<and>
        rq_id (sd_request ((rn_states rn)[i := ?st\<lparr>sd_done := True\<rparr>] ! j)) = sid"
      by (intro exI [of _ j]) simp
  qed (use kv slot i kvc.invar_release [OF kv(1)] kvc.per_block_release [OF kv(1)] in simp_all)
qed

text \<open>What cancelling leaves alone.\<close>

definition cancels :: "run_state \<Rightarrow> run_state \<Rightarrow> bool" where
  "cancels rn rn' \<longleftrightarrow> remaining_sum rn' = remaining_sum rn \<and> generated_sum rn' = generated_sum rn \<and>
     rn_steps rn' = rn_steps rn \<and> rn_prefill_steps rn' = rn_prefill_steps rn \<and>
     rn_decode_steps rn' = rn_decode_steps rn \<and> rn_total_generated rn' = rn_total_generated rn \<and>
     rn_polls rn' = rn_polls rn \<and> rn_step_index rn' = rn_step_index rn \<and>
     map rs_completion_step (rn_results rn') = map rs_completion_step (rn_results rn) \<and>
     map rs_first_token_step (rn_results rn') = map rs_first_token_step (rn_results rn) \<and>
     length (rn_states rn') = length (rn_states rn) \<and> kv_step\<^sup>*\<^sup>* (rn_allocator rn) (rn_allocator rn')"

lemma cancel_one_cancels:
  assumes core: "batch_core t reqs rn" and i: "i < length reqs"
  shows "cancels rn (cancel_one i rn)" and "sd_done (rn_states (cancel_one i rn) ! i)"
    and "sd_done (rn_states rn ! j) \<Longrightarrow> sd_done (rn_states (cancel_one i rn) ! j)"
proof -
  have len: "i < length (rn_states rn)" "i < length (rn_results rn)" using assms by (simp_all add: batch_core_def)
  have same: "map f ((rn_results rn)[i := x]) = map f (rn_results rn)" if "f x = f (rn_results rn ! i)" for f :: "_ \<Rightarrow> int" and x
    using that len(2) by (simp add: map_update list_update_same_conv)
  show "cancels rn (cancel_one i rn)" "sd_done (rn_states (cancel_one i rn) ! i)"
    and "sd_done (rn_states rn ! j) \<Longrightarrow> sd_done (rn_states (cancel_one i rn) ! j)"
    using cancel_one_eq [OF assms] len
    by (cases "sd_done (rn_states rn ! i)"; auto simp: same cancels_def remaining_sum_def generated_sum_def sum_list_upd_int
        nth_list_update kv_step.release cancel_one_def)+
qed

lemma cancel_loop:
  assumes "batch_core t reqs rn" and "\<forall>i \<in> set js. i < length reqs"
  shows "batch_core t reqs (fold cancel_one js rn) \<and> cancels rn (fold cancel_one js rn) \<and>
    (\<forall>i. i \<in> set js \<or> sd_done (rn_states rn ! i) \<longrightarrow> sd_done (rn_states (fold cancel_one js rn) ! i))"
  using assms
proof (induction js arbitrary: rn)
  case Nil
  then show ?case by (simp add: cancels_def)
next
  case (Cons i rest)
  then have i: "i < length reqs" by simp
  note one = cancel_one_core [OF Cons.prems(1) i] cancel_one_cancels [OF Cons.prems(1) i]
  from Cons.IH [OF one(1)] Cons.prems(2) one(2-4) show ?case
    by (auto simp: cancels_def)
qed

lemma all_done_inv:
  assumes "batch_core t reqs rn" and "\<forall>i < length reqs. sd_done (rn_states rn ! i)"
  shows "batch_inv t reqs rn" and "work rn = 0"
  using assms by (auto simp: batch_inv_def batch_core_def holding_def work_def in_set_conv_nth slot_work_def)

lemma cancel_all:
  assumes inv: "batch_inv t reqs rn"
  shows "batch_inv t reqs (fold cancel_one [0..<length (rn_states rn)] rn)"
    and "cancels rn (fold cancel_one [0..<length (rn_states rn)] rn)"
    and "work (fold cancel_one [0..<length (rn_states rn)] rn) = 0"
proof -
  have core: "batch_core t reqs rn" and len: "length (rn_states rn) = length reqs"
    using inv by (auto simp: batch_inv_def batch_core_def)
  note loop = cancel_loop [OF core, of "[0..<length reqs]"]
  show "batch_inv t reqs (fold cancel_one [0..<length (rn_states rn)] rn)"
    "cancels rn (fold cancel_one [0..<length (rn_states rn)] rn)"
    "work (fold cancel_one [0..<length (rn_states rn)] rn) = 0"
    using loop all_done_inv by (auto simp: len)
qed

subsection \<open>The loop invariant\<close>

definition step_ok :: "ContinuousBatcherConfig \<Rightarrow> nat \<Rightarrow> SchedulerStep \<Rightarrow> bool" where
  "step_ok config k step \<longleftrightarrow> ss_step_index step = int k \<and>
     0 \<le> ss_prefill_tokens step \<and> ss_prefill_tokens step \<le> cb_max_prefill_tokens_per_step config \<and>
     ss_decoded_tokens step = int (length (ss_decoded_sequence_ids step)) \<and>
     ss_decoded_tokens step \<le> cb_max_decode_sequences_per_step config \<and>
     0 \<le> ss_kv_blocks_used step \<and> ss_kv_blocks_used step \<le> cb_kv_cache_blocks config"

definition kv_config_of :: "ContinuousBatcherConfig \<Rightarrow> KvCacheConfig" where
  "kv_config_of config = \<lparr>cfg_total_blocks = cb_kv_cache_blocks config, cfg_tokens_per_block = cb_kv_block_tokens config\<rparr>"

definition batcher_config_ok :: "ContinuousBatcherConfig \<Rightarrow> bool" where
  "batcher_config_ok config \<longleftrightarrow> 0 < cb_max_prefill_tokens_per_step config \<and> 0 < cb_max_decode_sequences_per_step config \<and>
     0 < cb_kv_cache_blocks config \<and> 0 < cb_kv_block_tokens config"

definition steps_ok :: "ContinuousBatcherConfig \<Rightarrow> run_state \<Rightarrow> bool" where
  "steps_ok config rn \<longleftrightarrow> rn_step_index rn = int (length (rn_steps rn)) \<and>
     (\<forall>k < length (rn_steps rn). step_ok config k (rn_steps rn ! k)) \<and>
     rn_prefill_steps rn = int (length (filter (\<lambda>step. 0 < ss_prefill_tokens step) (rn_steps rn))) \<and>
     rn_decode_steps rn = int (length (filter (\<lambda>step. 0 < ss_decoded_tokens step) (rn_steps rn))) \<and>
     rn_total_generated rn = sum_list (map ss_decoded_tokens (rn_steps rn))"

definition times_ok :: "run_state \<Rightarrow> bool" where
  "times_ok rn \<longleftrightarrow> (\<forall>x \<in> set (map rs_completion_step (rn_results rn)). x < rn_step_index rn) \<and>
     (\<forall>x \<in> set (map rs_first_token_step (rn_results rn)). x < rn_step_index rn)"

definition run_ok :: "ContinuousBatcherConfig \<Rightarrow> SequenceRequest list \<Rightarrow> nat \<Rightarrow> run_state \<Rightarrow> bool" where
  "run_ok config reqs w rn \<longleftrightarrow> batch_inv (cb_kv_block_tokens config) reqs rn \<and> steps_ok config rn \<and> times_ok rn \<and>
     length (rn_steps rn) + work rn \<le> w \<and> rn_total_generated rn = generated_sum rn \<and>
     sum_list (map ss_prefill_tokens (rn_steps rn)) + remaining_sum rn = sum_list (map rq_prompt_tokens reqs) \<and>
     kv_config (rn_allocator rn) = kv_config_of config \<and> kv_reachable (kv_config_of config) (rn_allocator rn)"

lemma ContinuousBatcher_ok: "batcher_config_ok (ContinuousBatcher config)"
  by (simp add: batcher_config_ok_def ContinuousBatcher_def ClampPositive_def)

lemma used_blocks_bounds:
  assumes "kv_inv impl"
  shows "0 \<le> st_used_blocks (Stats impl)" and "st_used_blocks (Stats impl) \<le> cfg_total_blocks (kv_config impl)"
proof -
  have "int (length (filter (\<lambda>b. \<not> occupied b) (kv_blocks impl))) \<le> int (length (kv_blocks impl))" by simp
  with assms show "0 \<le> st_used_blocks (Stats impl)" and "st_used_blocks (Stats impl) \<le> cfg_total_blocks (kv_config impl)"
    by (auto simp: Stats_def UsedBlockCount_def FreeBlockCount_def kv_inv_def kv_invp_def config_ok_def)
qed

lemma slot_ok_later: "slot_ok t si req st res \<Longrightarrow> si \<le> si' \<Longrightarrow> slot_ok t si' req st res"
  by (auto simp: slot_ok_def final_ok_def split: if_splits SequenceStatus.splits)

lemma record_step_inv: "batch_inv t reqs rn \<Longrightarrow> batch_inv t reqs (record_step queued p ds rn)"
  by (auto simp: batch_inv_def batch_core_def record_step_def intro: slot_ok_later)

lemma slot_ok_times:
  "slot_ok t si req st res \<Longrightarrow> 0 \<le> si \<Longrightarrow> rs_completion_step res \<le> si \<and> rs_first_token_step res \<le> si"
  by (auto simp: slot_ok_def final_ok_def split: if_splits SequenceStatus.splits)

lemma record_step_times:
  assumes "batch_inv t reqs rn"
  shows "times_ok (record_step queued p ds rn)"
proof -
  have "rs_completion_step res \<le> rn_step_index rn \<and> rs_first_token_step res \<le> rn_step_index rn"
    if res: "res \<in> set (rn_results rn)" for res
  proof -
    obtain i where "i < length reqs" "res = rn_results rn ! i"
      using res batch_inv_kv(5) [OF assms] by (auto simp: in_set_conv_nth)
    then show ?thesis
      using slot_ok_times batch_inv_slot(3) [OF assms, of i] batch_inv_kv(3,4) [OF assms] by auto
  qed
  then show ?thesis by (force simp: times_ok_def record_step_def)
qed

lemma polls_inv [simp]: "batch_inv t reqs (rn_polls_update f rn) = batch_inv t reqs rn"
  by (simp add: batch_inv_def batch_core_def)

lemma polls_frame [simp]:
  "work (rn_polls_update f rn) = work rn" "remaining_sum (rn_polls_update f rn) = remaining_sum rn"
  "generated_sum (rn_polls_update f rn) = generated_sum rn" "steps_ok config (rn_polls_update f rn) = steps_ok config rn"
  "times_ok (rn_polls_update f rn) = times_ok rn"
  by (simp_all add: times_ok_def work_def remaining_sum_def generated_sum_def steps_ok_def)

lemma polls_run_ok [simp]: "run_ok config reqs w (rn_polls_update f rn) = run_ok config reqs w rn"
  by (simp add: run_ok_def)

lemma steps_ok_record:
  assumes "steps_ok config rn" and "step_ok config (length (rn_steps rn)) (step_record queued p ds rn)"
  shows "steps_ok config (record_step queued p ds rn)"
  using assms by (auto simp: steps_ok_def record_step_def step_record_def nth_append less_Suc_eq)

lemma scheduler_step_run_ok:
  assumes ok: "run_ok config reqs w rn" and cfg: "batcher_config_ok config" and unf: "0 < unfinished_count (rn_states rn)"
  shows "run_ok config reqs w (scheduler_step config rn) \<and> work (scheduler_step config rn) < work rn"
proof -
  let ?q = "int (unfinished_count (rn_states rn))" and ?t = "cb_kv_block_tokens config"
  have inv: "batch_inv ?t reqs rn" using ok by (simp add: run_ok_def)
  obtain p ds rn3 where s: "slot_steps (rn_step_index rn) p ds rn rn3" "work rn3 < work rn"
    "p \<le> cb_max_prefill_tokens_per_step config" "int (length ds) \<le> cb_max_decode_sequences_per_step config"
    "scheduler_step config rn = record_step ?q p ds rn3"
    using scheduler_step_spec [OF inv unf, of config] cfg by (auto simp: batcher_config_ok_def)
  have inv3: "batch_inv ?t reqs rn3" "rn_step_index rn3 = rn_step_index rn" using slot_steps_inv [OF s(1) inv] by auto
  have adv: "advances p ds rn rn3" using slot_steps_advances [OF s(1) inv] by simp
  have kv: "kv_config (rn_allocator rn3) = kv_config_of config" "kv_reachable (kv_config_of config) (rn_allocator rn3)"
    using adv ok kv_steps_config kv_steps_reachable batch_inv_kv(1) [OF inv] by (auto simp: advances_def run_ok_def)
  have steps: "steps_ok config rn3"
    using ok adv by (simp add: run_ok_def steps_ok_def advances_def)
  have "step_ok config (length (rn_steps rn3)) (step_record ?q p ds rn3)"
    using steps adv s(3,4) used_blocks_bounds [OF batch_inv_kv(1) [OF inv3(1)]] kv(1)
    by (simp add: step_ok_def step_record_def steps_ok_def advances_def kv_config_of_def)
  with steps have "steps_ok config (record_step ?q p ds rn3)" by (rule steps_ok_record)
  moreover have "work (record_step ?q p ds rn3) = work rn3" "generated_sum (record_step ?q p ds rn3) = generated_sum rn3"
    "remaining_sum (record_step ?q p ds rn3) = remaining_sum rn3"
    by (simp_all add: work_def generated_sum_def remaining_sum_def record_step_def)
  ultimately show ?thesis
    using ok adv s(2) kv record_step_inv [OF inv3(1)] record_step_times [OF inv3(1)] unfolding s(5)
    by (simp add: run_ok_def advances_def) (simp add: record_step_def step_record_def)
qed

lemma cancel_run_ok:
  assumes ok: "run_ok config reqs w rn" and unf: "0 < unfinished_count (rn_states rn)"
  shows "run_ok config reqs w (fold cancel_one [0..<length (rn_states rn)] rn) \<and>
    work (fold cancel_one [0..<length (rn_states rn)] rn) < work rn"
proof -
  let ?rn = "fold cancel_one [0..<length (rn_states rn)] rn"
  have inv: "batch_inv (cb_kv_block_tokens config) reqs rn" using ok by (simp add: run_ok_def)
  note all = cancel_all [OF inv]
  obtain st where "st \<in> set (rn_states rn)" "0 < slot_work st" using unf by (auto simp: unfinished_pos slot_work_def)
  then have pos: "0 < work rn" using member_le_sum_list [of "slot_work st" "map slot_work (rn_states rn)"] by (simp add: work_def)
  have kv: "kv_config (rn_allocator ?rn) = kv_config_of config" "kv_reachable (kv_config_of config) (rn_allocator ?rn)"
    using all(2) ok kv_steps_config kv_steps_reachable batch_inv_kv(1) [OF inv] by (auto simp: cancels_def run_ok_def)
  have "times_ok ?rn" using ok all(2) unfolding times_ok_def run_ok_def cancels_def by metis
  then show ?thesis
    using ok all pos kv by (simp add: run_ok_def cancels_def steps_ok_def)
qed

subsection \<open>The loop\<close>

lemma run_body_ok:
  assumes ok: "run_ok config reqs w rn" and cfg: "batcher_config_ok config" and unf: "0 < unfinished_count (rn_states rn)"
  shows "run_ok config reqs w (run_body config cancel rn) \<and> work (run_body config cancel rn) < work rn"
proof -
  let ?rn = "rn\<lparr>rn_polls := Suc (rn_polls rn)\<rparr>"
  have "run_ok config reqs w ?rn" "0 < unfinished_count (rn_states ?rn)" using ok unf by simp_all
  from cancel_run_ok [OF this] scheduler_step_run_ok [OF this(1) cfg this(2)] show ?thesis
    by (simp add: run_body_def Let_def)
qed

lemma run_init_ok:
  assumes cfg: "batcher_config_ok config"
  shows "run_ok config (map clamp_request requests) (work (run_init config requests polls)) (run_init config requests polls)"
proof -
  let ?al = "Impl (kv_config_of config)"
  have al: "kv_config ?al = kv_config_of config" "kv_view ?al = (\<lambda>_. None)"
    using cfg by (auto simp: Impl_def Let_def kv_config_of_def batcher_config_ok_def ClampPositive_def kv_view_def)
  then have "kv_per_block ?al = cb_kv_block_tokens config" by (simp add: kv_per_block_def kv_config_of_def)
  moreover have "slot_ok t 0 (clamp_request r) (initial_state i (clamp_request r)) (initial_result (clamp_request r))" for t i r
    by (simp add: slot_ok_def initial_state_def initial_result_def clamp_request_def)
  ultimately have "batch_inv (cb_kv_block_tokens config) (map clamp_request requests) (run_init config requests polls)"
    using al Impl_inv by (simp add: batch_inv_def batch_core_def run_init_def holding_def initial_state_def
        flip: kv_config_of_def)
  moreover have "map (sd_prefill_remaining \<circ> (\<lambda>i. initial_state i (clamp_request (requests ! i)))) [0..<length requests] =
      map rq_prompt_tokens (map clamp_request requests)"
    by (auto intro!: nth_equalityI simp: initial_state_def)
  ultimately show ?thesis
    using al kv_reachable.start [of "kv_config_of config"]
    by (simp add: run_ok_def steps_ok_def times_ok_def run_init_def generated_sum_def remaining_sum_def initial_state_def
        initial_result_def comp_def
        flip: kv_config_of_def)
qed

lemma run_loop_ok:
  assumes cfg: "batcher_config_ok config" and ok: "run_ok config reqs w rn"
  shows "\<exists>rn'. run_loop config cancel rn = Some rn' \<and> run_ok config reqs w rn' \<and> unfinished_count (rn_states rn') = 0"
proof -
  note body = run_body_ok [OF _ cfg, of reqs w _ cancel]
  have "\<exists>rn'. run_loop config cancel rn = Some rn'"
    unfolding run_loop_def by (rule measure_while_option_Some [where P = "run_ok config reqs w" and f = work, OF body ok])
  then obtain rn' where *: "run_loop config cancel rn = Some rn'" ..
  moreover have "run_ok config reqs w rn'"
    by (rule while_option_rule [where P = "run_ok config reqs w", OF _ * [unfolded run_loop_def] ok]) (use body in blast)
  moreover have "\<not> 0 < unfinished_count (rn_states rn')"
    using * while_option_stop unfolding run_loop_def by fastforce
  ultimately show ?thesis by simp
qed

text \<open>The final state behind a returned run.\<close>

lemma Run_final_loop:
  obtains rn where "run_loop (ContinuousBatcher config) cancel (run_init (ContinuousBatcher config) requests polls) = Some rn"
    "Run config requests cancel polls = Some (run_finish requests rn, rn_polls rn)"
    "run_ok (ContinuousBatcher config) (map clamp_request requests)
       (work (run_init (ContinuousBatcher config) requests polls)) rn"
    "\<forall>i < length requests. sd_done (rn_states rn ! i)"
proof -
  obtain rn where rn: "run_loop (ContinuousBatcher config) cancel (run_init (ContinuousBatcher config) requests polls) = Some rn"
    "run_ok (ContinuousBatcher config) (map clamp_request requests)
       (work (run_init (ContinuousBatcher config) requests polls)) rn" "unfinished_count (rn_states rn) = 0"
    using run_loop_ok [OF ContinuousBatcher_ok run_init_ok [OF ContinuousBatcher_ok]] by blast
  have "length (rn_states rn) = length requests"
    using rn(2) batch_inv_kv(4) by (fastforce simp: run_ok_def)
  then have "\<forall>i < length requests. sd_done (rn_states rn ! i)"
    using rn(3) unfinished_pos [of "rn_states rn"] by (metis gr0I less_numeral_extra(3) nth_mem)
  with rn show ?thesis by (intro that [of rn]) (simp_all add: Run_def Let_def)
qed

lemma Run_final:
  obtains rn where "Run config requests cancel polls = Some (run_finish requests rn, rn_polls rn)"
    "run_ok (ContinuousBatcher config) (map clamp_request requests)
       (work (run_init (ContinuousBatcher config) requests polls)) rn"
    "\<forall>i < length requests. sd_done (rn_states rn ! i)"
  using Run_final_loop .

text \<open>
  Facts of the final state by induction on the transitions. \<open>P ds rn\<close> speaks of a state in the middle of a step in
  which \<open>ds\<close> has been decoded so far; the record of the step moves \<open>ds\<close> into the steps, and cancellation comes
  between two steps.
\<close>

lemma slot_steps_keep:
  assumes "slot_steps si p ds rn rn'" and "batch_inv t reqs rn" and "rn_step_index rn = si" and "P [] rn"
    and "\<And>p ds es rn rn'. slot_step (rn_step_index rn) p es rn rn' \<Longrightarrow> batch_inv t reqs rn \<Longrightarrow> P ds rn \<Longrightarrow> P (ds @ es) rn'"
  shows "P ds rn'"
  using assms(1-4)
proof (induction rule: slot_steps.induct)
  case (step p ds rn rn1 q es rn2)
  then have "batch_inv t reqs rn1" "rn_step_index rn1 = si" using slot_steps_inv by blast+
  with step show ?case by (intro assms(5)) simp_all
qed simp

lemma cancel_loop_keep:
  assumes "batch_core t reqs rn" and "\<forall>i \<in> set js. i < length reqs" and "P rn"
    and "\<And>i rn. batch_core t reqs rn \<Longrightarrow> i < length reqs \<Longrightarrow> P rn \<Longrightarrow> P (cancel_one i rn)"
  shows "P (fold cancel_one js rn)"
  using assms(1-3)
  by (induction js arbitrary: rn) (auto intro: assms(4) cancel_one_core)

lemma Run_keeps:
  assumes init: "P [] (run_init (ContinuousBatcher config) requests polls)"
    and step: "\<And>p ds es rn rn'. slot_step (rn_step_index rn) p es rn rn' \<Longrightarrow>
      batch_inv (cb_kv_block_tokens (ContinuousBatcher config)) (map clamp_request requests) rn \<Longrightarrow> P ds rn \<Longrightarrow> P (ds @ es) rn'"
    and polls: "\<And>rn n. P [] (rn\<lparr>rn_polls := n\<rparr>) = P [] rn"
    and recorded: "\<And>rn queued p ds. P ds rn \<Longrightarrow> P [] (record_step queued p ds rn)"
    and cancelled: "\<And>k i rn. cancel k \<Longrightarrow> batch_core (cb_kv_block_tokens (ContinuousBatcher config)) (map clamp_request requests) rn \<Longrightarrow>
      i < length requests \<Longrightarrow> P [] rn \<Longrightarrow> P [] (cancel_one i rn)"
  obtains rn where "Run config requests cancel polls = Some (run_finish requests rn, rn_polls rn)"
    "run_ok (ContinuousBatcher config) (map clamp_request requests)
       (work (run_init (ContinuousBatcher config) requests polls)) rn"
    "\<forall>i < length requests. sd_done (rn_states rn ! i)" "P [] rn"
proof -
  let ?config = "ContinuousBatcher config" and ?reqs = "map clamp_request requests"
  let ?init = "run_init ?config requests polls"
  let ?J = "\<lambda>rn. run_ok ?config ?reqs (work ?init) rn \<and> P [] rn"
  obtain rn where rn: "run_loop ?config cancel ?init = Some rn" "Run config requests cancel polls = Some (run_finish requests rn, rn_polls rn)"
    "run_ok ?config ?reqs (work ?init) rn" "\<forall>i < length requests. sd_done (rn_states rn ! i)"
    using Run_final_loop .
  have "?J rn"
  proof (rule while_option_rule [where P = ?J, OF _ rn(1) [unfolded run_loop_def]])
    fix rn assume "?J rn" and unf: "0 < unfinished_count (rn_states rn)"
    then have ok: "run_ok ?config ?reqs (work ?init) rn" and "P [] rn" by simp_all
    let ?rn = "rn\<lparr>rn_polls := Suc (rn_polls rn)\<rparr>"
    have inv: "batch_inv (cb_kv_block_tokens ?config) ?reqs ?rn" "0 < unfinished_count (rn_states ?rn)" "P [] ?rn"
      using ok unf \<open>P [] rn\<close> polls by (simp_all add: run_ok_def)
    have "P [] (run_body ?config cancel rn)"
    proof (cases "cancel (rn_polls rn)")
      case True
      have "P [] (fold cancel_one [0..<length (rn_states ?rn)] ?rn)"
        by (rule cancel_loop_keep [where P = "P []" and t = "cb_kv_block_tokens ?config" and reqs = ?reqs])
          (use inv cancelled [OF True] batch_inv_kv(4) [OF inv(1)] in \<open>auto simp: batch_inv_def\<close>)
      with True show ?thesis by (simp add: run_body_def Let_def)
    next
      case False
      obtain p ds rn3 where s: "slot_steps (rn_step_index ?rn) p ds ?rn rn3"
        "scheduler_step ?config ?rn = record_step (int (unfinished_count (rn_states ?rn))) p ds rn3"
        using scheduler_step_spec [OF inv(1,2), of ?config] ContinuousBatcher_ok [of config] unfolding batcher_config_ok_def by metis
      have "P ds rn3" by (rule slot_steps_keep [where P = P, OF s(1) inv(1) refl inv(3)]) (rule step)
      with False s(2) recorded show ?thesis by (simp add: run_body_def Let_def)
    qed
    then show "?J (run_body ?config cancel rn)" using run_body_ok [OF ok ContinuousBatcher_ok unf] by simp
  qed (use init run_init_ok [OF ContinuousBatcher_ok] in simp)
  then have "P [] rn" ..
  with rn(2-4) show ?thesis by (rule that)
qed

subsection \<open>What a run returns\<close>

text \<open>What the result says of a request, at \<open>t\<close> tokens per block and after \<open>n\<close> steps.\<close>

definition result_for :: "int \<Rightarrow> nat \<Rightarrow> SequenceRequest \<Rightarrow> SequenceResult \<Rightarrow> bool" where
  "result_for t n req res \<longleftrightarrow> rs_id res = rq_id req \<and> rs_prompt_tokens res = max 0 (rq_prompt_tokens req) \<and>
     0 \<le> rs_generated_tokens res \<and> rs_generated_tokens res \<le> max 0 (rq_max_generated_tokens req) \<and>
     (case rs_status res of
        kCompleted \<Rightarrow> rs_message res = ''completed'' \<and> rs_generated_tokens res = max 0 (rq_max_generated_tokens req) \<and>
          rs_kv_blocks res = prompt_need t (rq_prompt_tokens req) (rq_prefix_cache_key req) (rq_prefix_cache_tokens req) +
            CeilDiv (rs_generated_tokens res) t \<and>
          (if rs_generated_tokens res = 0 then rs_first_token_step res = -1 else 0 \<le> rs_first_token_step res) \<and>
          rs_first_token_step res \<le> rs_completion_step res \<and>
          0 \<le> rs_completion_step res \<and> rs_completion_step res < int n
      | kRejected \<Rightarrow> rs_message res \<in> rejections \<and> rs_completion_step res = -1
      | kCancelled \<Rightarrow> rs_message res = ''cancelled'' \<and> rs_generated_tokens res = 0 \<and> rs_completion_step res = -1)"

lemma prompt_need_clamp [simp]: "prompt_need t (max 0 n) key p = prompt_need t n key p"
  by (simp add: prompt_need_def prompt_cacheable_def)

lemma final_result_for:
  assumes "slot_ok t si (clamp_request req) st res" and "sd_done st" and "rs_completion_step res < int n"
  shows "result_for t n req res"
  using assms
  by (auto simp: slot_ok_def final_ok_def result_for_def clamp_request_def split: SequenceStatus.splits if_splits)

lemma Run_lengths:
  assumes "run_ok config (map clamp_request requests) w rn"
  shows "length (rn_states rn) = length requests" and "length (rn_results rn) = length requests"
  using assms batch_inv_kv(4,5) [of _ _ rn] by (auto simp: run_ok_def)

lemma Run_slots:
  assumes "run_ok config (map clamp_request requests) w rn" and "i < length requests"
  shows "slot_ok (cb_kv_block_tokens config) (rn_step_index rn) (clamp_request (requests ! i)) (rn_states rn ! i) (rn_results rn ! i)"
    and "rs_completion_step (rn_results rn ! i) < int (length (rn_steps rn))"
proof -
  note len = Run_lengths [OF assms(1)]
  have inv: "batch_inv (cb_kv_block_tokens config) (map clamp_request requests) rn" using assms(1) by (simp add: run_ok_def)
  show "slot_ok (cb_kv_block_tokens config) (rn_step_index rn) (clamp_request (requests ! i)) (rn_states rn ! i) (rn_results rn ! i)"
    using batch_inv_slot(3) [OF inv, of i] assms(2) len by simp
  have "rn_results rn ! i \<in> set (rn_results rn)" using assms(2) len by simp
  then show "rs_completion_step (rn_results rn ! i) < int (length (rn_steps rn))"
    using assms(1) by (auto simp: run_ok_def times_ok_def steps_ok_def)
qed

lemma init_work:
  "int (work (run_init config requests polls)) =
     sum_list (map (\<lambda>req. max 0 (rq_prompt_tokens req) + max 0 (rq_max_generated_tokens req) + 3) requests)"
proof -
  have "map slot_work (map (\<lambda>i. initial_state i (clamp_request (requests ! i))) [0..<length requests]) =
      map (\<lambda>req. nat (max 0 (rq_prompt_tokens req)) + nat (max 0 (rq_max_generated_tokens req)) + 3) requests"
    by (auto intro!: nth_equalityI simp: slot_work_def initial_state_def clamp_request_def)
  then have "work (run_init config requests polls) =
      sum_list (map (\<lambda>req. nat (max 0 (rq_prompt_tokens req)) + nat (max 0 (rq_max_generated_tokens req)) + 3) requests)"
    by (simp only: work_def run_init_def run_state.simps)
  moreover have "int (sum_list (map f xs)) = sum_list (map (\<lambda>x. int (f x)) xs)" for f and xs :: "SequenceRequest list"
    by (induction xs) auto
  ultimately show ?thesis by (simp add: int_nat_eq)
qed

subsection \<open>Runs that are never cancelled\<close>

definition uncancelled :: "run_state \<Rightarrow> bool" where
  "uncancelled rn \<longleftrightarrow> (\<forall>res \<in> set (rn_results rn). rs_status res \<noteq> kCancelled)"

lemma uncancelled_upd:
  "uncancelled rn \<Longrightarrow> rs_status res \<noteq> kCancelled \<Longrightarrow> uncancelled (upd i st res al rn)"
  by (auto simp: uncancelled_def dest: set_update_subset_insert [THEN subsetD])

lemma slot_step_uncancelled:
  assumes "slot_step si p ds rn rn'" and "uncancelled rn" and "length (rn_results rn) = length (rn_states rn)"
  shows "uncancelled rn'"
proof -
  have old: "rs_status (rn_results rn ! i) \<noteq> kCancelled" if "i < length (rn_states rn)" for i
    using assms(2,3) that by (simp add: uncancelled_def)
  show ?thesis using assms(1,2) by cases (simp_all add: uncancelled_upd finish_def old)
qed

subsection \<open>Totals\<close>

lemma no_decode_steps:
  assumes "steps_ok config rn" and "rn_decode_steps rn = 0"
  shows "rn_total_generated rn = 0"
proof -
  have "ss_decoded_tokens step = 0" if step: "step \<in> set (rn_steps rn)" for step
  proof -
    have "\<not> 0 < ss_decoded_tokens step"
      using assms step by (auto simp: steps_ok_def filter_empty_conv)
    moreover have "0 \<le> ss_decoded_tokens step"
      using assms(1) step by (auto simp: steps_ok_def step_ok_def in_set_conv_nth)
    ultimately show ?thesis by simp
  qed
  then show ?thesis using assms(1) sum_list_zero [of "rn_steps rn" ss_decoded_tokens] by (simp add: steps_ok_def)
qed

lemma generated_results:
  assumes ok: "run_ok config (map clamp_request requests) w rn"
    and fin: "\<forall>i < length requests. sd_done (rn_states rn ! i)" and "uncancelled rn"
  shows "sum_list (map rs_generated_tokens (rn_results rn)) = rn_total_generated rn"
proof -
  note len = Run_lengths [OF ok]
  have "map rs_generated_tokens (rn_results rn) = map sd_generated (rn_states rn)"
  proof (rule nth_equalityI)
    fix i assume "i < length (map rs_generated_tokens (rn_results rn))"
    then have i: "i < length requests" by (simp add: len)
    then have "rs_status (rn_results rn ! i) \<noteq> kCancelled" using assms(3) len by (simp add: uncancelled_def)
    with Run_slots(1) [OF ok i] fin i len show "map rs_generated_tokens (rn_results rn) ! i = map sd_generated (rn_states rn) ! i"
      by (auto simp: slot_ok_def final_ok_def split: SequenceStatus.splits)
  qed (simp add: len)
  then show ?thesis using ok by (simp add: run_ok_def generated_sum_def)
qed

lemma completed_prefilled:
  assumes ok: "run_ok config (map clamp_request requests) w rn"
    and fin: "\<forall>i < length requests. sd_done (rn_states rn ! i)" and "list_all (\<lambda>res. rs_status res = kCompleted) (rn_results rn)"
  shows "sum_list (map ss_prefill_tokens (rn_steps rn)) = sum_list (map rq_prompt_tokens (map clamp_request requests))"
proof -
  note len = Run_lengths [OF ok]
  have "sd_prefill_remaining st = 0" if st: "st \<in> set (rn_states rn)" for st
  proof -
    obtain i where i: "i < length requests" "st = rn_states rn ! i" using st by (auto simp: in_set_conv_nth len)
    then have "rs_status (rn_results rn ! i) = kCompleted" using assms(3) len by (simp add: list_all_length)
    with Run_slots(1) [OF ok i(1)] fin i show ?thesis by (auto simp: slot_ok_def final_ok_def)
  qed
  then have "remaining_sum rn = 0" unfolding remaining_sum_def by (intro sum_list_zero) simp
  then show ?thesis using ok by (simp add: run_ok_def)
qed

lemma nothing_held:
  assumes ok: "run_ok config (map clamp_request requests) w rn"
    and fin: "\<forall>i < length requests. sd_done (rn_states rn ! i)"
  shows "kv_sequences (rn_allocator rn) = []"
proof -
  have core: "batch_core (cb_kv_block_tokens config) (map clamp_request requests) rn"
    using ok by (simp add: run_ok_def batch_inv_def)
  have "kv_view (rn_allocator rn) sid = None" for sid
    using batch_core_holder [OF core, of sid] fin by (metis holding_def length_map)
  then have "omap_find (kv_sequences (rn_allocator rn)) sid = None" for sid
    by (simp add: kv_view_def)
  moreover have "omap_inv (kv_sequences (rn_allocator rn))"
    using core kv_invp_omap(1) by (auto simp: batch_core_def kv_inv_def)
  ultimately show ?thesis using om.in_entries_iff by (metis list.set_intros(1) neq_Nil_conv option.distinct(1) surj_pair)
qed

lemma Run_final_uncancelled:
  assumes "\<And>k. \<not> cancel k"
  obtains rn where "Run config requests cancel polls = Some (run_finish requests rn, rn_polls rn)"
    "run_ok (ContinuousBatcher config) (map clamp_request requests)
       (work (run_init (ContinuousBatcher config) requests polls)) rn"
    "\<forall>i < length requests. sd_done (rn_states rn ! i)" "uncancelled rn"
proof (rule Run_keeps [where P = "\<lambda>_. uncancelled" and config = config and requests = requests and cancel = cancel and polls = polls])
  fix p and es :: "string list" and rn rn'
  assume "slot_step (rn_step_index rn) p es rn rn'" "uncancelled rn"
    and "batch_inv (cb_kv_block_tokens (ContinuousBatcher config)) (map clamp_request requests) rn"
  then show "uncancelled rn'" using slot_step_uncancelled batch_inv_kv(4,5) by metis
qed (use assms in \<open>auto simp: uncancelled_def run_init_def initial_result_def record_step_def intro: that\<close>)

end
