(* ===== verification/Batcher_History.thy ===== *)
theory Batcher_History
  imports Batcher_Run
begin

text \<open>
  What the results say about the steps. For a request whose id no other request of the batch has, the step numbers,
  token counts and block counts of its result are those of the steps of the run that list its id.
\<close>

subsection \<open>The steps that decode an id\<close>

text \<open>The step number of every token decoded for an id, in the order of the steps.\<close>

definition decoded_at :: "string \<Rightarrow> SchedulerStep list \<Rightarrow> int list" where
  "decoded_at sid steps =
     concat (map (\<lambda>step. replicate (count_list (ss_decoded_sequence_ids step) sid) (ss_step_index step)) steps)"

lemma decoded_at_append [simp]: "decoded_at sid (steps @ [step]) =
    decoded_at sid steps @ replicate (count_list (ss_decoded_sequence_ids step) sid) (ss_step_index step)"
  by (simp add: decoded_at_def)

definition first_of :: "int list \<Rightarrow> int" where
  "first_of steps = (if steps = [] then -1 else hd steps)"

text \<open>
  How the result of a request follows from the steps \<open>ks\<close> that decoded it, at \<open>t\<close> tokens per block. A rejected
  request was either never admitted, or ran out of blocks with those of its prompt and its tokens in hand.
\<close>

definition status_history :: "int \<Rightarrow> int list \<Rightarrow> SequenceRequest \<Rightarrow> SequenceResult \<Rightarrow> bool" where
  "status_history t ks req res = (case rs_status res of
     kCompleted \<Rightarrow> ks \<noteq> [] \<longrightarrow> rs_completion_step res = last ks
   | kRejected \<Rightarrow>
       ks = [] \<and> rs_kv_blocks res = 0 \<and>
         rs_message res = (if rq_id req = '''' then ''sequence id is required'' else ''kv cache exhausted'') \<or>
       rs_message res = ''kv cache exhausted'' \<and>
         rs_kv_blocks res = prompt_need t (rq_prompt_tokens req) (rq_prefix_cache_key req) (rq_prefix_cache_tokens req) +
           CeilDiv (int (length ks)) t
   | kCancelled \<Rightarrow> rs_kv_blocks res = 0)"

definition result_history :: "int \<Rightarrow> SchedulerStep list \<Rightarrow> SequenceRequest \<Rightarrow> SequenceResult \<Rightarrow> bool" where
  "result_history t steps req res \<longleftrightarrow>
     rs_first_token_step res = first_of (decoded_at (rq_id req) steps) \<and>
     rs_generated_tokens res = (if rs_status res = kCancelled then 0 else int (length (decoded_at (rq_id req) steps))) \<and>
     status_history t (decoded_at (rq_id req) steps) req res"

subsection \<open>The invariant\<close>

definition slot_history :: "int \<Rightarrow> int list \<Rightarrow> SequenceRequest \<Rightarrow> State \<Rightarrow> SequenceResult \<Rightarrow> bool" where
  "slot_history t ks req st res \<longleftrightarrow> sd_generated st = int (length ks) \<and> rs_first_token_step res = first_of ks \<and>
     (sd_done st \<longrightarrow> status_history t ks req res)"

text \<open>The tokens of an id so far: those of the recorded steps and those of the step under way.\<close>

definition decoded_so_far :: "string \<Rightarrow> string list \<Rightarrow> run_state \<Rightarrow> int list" where
  "decoded_so_far sid ds rn = decoded_at sid (rn_steps rn) @ replicate (count_list ds sid) (rn_step_index rn)"

definition tracks :: "int \<Rightarrow> SequenceRequest list \<Rightarrow> nat \<Rightarrow> string list \<Rightarrow> run_state \<Rightarrow> bool" where
  "tracks t reqs i ds rn \<longleftrightarrow>
     slot_history t (decoded_so_far (rq_id (reqs ! i)) ds rn) (reqs ! i) (rn_states rn ! i) (rn_results rn ! i)"

definition lone :: "SequenceRequest list \<Rightarrow> nat \<Rightarrow> bool" where
  "lone reqs i \<longleftrightarrow> i < length reqs \<and> (\<forall>j < length reqs. rq_id (reqs ! j) = rq_id (reqs ! i) \<longrightarrow> j = i)"

lemma tracks_record: "tracks t reqs i ds rn \<Longrightarrow> tracks t reqs i [] (record_step queued p ds rn)"
  by (simp add: tracks_def decoded_so_far_def record_step_def step_record_def)

lemma decoded_so_far_upd:
  "decoded_so_far sid (ds @ es) (upd i st res al rn) = decoded_so_far sid ds rn @ replicate (count_list es sid) (rn_step_index rn)"
  by (simp add: decoded_so_far_def replicate_add)

lemma tracks_upd:
  assumes "tracks t reqs i ds rn" and "length (rn_states rn) = length reqs" "length (rn_results rn) = length reqs" and "lone reqs i"
    and "j \<noteq> i \<Longrightarrow> rq_id (reqs ! i) \<notin> set es"
    and "j = i \<Longrightarrow> slot_history t (decoded_so_far (rq_id (reqs ! i)) ds rn @ replicate (count_list es (rq_id (reqs ! i))) (rn_step_index rn))
      (reqs ! i) st res"
  shows "tracks t reqs i (ds @ es) (upd j st res al rn)"
proof (cases "j = i")
  case True
  with assms show ?thesis by (simp add: tracks_def decoded_so_far_upd lone_def)
next
  case False
  with assms(5) have "count_list es (rq_id (reqs ! i)) = 0" by (simp add: count_list_0_iff)
  with assms(1) False show ?thesis by (simp add: tracks_def decoded_so_far_upd)
qed

text \<open>A lone request that has not been admitted holds nothing.\<close>

lemma lone_unheld:
  assumes core: "batch_core t reqs rn" and "lone reqs i" and "\<not> holding (rn_states rn ! i)"
  shows "kv_view (rn_allocator rn) (rq_id (reqs ! i)) = None"
proof (rule ccontr)
  assume "kv_view (rn_allocator rn) (rq_id (reqs ! i)) \<noteq> None"
  then obtain j where j: "j < length reqs" "holding (rn_states rn ! j)" "rq_id (sd_request (rn_states rn ! j)) = rq_id (reqs ! i)"
    using batch_core_holder [OF core] by blast
  then have "rq_id (reqs ! j) = rq_id (reqs ! i)" using core by (simp add: batch_core_def slot_ok_def)
  with assms(2,3) j show False by (auto simp: lone_def)
qed

lemma rejected_history:
  assumes inv: "batch_inv t reqs rn" and lone: "lone reqs i" and st: "st = rn_states rn ! i"
    and g: "\<not> sd_prompt_ready st" "\<not> sd_prompt_allocated st" and hist: "slot_history t ks (reqs ! i) st res"
    and run: "AllocatePrompt (rq_id (sd_request st)) n key p (rn_allocator rn) = (r, al)" and out: "\<not> al_ok r"
  shows "slot_history t ks (reqs ! i) (st\<lparr>sd_done := True\<rparr>)
    (res\<lparr>rs_status := kRejected, rs_message := al_message r, rs_kv_blocks := SequenceBlockCount (rq_id (sd_request st)) al\<rparr>)"
proof -
  have i: "i < length (rn_states rn)" using lone batch_inv_kv(4) [OF inv] by (simp add: lone_def)
  note kv = batch_inv_kv [OF inv] and slot = batch_inv_slot [OF inv i]
  have req: "sd_request st = reqs ! i" "sd_generated st = 0" using slot(3) st g by (auto simp: slot_ok_def)
  have none: "kv_view (rn_allocator rn) (rq_id (reqs ! i)) = None"
    using lone_unheld [of t reqs rn i] lone inv st g by (simp add: batch_inv_def holding_def)
  have "SequenceBlockCount (rq_id (reqs ! i)) al = 0"
    using kvc.count_view [of "rq_id (reqs ! i)" al] kvc.alloc_fail [OF kv(1) run out] none by simp
  moreover have "al_message r = (if rq_id (reqs ! i) = '''' then ''sequence id is required'' else ''kv cache exhausted'')"
    using AllocatePrompt_why [OF run out] none run out req(1) by (auto simp: AllocatePrompt_def AllocationError_def)
  ultimately show ?thesis using hist req by (simp add: slot_history_def status_history_def)
qed

lemma starved_history:
  assumes inv: "batch_inv t reqs rn" and i: "i < length (rn_states rn)" and st: "st = rn_states rn ! i"
    and g: "\<not> sd_done st" "sd_prompt_ready st" and hist: "slot_history t ks (reqs ! i) st res"
    and run: "AppendTokens (rq_id (sd_request st)) 1 (rn_allocator rn) = (r, al)" and out: "\<not> al_ok r"
  shows "slot_history t ks (reqs ! i) (st\<lparr>sd_done := True\<rparr>)
    (res\<lparr>rs_status := kRejected, rs_message := al_message r, rs_generated_tokens := n,
       rs_kv_blocks := SequenceBlockCount (rq_id (sd_request st)) al\<rparr>)"
proof -
  note kv = batch_inv_kv [OF inv] and slot = batch_inv_slot [OF inv i]
  have req: "sd_request st = reqs ! i" using slot(3) st by (simp add: slot_ok_def)
  have hold: "exact_hold (rn_allocator rn) st" using ready_holding slot(3,4) st g by blast
  then have al: "exact_hold al st"
    using exact_hold_cong [of al st "rn_allocator rn"] kvc.append_fail [OF kv(1) run out] kvc.per_block_append [OF kv(1) run] by simp
  then have "SequenceBlockCount (rq_id (reqs ! i)) al = prompt_need t (rq_prompt_tokens (reqs ! i)) (rq_prefix_cache_key (reqs ! i))
      (rq_prefix_cache_tokens (reqs ! i)) + CeilDiv (sd_generated st) t"
    using exact_hold_count [OF al] kvc.per_block_append [OF kv(1) run] kv(2) req by simp
  with AppendTokens_error [OF run out exact_hold_view [OF hold]] hist req show ?thesis
    by (simp add: slot_history_def status_history_def)
qed

text \<open>A decoded token is the last one so far, and the first one if there was none before.\<close>

lemma decoded_history:
  assumes hist: "slot_history t ks req st res" and slot: "slot_ok t si req st res" and go: "\<not> sd_done st"
  shows "slot_history t (ks @ [si]) req (st\<lparr>sd_generated := sd_generated st + 1\<rparr>)
      (if rs_first_token_step res < 0 then res\<lparr>rs_first_token_step := si\<rparr> else res)"
    and "slot_history t (ks @ [si]) req (st\<lparr>sd_generated := sd_generated st + 1, sd_done := True\<rparr>)
      ((finish si (if rs_first_token_step res < 0 then res\<lparr>rs_first_token_step := si\<rparr> else res))
         \<lparr>rs_generated_tokens := n, rs_kv_blocks := m\<rparr>)"
proof -
  have "rs_first_token_step res < 0 \<longleftrightarrow> ks = []"
    using hist slot by (auto simp: slot_history_def slot_ok_def first_of_def split: if_splits)
  then have "rs_first_token_step (if rs_first_token_step res < 0 then res\<lparr>rs_first_token_step := si\<rparr> else res) = first_of (ks @ [si])"
    using hist by (auto simp: slot_history_def first_of_def)
  with hist go show "slot_history t (ks @ [si]) req (st\<lparr>sd_generated := sd_generated st + 1\<rparr>)
      (if rs_first_token_step res < 0 then res\<lparr>rs_first_token_step := si\<rparr> else res)"
    and "slot_history t (ks @ [si]) req (st\<lparr>sd_generated := sd_generated st + 1, sd_done := True\<rparr>)
      ((finish si (if rs_first_token_step res < 0 then res\<lparr>rs_first_token_step := si\<rparr> else res))
         \<lparr>rs_generated_tokens := n, rs_kv_blocks := m\<rparr>)"
    by (auto simp: slot_history_def status_history_def finish_def)
qed

lemma slot_step_tracks:
  assumes step: "slot_step (rn_step_index rn) p es rn rn'" and inv: "batch_inv t reqs rn" and lone: "lone reqs i"
    and hist: "tracks t reqs i ds rn"
  shows "tracks t reqs i (ds @ es) rn'"
proof -
  note kv = batch_inv_kv [OF inv]
  let ?ks = "decoded_so_far (rq_id (reqs ! i)) ds rn"
  have i: "i < length (rn_states rn)" using lone kv(4) by (simp add: lone_def)
  note slot = batch_inv_slot(3) [OF inv i]
  have here: "slot_history t ?ks (reqs ! i) (rn_states rn ! i) (rn_results rn ! i)" using hist by (simp add: tracks_def)
  have req: "rq_id (sd_request (rn_states rn ! j)) = rq_id (reqs ! i) \<longleftrightarrow> j = i" if "j < length (rn_states rn)" for j
    using lone batch_inv_slot(1,3) [OF inv that] by (auto simp: lone_def slot_ok_def)
  note put = tracks_upd [OF hist kv(4,5) lone] and quiet = tracks_upd [OF hist kv(4,5) lone, where es = "[]", simplified]
  from step show ?thesis
  proof cases
    case (reject j st res r al)
    have "slot_history t ?ks (reqs ! i) (st\<lparr>sd_done := True\<rparr>) (res\<lparr>rs_status := kRejected, rs_message := al_message r,
        rs_kv_blocks := SequenceBlockCount (rq_id (sd_request st)) al\<rparr>)" if "j = i"
      by (rule rejected_history [OF inv lone]) (use reject that here in auto)
    with reject show ?thesis by (auto intro!: quiet)
  next
    case (admitted j st res r al)
    with here show ?thesis by (auto intro!: quiet simp: slot_history_def)
  next
    case (prefill j st res budget)
    with here show ?thesis by (auto intro!: quiet simp: slot_history_def)
  next
    case (starve j st res r al)
    have "slot_history t ?ks (reqs ! i) (st\<lparr>sd_done := True\<rparr>) (res\<lparr>rs_status := kRejected, rs_message := al_message r,
        rs_generated_tokens := sd_generated st, rs_kv_blocks := SequenceBlockCount (rq_id (sd_request st)) al\<rparr>)" if "j = i"
      by (rule starved_history [OF inv i]) (use starve that here in auto)
    with starve show ?thesis by (auto intro!: quiet)
  next
    case (decode j st res r al)
    with decoded_history(1) [OF here slot] req [of j] show ?thesis by (auto intro!: put)
  next
    case (complete j st res r al)
    with decoded_history(2) [OF here slot] req [of j] show ?thesis by (auto intro!: put)
  next
    case (complete_empty j st res)
    have "?ks = []" if "j = i" using that here slot complete_empty by (auto simp: slot_history_def slot_ok_def)
    with here complete_empty show ?thesis by (auto intro!: quiet simp: slot_history_def status_history_def finish_def)
  qed
qed

lemma cancel_one_tracks:
  assumes core: "batch_core t reqs rn" and j: "j < length reqs" and lone: "lone reqs i" and hist: "tracks t reqs i [] rn"
  shows "tracks t reqs i [] (cancel_one j rn)"
proof (cases "sd_done (rn_states rn ! j)")
  case True
  with hist show ?thesis by (simp add: cancel_one_def)
next
  case False
  have len: "length (rn_states rn) = length reqs" "length (rn_results rn) = length reqs"
    and slot: "slot_ok t (rn_step_index rn) (reqs ! i) (rn_states rn ! i) (rn_results rn ! i)"
    using core lone by (simp_all add: batch_core_def lone_def)
  have "slot_history t (decoded_so_far (rq_id (reqs ! i)) [] rn) (reqs ! i) ((rn_states rn ! i)\<lparr>sd_done := True\<rparr>)
      ((rn_results rn ! i)\<lparr>rs_status := kCancelled, rs_message := ''cancelled''\<rparr>)" if "j = i"
    using hist slot False that by (simp add: tracks_def slot_history_def status_history_def slot_ok_def)
  then show ?thesis
    using tracks_upd [OF hist len lone, of j "[]"] unfolding cancel_one_eq [OF core j False] by auto
qed

subsection \<open>The history behind a run\<close>

lemma Run_history:
  obtains rn where "Run config requests cancel polls = Some (run_finish requests rn, rn_polls rn)"
    "run_ok (ContinuousBatcher config) (map clamp_request requests)
       (work (run_init (ContinuousBatcher config) requests polls)) rn"
    "\<forall>i < length requests. sd_done (rn_states rn ! i)"
    "\<forall>i. lone (map clamp_request requests) i \<longrightarrow>
       tracks (cb_kv_block_tokens (ContinuousBatcher config)) (map clamp_request requests) i [] rn"
proof (rule Run_keeps [where config = config and requests = requests and cancel = cancel and polls = polls and
    P = "\<lambda>ds rn. \<forall>i. lone (map clamp_request requests) i \<longrightarrow>
      tracks (cb_kv_block_tokens (ContinuousBatcher config)) (map clamp_request requests) i ds rn"])
  show "\<forall>i. lone (map clamp_request requests) i \<longrightarrow> tracks (cb_kv_block_tokens (ContinuousBatcher config))
      (map clamp_request requests) i [] (run_init (ContinuousBatcher config) requests polls)"
    by (auto simp: tracks_def lone_def slot_history_def run_init_def initial_state_def initial_result_def decoded_so_far_def
        decoded_at_def first_of_def)
next
  fix p ds es rn rn'
  assume "slot_step (rn_step_index rn) p es rn rn'"
    and "batch_inv (cb_kv_block_tokens (ContinuousBatcher config)) (map clamp_request requests) rn"
    and "\<forall>i. lone (map clamp_request requests) i \<longrightarrow>
      tracks (cb_kv_block_tokens (ContinuousBatcher config)) (map clamp_request requests) i ds rn"
  then show "\<forall>i. lone (map clamp_request requests) i \<longrightarrow>
      tracks (cb_kv_block_tokens (ContinuousBatcher config)) (map clamp_request requests) i (ds @ es) rn'"
    using slot_step_tracks by blast
next
  fix j and rn
  assume "batch_core (cb_kv_block_tokens (ContinuousBatcher config)) (map clamp_request requests) rn" "j < length requests"
    and "\<forall>i. lone (map clamp_request requests) i \<longrightarrow>
      tracks (cb_kv_block_tokens (ContinuousBatcher config)) (map clamp_request requests) i [] rn"
  then show "\<forall>i. lone (map clamp_request requests) i \<longrightarrow>
      tracks (cb_kv_block_tokens (ContinuousBatcher config)) (map clamp_request requests) i [] (cancel_one j rn)"
    using cancel_one_tracks by (metis length_map)
qed (auto simp: tracks_record intro: that, auto simp: tracks_def decoded_so_far_def)

lemma count_list_lone:
  "count_list xs x = 1 \<Longrightarrow> i < length xs \<Longrightarrow> j < length xs \<Longrightarrow> xs ! i = x \<Longrightarrow> xs ! j = x \<Longrightarrow> i = j"
proof (induction xs arbitrary: i j)
  case (Cons y ys)
  have none: "ys ! k \<noteq> x" if "y = x" "k < length ys" for k
    using Cons.prems(1) that nth_mem [OF that(2)] by (auto simp: count_list_0_iff)
  show ?case using Cons none by (cases i; cases j) (auto split: if_splits)
qed simp

lemma clamp_history [simp]: "status_history t ks (clamp_request req) res = status_history t ks req res"
  by (cases "rs_status res") (simp_all add: status_history_def clamp_request_def)

lemma lone_clamped:
  "count_list (map rq_id requests) (rq_id (requests ! i)) = 1 \<Longrightarrow> i < length requests \<Longrightarrow> lone (map clamp_request requests) i"
  using count_list_lone [of "map rq_id requests" "rq_id (requests ! i)"] by (auto simp: lone_def clamp_request_def)

lemma final_history:
  assumes "tracks t (map clamp_request requests) i [] rn" and "i < length requests" and "sd_done (rn_states rn ! i)"
    and "slot_ok t si (clamp_request (requests ! i)) (rn_states rn ! i) (rn_results rn ! i)"
  shows "sd_generated (rn_states rn ! i) = int (length (decoded_at (rq_id (requests ! i)) (rn_steps rn)))"
    and "result_history t (rn_steps rn) (requests ! i) (rn_results rn ! i)"
proof -
  let ?ks = "decoded_at (rq_id (requests ! i)) (rn_steps rn)"
  have "rq_id (clamp_request (requests ! i)) = rq_id (requests ! i)" by (simp add: clamp_request_def)
  then have hist: "sd_generated (rn_states rn ! i) = int (length ?ks)" "rs_first_token_step (rn_results rn ! i) = first_of ?ks"
    "status_history t ?ks (requests ! i) (rn_results rn ! i)"
    using assms(1-3) by (simp_all add: tracks_def slot_history_def decoded_so_far_def)
  then show "sd_generated (rn_states rn ! i) = int (length ?ks)" by simp
  show "result_history t (rn_steps rn) (requests ! i) (rn_results rn ! i)"
    using hist assms(3,4) by (cases "rs_status (rn_results rn ! i)") (simp_all add: result_history_def slot_ok_def final_ok_def)
qed

end
