(* ===== verification/Batcher_Theorems.thy ===== *)
theory Batcher_Theorems
  imports Batcher_History
begin

text \<open>
  The theorems of the continuous batching scheduler, over \<open>Run\<close> itself. \<open>cancel\<close> is an arbitrary
  cancellation callback unless a theorem says otherwise.
\<close>

subsection \<open>Every run\<close>

text \<open>
  C1: \<open>Run\<close> always returns, whatever the configuration, the requests and the cancellation
  callback, and takes at most one step per prompt token, per token to generate and three more per
  request.
\<close>

theorem Run_returns:
  "\<exists>run polls'. Run config requests cancel polls = Some (run, polls') \<and>
     int (length (run_steps run)) \<le>
       sum_list (map (\<lambda>req. max 0 (rq_prompt_tokens req) + max 0 (rq_max_generated_tokens req) + 3) requests)"
proof -
  obtain rn where "Run config requests cancel polls = Some (run_finish requests rn, rn_polls rn)"
    "run_ok (ContinuousBatcher config) (map clamp_request requests)
       (work (run_init (ContinuousBatcher config) requests polls)) rn"
    using Run_final .
  then show ?thesis
    using init_work [of "ContinuousBatcher config" requests polls]
    by (auto simp: run_ok_def run_finish_def)
qed

text \<open>
  C2: The returned run has exactly one final result per request, in request order, and the steps of the run determine
  it. A completed request generated exactly its limit and holds exactly the blocks its prompt and its tokens need; a
  rejected one carries one of the allocator's errors; no result stays queued. For a request whose id no other request
  has, the first token step is the first step that decoded its id (or -1), the generated tokens are the number of times
  its id was decoded (0 if it was cancelled), the completion step is the last step that decoded it (if any), and a rejected
  request reports no blocks if it was never admitted and else exactly the blocks of its prompt and its tokens.
\<close>

theorem Run_results:
  "\<exists>run polls'. Run config requests cancel polls = Some (run, polls') \<and>
     list_all2 (\<lambda>req res. result_for (cb_kv_block_tokens (ContinuousBatcher config)) (length (run_steps run)) req res \<and>
         (count_list (map rq_id requests) (rq_id req) = 1 \<longrightarrow>
            result_history (cb_kv_block_tokens (ContinuousBatcher config)) (run_steps run) req res))
       requests (run_results run)"
proof -
  let ?t = "cb_kv_block_tokens (ContinuousBatcher config)"
  obtain rn where rn: "Run config requests cancel polls = Some (run_finish requests rn, rn_polls rn)"
    "run_ok (ContinuousBatcher config) (map clamp_request requests)
       (work (run_init (ContinuousBatcher config) requests polls)) rn"
    "\<forall>i < length requests. sd_done (rn_states rn ! i)"
    "\<forall>i. lone (map clamp_request requests) i \<longrightarrow> tracks ?t (map clamp_request requests) i [] rn"
    using Run_history .
  have "result_for ?t (length (rn_steps rn)) (requests ! i) (rn_results rn ! i) \<and>
      (count_list (map rq_id requests) (rq_id (requests ! i)) = 1 \<longrightarrow> result_history ?t (rn_steps rn) (requests ! i) (rn_results rn ! i))"
    if i: "i < length requests" for i
    using final_result_for [OF Run_slots(1) [OF rn(2) i] _ Run_slots(2) [OF rn(2) i]] rn(3,4) i
      final_history(2) [OF _ i _ Run_slots(1) [OF rn(2) i]] lone_clamped [of requests i] by blast
  then show ?thesis
    using rn(1) Run_lengths [OF rn(2)] by (auto simp: run_finish_def list_all2_conv_all_nth)
qed

text \<open>
  C14: Every step of a run stays within the configured prefill budget, decode batch size and block
  count; the steps are numbered from 0 and the decoded count is the number of decoded ids.
\<close>

theorem Run_budgets:
  "\<exists>run polls'. Run config requests cancel polls = Some (run, polls') \<and>
     list_all2 (step_ok (ContinuousBatcher config)) [0..<length (run_steps run)] (run_steps run)"
proof -
  obtain rn where "Run config requests cancel polls = Some (run_finish requests rn, rn_polls rn)"
    "run_ok (ContinuousBatcher config) (map clamp_request requests)
       (work (run_init (ContinuousBatcher config) requests polls)) rn"
    using Run_final .
  then show ?thesis
    by (auto simp: run_ok_def steps_ok_def list_all2_conv_all_nth run_finish_def)
qed

text \<open>
  C15: The statistics of a run count its steps: their number, those that prefilled, those that
  decoded, the tokens decoded and their average per decoding step; the prompt tokens are those of the
  requests, and the steps never prefill more than that.
\<close>

theorem Run_statistics:
  "\<exists>run polls'. Run config requests cancel polls = Some (run, polls') \<and>
     bs_total_steps (run_stats run) = int (length (run_steps run)) \<and>
     bs_prefill_steps (run_stats run) = int (length (filter (\<lambda>step. 0 < ss_prefill_tokens step) (run_steps run))) \<and>
     bs_decode_steps (run_stats run) = int (length (filter (\<lambda>step. 0 < ss_decoded_tokens step) (run_steps run))) \<and>
     bs_total_generated_tokens (run_stats run) = sum_list (map ss_decoded_tokens (run_steps run)) \<and>
     bs_average_decode_batch_size (run_stats run) * of_int (bs_decode_steps (run_stats run)) =
       of_int (bs_total_generated_tokens (run_stats run)) \<and>
     bs_total_prompt_tokens (run_stats run) = sum_list (map rs_prompt_tokens (run_results run)) \<and>
     sum_list (map ss_prefill_tokens (run_steps run)) \<le> bs_total_prompt_tokens (run_stats run)"
proof -
  obtain rn where rn: "Run config requests cancel polls = Some (run_finish requests rn, rn_polls rn)"
    "run_ok (ContinuousBatcher config) (map clamp_request requests)
       (work (run_init (ContinuousBatcher config) requests polls)) rn"
    using Run_final .
  have "rn_decode_steps rn = 0 \<Longrightarrow> rn_total_generated rn = 0"
    using no_decode_steps rn(2) by (auto simp: run_ok_def)
  moreover have "map rs_prompt_tokens (rn_results rn) = map (\<lambda>request. rq_prompt_tokens (clamp_request request)) requests"
    using Run_slots(1) [OF rn(2)] Run_lengths [OF rn(2)] by (intro nth_equalityI) (auto simp: slot_ok_def)
  moreover have "0 \<le> remaining_sum rn"
    unfolding remaining_sum_def
    using Run_slots(1) [OF rn(2)] Run_lengths [OF rn(2)]
    by (auto simp: slot_ok_def in_set_conv_nth intro!: sum_list_nonneg)
  ultimately show ?thesis
    using rn by (auto simp: run_ok_def steps_ok_def run_finish_def comp_def)
qed

text \<open>
  C6: When \<open>Run\<close> returns, completed, rejected or cancelled, the allocator holds no sequence any
  more; it was reached from the empty cache by allocator operations only, so its own invariant holds
  and its statistics are consistent.
\<close>

theorem Run_releases:
  "\<exists>run polls' impl. Run config requests cancel polls = Some (run, polls') \<and>
     bs_kv_cache (run_stats run) = Stats impl \<and> kv_sequences impl = [] \<and> st_active_sequences (Stats impl) = 0 \<and>
     kv_reachable (kv_config_of (ContinuousBatcher config)) impl \<and> kv_inv impl"
proof -
  obtain rn where rn: "Run config requests cancel polls = Some (run_finish requests rn, rn_polls rn)"
    "run_ok (ContinuousBatcher config) (map clamp_request requests)
       (work (run_init (ContinuousBatcher config) requests polls)) rn"
    "\<forall>i < length requests. sd_done (rn_states rn ! i)"
    using Run_final .
  then show ?thesis
    using nothing_held [OF rn(2,3)] kv_reachable_inv
    by (intro exI [of _ "run_finish requests rn"] exI [of _ "rn_polls rn"] exI [of _ "rn_allocator rn"])
      (auto simp: run_finish_def run_ok_def Stats_def)
qed

subsection \<open>Runs without cancellation\<close>

text \<open>
  C16: If the callback never answers true, no request is cancelled, the tokens reported by the
  results add up to the tokens decoded in the steps, and if all requests completed the steps prefilled
  every prompt token exactly once.
\<close>

theorem Run_conserves_tokens:
  assumes "\<And>k. \<not> cancel k"
  shows "\<exists>run polls'. Run config requests cancel polls = Some (run, polls') \<and>
     list_all (\<lambda>res. rs_status res \<noteq> kCancelled) (run_results run) \<and>
     sum_list (map rs_generated_tokens (run_results run)) = bs_total_generated_tokens (run_stats run) \<and>
     (list_all (\<lambda>res. rs_status res = kCompleted) (run_results run) \<longrightarrow>
        sum_list (map ss_prefill_tokens (run_steps run)) = bs_total_prompt_tokens (run_stats run))"
proof -
  let ?config = "ContinuousBatcher config"
  obtain rn where rn: "Run config requests cancel polls = Some (run_finish requests rn, rn_polls rn)"
    "run_ok ?config (map clamp_request requests) (work (run_init ?config requests polls)) rn"
    "\<forall>i < length requests. sd_done (rn_states rn ! i)" "uncancelled rn"
    using Run_final_uncancelled [OF assms] .
  then show ?thesis
    using generated_results [OF rn(2-4)] completed_prefilled [OF rn(2,3)]
    by (auto simp: run_finish_def uncancelled_def list_all_iff comp_def)
qed

definition demo_config :: ContinuousBatcherConfig where
  "demo_config = \<lparr>cb_max_prefill_tokens_per_step = 4, cb_max_decode_sequences_per_step = 2,
     cb_kv_cache_blocks = 32, cb_kv_block_tokens = 4\<rparr>"

definition demo_request :: "string \<Rightarrow> int \<Rightarrow> int \<Rightarrow> int \<Rightarrow> SequenceRequest" where
  "demo_request sid n m priority = \<lparr>rq_id = sid, rq_prompt_tokens = n, rq_max_generated_tokens = m,
     rq_priority = priority, rq_prefix_cache_key = '''', rq_prefix_cache_tokens = -1\<rparr>"

theorem Run_results_witness:
  "\<exists>run polls'. Run demo_config [demo_request ''a'' 4 3 0, demo_request ''b'' 4 2 0] (\<lambda>_. False) 0 = Some (run, polls') \<and>
     list_all2 (result_history 4 (run_steps run)) [demo_request ''a'' 4 3 0, demo_request ''b'' 4 2 0] (run_results run)"
proof -
  have "cb_kv_block_tokens (ContinuousBatcher demo_config) = 4" by (simp add: ContinuousBatcher_def demo_config_def ClampPositive_def)
  with Run_results [of demo_config "[demo_request ''a'' 4 3 0, demo_request ''b'' 4 2 0]" "\<lambda>_. False" 0] show ?thesis
    by (auto simp: list_all2_Cons1 demo_request_def)
qed

theorem Run_conserves_tokens_witness:
  "\<exists>run polls'. Run demo_config [demo_request ''a'' 4 3 0, demo_request ''b'' 4 2 0] (\<lambda>_. False) 0 = Some (run, polls') \<and>
     sum_list (map rs_generated_tokens (run_results run)) = bs_total_generated_tokens (run_stats run)"
  using Run_conserves_tokens [of "\<lambda>_. False" demo_config "[demo_request ''a'' 4 3 0, demo_request ''b'' 4 2 0]" 0] by auto

text \<open>
  C40: A cancelled request reports no generated tokens, whatever was decoded for it, and the statistics count those
  tokens: if the ids of the batch are distinct, the generated tokens of the statistics exceed those of the results by
  exactly the tokens decoded for the requests that were cancelled.
\<close>

theorem Run_cancel_forgets_tokens:
  assumes "distinct (map rq_id requests)"
  shows "\<exists>run polls'. Run config requests cancel polls = Some (run, polls') \<and>
     list_all (\<lambda>res. rs_status res = kCancelled \<longrightarrow> rs_generated_tokens res = 0) (run_results run) \<and>
     bs_total_generated_tokens (run_stats run) - sum_list (map rs_generated_tokens (run_results run)) =
       sum_list (map (\<lambda>res. int (length (decoded_at (rs_id res) (run_steps run))))
         (filter (\<lambda>res. rs_status res = kCancelled) (run_results run)))"
proof -
  let ?t = "cb_kv_block_tokens (ContinuousBatcher config)"
  obtain rn where rn: "Run config requests cancel polls = Some (run_finish requests rn, rn_polls rn)"
    "run_ok (ContinuousBatcher config) (map clamp_request requests)
       (work (run_init (ContinuousBatcher config) requests polls)) rn"
    "\<forall>i < length requests. sd_done (rn_states rn ! i)"
    "\<forall>i. lone (map clamp_request requests) i \<longrightarrow> tracks ?t (map clamp_request requests) i [] rn"
    using Run_history .
  note len = Run_lengths [OF rn(2)]
  let ?at = "\<lambda>res. int (length (decoded_at (rs_id res) (rn_steps rn)))"
  have slot: "sd_generated (rn_states rn ! i) = ?at (rn_results rn ! i) \<and> rs_generated_tokens (rn_results rn ! i) =
      (if rs_status (rn_results rn ! i) = kCancelled then 0 else ?at (rn_results rn ! i))" if i: "i < length requests" for i
  proof -
    have "lone (map clamp_request requests) i" using assms i by (auto simp: lone_def clamp_request_def distinct_conv_nth)
    moreover have "rs_id (rn_results rn ! i) = rq_id (requests ! i)"
      using Run_slots(1) [OF rn(2) i] by (simp add: slot_ok_def clamp_request_def)
    ultimately show ?thesis
      using final_history [OF _ i _ Run_slots(1) [OF rn(2) i]] rn(3,4) i by (simp add: result_history_def)
  qed
  have "map sd_generated (rn_states rn) = map ?at (rn_results rn)"
    using slot len by (auto intro: nth_equalityI)
  then have total: "rn_total_generated rn = sum_list (map ?at (rn_results rn))"
    using rn(2) by (simp add: run_ok_def generated_sum_def)
  have each: "rs_generated_tokens res = (if rs_status res = kCancelled then 0 else ?at res)" if "res \<in> set (rn_results rn)" for res
    using that slot len by (auto simp: in_set_conv_nth)
  have split: "sum_list (map ?at rs) - sum_list (map rs_generated_tokens rs) = sum_list (map ?at (filter (\<lambda>res. rs_status res = kCancelled) rs))"
    if "set rs \<subseteq> set (rn_results rn)" for rs
    using that each by (induction rs) auto
  show ?thesis
    using rn(1) total split [of "rn_results rn"] each by (auto simp: run_finish_def list_all_iff)
qed

lemma cancelled_demo:
  "map_option (\<lambda>(run, polls'). (map rs_status (run_results run), map rs_id (run_results run), decoded_at ''a'' (run_steps run)))
     (Run demo_config [demo_request ''a'' 4 3 0] (\<lambda>k. k = 1) 0) = Some ([kCancelled], [''a''], [0])"
  by code_simp

theorem Run_cancel_forgets_tokens_witness:
  "\<exists>run polls'. Run demo_config [demo_request ''a'' 4 3 0] (\<lambda>k. k = 1) 0 = Some (run, polls') \<and>
     bs_total_generated_tokens (run_stats run) - sum_list (map rs_generated_tokens (run_results run)) = 1"
proof -
  have "distinct (map rq_id [demo_request ''a'' 4 3 0])" by simp
  from Run_cancel_forgets_tokens [OF this, of demo_config "\<lambda>k. k = 1" 0] cancelled_demo show ?thesis
    by (auto simp: map_eq_Cons_conv)
qed

subsection \<open>Priorities\<close>

text \<open>
  The decode batch of a step respects priorities: among the states that can decode, whatever
  has a higher priority than a state in the batch (or the same and an earlier position) is in the
  batch too.
\<close>

theorem decode_batch_priority:
  assumes "distinct (map sd_index states)" and "x \<in> set states" and "y \<in> set states"
    and "\<not> sd_done x" and "sd_prompt_ready x" and "sd_generated x < rq_max_generated_tokens (sd_request x)"
    and "by_priority x y" and "sd_index y \<in> set (take n (decode_candidates states))"
  shows "sd_index x \<in> set (take n (decode_candidates states))"
proof -
  let ?P = "\<lambda>state. \<not> sd_done state \<and> sd_prompt_ready state \<and> sd_generated state < rq_max_generated_tokens (sd_request state)"
  have dist: "distinct (map sd_index (filter ?P states))" using assms(1) by (rule distinct_map_filter)
  obtain y' where y': "y' \<in> set (take n (std_sort by_priority (filter ?P states)))" "sd_index y' = sd_index y"
    using assms(8) by (auto simp: decode_candidates_def take_map)
  then have "y' \<in> set states" using in_set_takeD by fastforce
  then have "y' = y" using y'(2) assms(1,3) by (metis distinct_map inj_onD)
  then have "x \<in> set (take n (std_sort by_priority (filter ?P states)))"
    using bp.take_closed [OF dist _ _ assms(7)] y'(1) assms(2,4-6) by simp
  then show ?thesis by (auto simp: decode_candidates_def take_map)
qed

definition demo_state :: "nat \<Rightarrow> int \<Rightarrow> bool \<Rightarrow> State" where
  "demo_state i priority ready = (initial_state i (demo_request ''x'' 0 2 priority))\<lparr>sd_prompt_ready := ready\<rparr>"

theorem decode_batch_priority_witness:
  "1 \<in> set (take 2 (decode_candidates [demo_state 0 5 True, demo_state 1 7 True, demo_state 2 0 True]))"
  using decode_batch_priority [of "[demo_state 0 5 True, demo_state 1 7 True, demo_state 2 0 True]"
      "demo_state 1 7 True" "demo_state 0 5 True" 2]
  by (simp add: demo_state_def initial_state_def demo_request_def by_priority_def decode_candidates_def std_sort_def)

text \<open>
  The candidate orders do not depend on the sorting algorithm: any permutation of the
  candidates sorted by the comparator is the one used.
\<close>

theorem prefill_order_determined:
  assumes "distinct (map sd_index states)"
    and "mset ys = mset (filter (\<lambda>state. \<not> sd_done state \<and> \<not> sd_prompt_ready state) states)"
    and "sorted_wrt by_priority ys"
  shows "map sd_index ys = prefill_candidates states"
  unfolding prefill_candidates_def
  using bp.std_sort_unique [OF distinct_map_filter [OF assms(1)] assms(2,3)] by simp

theorem prefill_order_determined_witness:
  "map sd_index [demo_state 1 7 False, demo_state 0 5 False] = prefill_candidates [demo_state 0 5 False, demo_state 1 7 False]"
  using prefill_order_determined [of "[demo_state 0 5 False, demo_state 1 7 False]" "[demo_state 1 7 False, demo_state 0 5 False]"]
  by (simp add: demo_state_def initial_state_def demo_request_def by_priority_def)

end
