(* ===== verification/Kv_Fit.thy ===== *)
theory Kv_Fit
  imports Kv_Interface
begin

text \<open>
  Sufficient capacity: as long as no block is leaked, everything that no sequence holds can be had. A cached prefix
  is attached to a sequence as a whole or not at all, so the blocks of a cache entry are idle together; then the blocks
  that cannot be reclaimed are exactly those with a reference, and they are at most the blocks the sequences hold.
\<close>

subsection \<open>Prefixes are attached as a whole\<close>

definition whole :: "nat set \<Rightarrow> kv_impl \<Rightarrow> bool" where
  "whole B impl \<longleftrightarrow> (\<forall>k e. omap_find (kv_prefix_cache impl) k = Some e \<longrightarrow>
     set (pe_block_ids e) \<subseteq> B \<or> set (pe_block_ids e) \<inter> B = {})"

definition prefixes_whole :: "kv_impl \<Rightarrow> bool" where
  "prefixes_whole impl \<longleftrightarrow> (\<forall>sid s. omap_find (kv_sequences impl) sid = Some s \<longrightarrow> whole (set (sq_block_ids s)) impl)"

lemma whole_uncached:
  assumes "whole B impl" and "\<forall>i \<in> N. \<not> cached_in impl i"
  shows "whole (B \<union> N) impl"
  unfolding whole_def
proof (intro allI impI)
  fix k e
  assume e: "omap_find (kv_prefix_cache impl) k = Some e"
  with assms(2) have "set (pe_block_ids e) \<inter> N = {}" by (auto simp: cached_in_def)
  with assms(1) e show "set (pe_block_ids e) \<subseteq> B \<union> N \<or> set (pe_block_ids e) \<inter> (B \<union> N) = {}"
    unfolding whole_def by blast
qed

lemma whole_cong: "kv_prefix_cache impl' = kv_prefix_cache impl \<Longrightarrow> whole B impl' = whole B impl"
  by (simp add: whole_def)

lemma whole_evolves: "whole B impl \<Longrightarrow> evolves new impl impl' \<Longrightarrow> whole B impl'"
  by (auto simp: whole_def evolves_def)

lemma prefixes_whole_evolves: "prefixes_whole impl \<Longrightarrow> evolves new impl impl' \<Longrightarrow> prefixes_whole impl'"
  using whole_evolves unfolding prefixes_whole_def by (metis evolves_def)

lemma prefixes_whole_cong:
  "kv_prefix_cache impl' = kv_prefix_cache impl \<Longrightarrow> kv_sequences impl' = kv_sequences impl \<Longrightarrow>
   prefixes_whole impl' = prefixes_whole impl"
  by (simp add: prefixes_whole_def whole_cong [of impl' impl])

lemma prefixes_whole_put:
  assumes "prefixes_whole impl" and "omap_inv (kv_sequences impl)" and "whole (set (sq_block_ids s)) impl"
  shows "prefixes_whole (impl\<lparr>kv_sequences := omap_put sid s (kv_sequences impl)\<rparr>)"
  using assms by (auto simp: prefixes_whole_def om.find_put whole_def)

lemma whole_entry:
  assumes "cache_ok impl" and "omap_find (kv_prefix_cache impl) k = Some e"
  shows "whole (set (pe_block_ids e)) impl"
  unfolding whole_def
proof (intro allI impI)
  fix k' e'
  assume "omap_find (kv_prefix_cache impl) k' = Some e'"
  with assms entry_blocks_disjoint [OF assms(1), of k' e' k e] show "set (pe_block_ids e') \<subseteq> set (pe_block_ids e) \<or> set (pe_block_ids e') \<inter> set (pe_block_ids e) = {}"
    by (cases "k' = k") auto
qed

lemma hold_whole:
  assumes inv: "kv_inv impl" and here: "omap_find (kv_prefix_cache impl) k = Some e" and pw: "prefixes_whole impl"
    and alloc: "AllocateBlocks m '''' (map_blocks (set (pe_block_ids e)) (bump 1) impl) = (ids, impl2)"
  shows "prefixes_whole impl2" "whole (set (pe_block_ids e @ ids)) impl2"
proof -
  let ?hold = "map_blocks (set (pe_block_ids e)) (bump 1) impl"
  note spec = AllocateBlocks_spec [OF kv_invp_hold [OF inv here] alloc]
  have "prefixes_whole ?hold" "whole (set (pe_block_ids e)) ?hold"
    using pw whole_entry [OF kv_invpD(4) here] inv prefixes_whole_cong [of ?hold impl] whole_cong [of ?hold impl]
    by (simp_all add: frame_simps kv_inv_def)
  with spec(2,4) show "prefixes_whole impl2" "whole (set (pe_block_ids e @ ids)) impl2"
    using whole_uncached [of "set (pe_block_ids e)" impl2 "set ids"]
    by (auto intro: prefixes_whole_evolves whole_evolves)
qed

lemma attach_hit_whole:
  assumes inv: "kv_inv impl" and here: "omap_find (kv_prefix_cache impl) k = Some e" and pw: "prefixes_whole impl"
    and new: "omap_find (kv_sequences impl) sid = None" and run: "attach_hit sid sq e m bc impl = (r, impl')"
  shows "prefixes_whole impl'"
  using inv here run
proof (cases rule: attach_hit_cases)
  case (fail impl2)
  from hold_whole(1) [OF inv here pw fail(1)] show ?thesis
    using prefixes_whole_cong [of impl' impl2] by (simp add: fail(6) frame_simps)
next
  case (ok suffix impl2)
  note w = hold_whole [OF inv here pw ok(1)] and spec = AllocateBlocks_spec [OF kv_invp_hold [OF inv here] ok(1)]
  let ?sq = "sq\<lparr>sq_block_ids := pe_block_ids e @ suffix\<rparr>"
  have "omap_find (kv_sequences impl2) sid = None" using new spec(2) by (simp add: evolves_def frame_simps)
  then have put: "omap_emplace sid ?sq (kv_sequences impl2) = omap_put sid ?sq (kv_sequences impl2)"
    by (rule omap_emplace_new)
  have "prefixes_whole (impl2\<lparr>kv_sequences := omap_put sid ?sq (kv_sequences impl2)\<rparr>)"
    using w kv_invp_omap(1) [OF spec(1)] by (intro prefixes_whole_put) simp_all
  then show ?thesis
    using prefixes_whole_cong [of impl' "impl2\<lparr>kv_sequences := omap_put sid ?sq (kv_sequences impl2)\<rparr>"]
    by (simp add: ok(4) put)
qed

lemma prefixes_whole_register:
  assumes pw: "prefixes_whole impl2" and oinv: "omap_inv (kv_sequences impl2)" "omap_inv (kv_prefix_cache impl2)"
    and seqs: "kv_sequences impl' = omap_put sid sq (kv_sequences impl2)"
    and cache: "kv_prefix_cache impl' \<in> {omap_put key e (kv_prefix_cache impl2), kv_prefix_cache impl2}"
    and new: "set (pe_block_ids e) \<subseteq> set (sq_block_ids sq)" "\<forall>i \<in> set (sq_block_ids sq). \<not> cached_in impl2 i"
    and old: "\<And>sid s. omap_find (kv_sequences impl2) sid = Some s \<Longrightarrow> set (pe_block_ids e) \<inter> set (sq_block_ids s) = {}"
  shows "prefixes_whole impl'"
  unfolding prefixes_whole_def whole_def
proof (intro allI impI)
  fix sid' s k' e'
  assume "omap_find (kv_sequences impl') sid' = Some s" and "omap_find (kv_prefix_cache impl') k' = Some e'"
  then have "s = sq \<or> omap_find (kv_sequences impl2) sid' = Some s" "e' = e \<or> omap_find (kv_prefix_cache impl2) k' = Some e'"
    using cache by (auto simp: seqs om.find_put [OF oinv(1)] om.find_put [OF oinv(2)] split: if_splits)
  moreover have "set (pe_block_ids e') \<inter> set (sq_block_ids sq) = {}" if "omap_find (kv_prefix_cache impl2) k' = Some e'"
    using new(2) that by (auto simp: cached_in_def)
  ultimately show "set (pe_block_ids e') \<subseteq> set (sq_block_ids s) \<or> set (pe_block_ids e') \<inter> set (sq_block_ids s) = {}"
    using new(1) old pw unfolding prefixes_whole_def whole_def by metis
qed

lemma attach_miss_whole:
  assumes inv: "kv_inv impl" and pw: "prefixes_whole impl" and new: "omap_find (kv_sequences impl) sid = None"
    and run: "attach_miss sid key ct sq n m bc impl = (r, impl')"
  shows "prefixes_whole impl'"
proof -
  note inv0 = inv [unfolded kv_inv_def]
  show ?thesis using inv run
  proof (cases rule: attach_miss_cases)
    case no_prefix
    from prefixes_whole_evolves [OF pw AllocateBlocks_spec(2) [OF inv0 no_prefix(1)]] show ?thesis .
  next
    case (no_suffix prefix impl1 impl2)
    note spec1 = AllocateBlocks_spec [OF inv0 no_suffix(1)]
    from prefixes_whole_evolves [OF prefixes_whole_evolves [OF pw spec1(2)] AllocateBlocks_spec(2) [OF spec1(1) no_suffix(3)]]
    show ?thesis using prefixes_whole_cong [of impl' impl2] by (simp add: no_suffix(6) frame_simps)
  next
    case (ok prefix suffix impl1 impl2)
    note spec1 = AllocateBlocks_spec [OF inv0 ok(1)]
    note spec2 = AllocateBlocks_spec [OF spec1(1) ok(3)]
    have pw2: "prefixes_whole impl2" using prefixes_whole_evolves [OF prefixes_whole_evolves [OF pw spec1(2)] spec2(2)] .
    have seqs: "kv_sequences impl2 = kv_sequences impl" using spec1(2) spec2(2) by (simp add: evolves_def)
    note oinv = kv_invp_omap [OF spec2(1)]
    have uncached: "\<forall>i \<in> set (prefix @ suffix). \<not> cached_in impl2 i"
      using spec1(4) spec2(4) cached_in_mono [OF spec2(2)] by auto
    have old: "set prefix \<inter> set (sq_block_ids s) = {}" if "omap_find (kv_sequences impl2) sid' = Some s" for sid' s
    proof -
      have "omap_find (kv_sequences impl) sid' = Some s" using that by (simp add: seqs)
      from seq_refs_pos [OF kv_invpD(3) [OF inv0] this] spec1(4) show ?thesis by fastforce
    qed
    show ?thesis
      by (rule prefixes_whole_register [OF pw2 oinv, where sid = sid and sq = "sq\<lparr>sq_block_ids := prefix @ suffix\<rparr>"
            and key = key and e = "\<lparr>pe_token_count = ct, pe_block_ids = prefix\<rparr>"])
        (use uncached old new in \<open>auto simp: ok(6) seqs omap_emplace_new\<close>)
  qed
qed

lemma AllocatePrompt_whole:
  assumes inv: "kv_inv impl" and pw: "prefixes_whole impl" and run: "AllocatePrompt sid n key p impl = (r, impl')"
  shows "prefixes_whole impl'"
  using run
proof (cases rule: AllocatePrompt_cases)
  case (hit e)
  from attach_hit_whole [OF inv hit(4) pw hit(2,6)] show ?thesis .
next
  case (miss impl0)
  then have "kv_inv impl0" "kv_sequences impl0 = kv_sequences impl" "prefixes_whole impl0"
    using inv pw kv_inv_count_miss prefixes_whole_cong [of impl0 impl] by auto
  with miss(2) show ?thesis by (intro attach_miss_whole [OF _ _ _ miss(5)]) simp_all
qed (use pw in auto)

lemma AppendTokens_whole:
  assumes inv: "kv_inv impl" and pw: "prefixes_whole impl" and run: "AppendTokens sid n impl = (r, impl')"
  shows "prefixes_whole impl'"
  using inv run
proof (cases rule: AppendTokens_cases)
  case (fail s)
  from prefixes_whole_evolves [OF pw AllocateBlocks_spec(2) [OF inv [unfolded kv_inv_def] fail(3)]] show ?thesis .
next
  case (ok s ids impl1)
  note spec = AllocateBlocks_spec [OF inv [unfolded kv_inv_def] ok(3)]
  have "whole (set (sq_block_ids s)) impl1"
    using pw ok(1) whole_evolves [OF _ spec(2)] by (auto simp: prefixes_whole_def)
  then have "whole (set (sq_block_ids (grown_sequence s n ids))) impl1"
    using spec(4) whole_uncached [of "set (sq_block_ids s)" impl1 "set ids"] by (simp add: grown_sequence_def)
  with prefixes_whole_evolves [OF pw spec(2)] kv_invp_omap(1) [OF spec(1)] show ?thesis
    unfolding ok(6) by (intro prefixes_whole_put)
qed (use pw in auto)

lemma ReleaseSequence_whole:
  assumes inv: "kv_inv impl" and pw: "prefixes_whole impl"
  shows "prefixes_whole (ReleaseSequence sid impl)"
proof -
  have "whole B (ReleaseSequence sid impl) = whole B impl" for B
    using ReleaseSequence_outcome(3) [OF inv] by (rule whole_cong)
  moreover have "omap_find (kv_sequences impl) sid' = Some s"
    if "omap_find (kv_sequences (ReleaseSequence sid impl)) sid' = Some s" for sid' s
    using that kv_invp_omap(1) [OF inv [unfolded kv_inv_def]]
    by (auto simp: ReleaseSequence_outcome(2) [OF inv] om.find_erase split: if_splits)
  ultimately show ?thesis using pw unfolding prefixes_whole_def by metis
qed

subsection \<open>What can be reclaimed\<close>

lemma refs_member:
  assumes "kv_invp pend impl" and "distinct pend"
  shows "seq_refs impl i + count_list pend i = 0 \<longleftrightarrow>
    i \<notin> set pend \<and> (\<forall>sid s. omap_find (kv_sequences impl) sid = Some s \<longrightarrow> i \<notin> set (sq_block_ids s))"
proof -
  note oinv = kv_invp_omap(1) [OF assms(1)]
  have "count_list xs i = 0 \<longleftrightarrow> i \<notin> set xs" for xs :: "nat list" by (induction xs) auto
  moreover from this have "seq_refs impl i = 0 \<longleftrightarrow> (\<forall>sid s. (sid, s) \<in> set (kv_sequences impl) \<longrightarrow> i \<notin> set (sq_block_ids s))"
    by (auto simp: seq_refs_def)
  ultimately show ?thesis by (simp add: om.in_entries_iff [OF oinv] conj_commute)
qed

lemma entry_idle_iff:
  assumes inv: "kv_invp pend impl" and dist: "distinct pend" and pw: "prefixes_whole impl" and wp: "whole (set pend) impl"
    and here: "omap_find (kv_prefix_cache impl) k = Some e" and i: "i \<in> set (pe_block_ids e)"
  shows "PrefixEntryIsIdle impl e \<longleftrightarrow> ref_count (kv_blocks impl ! i) = 0"
proof -
  have len: "j < length (kv_blocks impl)" if "j \<in> set (pe_block_ids e)" for j
    using kv_invpD(4) [OF inv] here that by (auto simp: cache_ok_def entry_ok_def)
  have refs: "ref_count (kv_blocks impl ! j) = 0 \<longleftrightarrow> seq_refs impl j + count_list pend j = 0"
    if "j \<in> set (pe_block_ids e)" for j
    using kv_invpD(2) [OF inv] len [OF that] by (auto simp: blocks_ok_def block_ok_def)
  have all: "ref_count (kv_blocks impl ! j) = 0" if "j \<in> set (pe_block_ids e)" "ref_count (kv_blocks impl ! i) = 0" for j
  proof -
    have free: "i \<notin> set pend" "\<And>sid s. omap_find (kv_sequences impl) sid = Some s \<Longrightarrow> i \<notin> set (sq_block_ids s)"
      using that(2) refs [OF i] refs_member [OF inv dist, of i] by auto
    have "j \<notin> set pend" using wp here i that(1) free(1) by (auto simp: whole_def)
    moreover have "j \<notin> set (sq_block_ids s)" if s: "omap_find (kv_sequences impl) sid = Some s" for sid s
      using pw here i \<open>j \<in> set (pe_block_ids e)\<close> free(2) [OF s] s by (fastforce simp: prefixes_whole_def whole_def)
    ultimately show ?thesis using refs [OF that(1)] refs_member [OF inv dist, of j] by simp
  qed
  show ?thesis using all i len by (auto simp: PrefixEntryIsIdle_def blocks_idle_iff)
qed

lemma reclaimable_unheld:
  assumes inv: "kv_invp pend impl" and dist: "distinct pend" and pw: "prefixes_whole impl" and wp: "whole (set pend) impl"
    and tight: "\<And>i. \<not> leaked impl i"
  shows "reclaimable impl =
    cfg_total_blocks (kv_config impl) - int (card {i. i < length (kv_blocks impl) \<and> ref_count (kv_blocks impl ! i) \<noteq> 0})"
proof -
  let ?es = "filter (\<lambda>(_, e). PrefixEntryIsIdle impl e) (kv_prefix_cache impl)"
  let ?cached = "{i. i < length (kv_blocks impl) \<and> occupied (kv_blocks impl ! i) \<and> ref_count (kv_blocks impl ! i) = 0}"
  let ?held = "{i. i < length (kv_blocks impl) \<and> ref_count (kv_blocks impl ! i) \<noteq> 0}"
  note oinv = kv_invp_omap(2) [OF inv]
  have find: "omap_find (kv_prefix_cache impl) k = Some e" if "(k, e) \<in> set ?es" for k e
    using that om.in_entries_iff [OF oinv] by auto
  have entry: "entry_ok impl k e" if "(k, e) \<in> set ?es" for k e
    using kv_invpD(4) [OF inv] find [OF that] by (simp add: cache_ok_def)
  have "sum_list (map (\<lambda>(_, e). if PrefixEntryIsIdle impl e then length (pe_block_ids e) else 0) es) =
      sum_list (map (\<lambda>(_, e). length (pe_block_ids e)) (filter (\<lambda>(_, e). PrefixEntryIsIdle impl e) es))"
    for es :: "(string \<times> PrefixEntry) list"
    by (induction es) (auto split: prod.splits)
  then have "idle_sum impl (kv_prefix_cache impl) = sum_list (map (\<lambda>(_, e). length (pe_block_ids e)) ?es)"
    by (simp add: idle_sum_def)
  also have "\<dots> = card (\<Union>(k, e) \<in> set ?es. set (pe_block_ids e))"
    using entry om.entries_distinct [OF oinv]
    by (intro sum_length_disjoint [where key = "\<lambda>i. cached_prefix_key (kv_blocks impl ! i)"])
      (auto simp: entry_ok_def distinct_map_filter)
  also have "(\<Union>(k, e) \<in> set ?es. set (pe_block_ids e)) = ?cached"
  proof (intro equalityI subsetI)
    fix i assume i: "i \<in> ?cached"
    then obtain k e where e: "omap_find (kv_prefix_cache impl) k = Some e" "i \<in> set (pe_block_ids e)"
      using tight [of i] by (auto simp: leaked_def cached_in_def)
    with i have "PrefixEntryIsIdle impl e" using entry_idle_iff [OF inv dist pw wp e] by simp
    with e om.in_entries_iff [OF oinv] show "i \<in> (\<Union>(k, e) \<in> set ?es. set (pe_block_ids e))" by force
  qed (use entry in \<open>auto simp: entry_ok_def PrefixEntryIsIdle_def blocks_idle_iff\<close>)
  finally have idle: "idle_sum impl (kv_prefix_cache impl) = card ?cached" .
  have occ: "occupied (kv_blocks impl ! i)" if "i < length (kv_blocks impl)" "ref_count (kv_blocks impl ! i) \<noteq> 0" for i
    using kv_invpD(2) [OF inv] that by (auto simp: blocks_ok_def block_ok_def empty_block_def)
  then have "{i. i < length (kv_blocks impl) \<and> occupied (kv_blocks impl ! i)} = ?cached \<union> ?held" by auto
  then have "UsedBlockCount impl = int (card (?cached \<union> ?held))" by (simp add: UsedBlockCount_card)
  also have "card (?cached \<union> ?held) = card ?cached + card ?held" by (intro card_Un_disjoint) auto
  finally show ?thesis
    using kv_invpD(1) [OF inv] idle by (simp add: reclaimable_def UsedBlockCount_def config_ok_def)
qed

definition view_blocks :: "kv_view \<Rightarrow> int" where
  "view_blocks v = (\<Sum>sid \<in> dom v. snd (snd (the (v sid))))"

definition kv_total :: "kv_impl \<Rightarrow> int" where
  "kv_total impl = cfg_total_blocks (kv_config impl)"

lemma view_blocks_sequences:
  assumes "omap_inv (kv_sequences impl)"
  shows "view_blocks (kv_view impl) = (\<Sum>(sid, s) \<in> set (kv_sequences impl). int (length (sq_block_ids s)))"
proof -
  have iff: "(sid, s) \<in> set (kv_sequences impl) \<longleftrightarrow> omap_find (kv_sequences impl) sid = Some s" for sid s
    by (rule om.in_entries_iff [OF assms])
  have "dom (kv_view impl) = {sid. \<exists>s. (sid, s) \<in> set (kv_sequences impl)}"
    by (auto simp: kv_view_def iff)
  also have "\<dots> = fst ` set (kv_sequences impl)" by force
  finally have "dom (kv_view impl) = fst ` set (kv_sequences impl)" .
  moreover have "inj_on fst (set (kv_sequences impl))"
    by (auto simp: inj_on_def iff)
  moreover have "snd (snd (the (kv_view impl (fst x)))) = (case x of (sid, s) \<Rightarrow> int (length (sq_block_ids s)))"
    if "x \<in> set (kv_sequences impl)" for x
  proof -
    obtain sid s where x: "x = (sid, s)" by fastforce
    from that show ?thesis unfolding x iff by (simp add: kv_view_def)
  qed
  ultimately show ?thesis unfolding view_blocks_def by (simp add: sum.reindex)
qed

lemma held_le:
  assumes inv: "kv_invp pend impl" and dist: "distinct pend"
  shows "int (card {i. i < length (kv_blocks impl) \<and> ref_count (kv_blocks impl ! i) \<noteq> 0}) \<le>
    view_blocks (kv_view impl) + int (length pend)"
proof -
  let ?attached = "\<Union>(sid, s) \<in> set (kv_sequences impl). set (sq_block_ids s)"
  note oinv = kv_invp_omap(1) [OF inv]
  have "{i. i < length (kv_blocks impl) \<and> ref_count (kv_blocks impl ! i) \<noteq> 0} \<subseteq> set pend \<union> ?attached"
  proof
    fix i assume "i \<in> {i. i < length (kv_blocks impl) \<and> ref_count (kv_blocks impl ! i) \<noteq> 0}"
    then have "seq_refs impl i + count_list pend i \<noteq> 0"
      using kv_invpD(2) [OF inv] by (auto simp: blocks_ok_def block_ok_def)
    then consider "i \<in> set pend" | sid s where "omap_find (kv_sequences impl) sid = Some s" "i \<in> set (sq_block_ids s)"
      unfolding refs_member [OF inv dist] by blast
    then show "i \<in> set pend \<union> ?attached"
    proof cases
      case 2
      then have "(sid, s) \<in> set (kv_sequences impl)" by (simp add: om.in_entries_iff [OF oinv])
      with 2(2) show ?thesis by blast
    qed simp
  qed
  then have "card {i. i < length (kv_blocks impl) \<and> ref_count (kv_blocks impl ! i) \<noteq> 0} \<le> card (set pend \<union> ?attached)"
    by (intro card_mono) auto
  also have "\<dots> \<le> card (set pend) + card ?attached" by (rule card_Un_le)
  also have "card ?attached \<le> (\<Sum>x \<in> set (kv_sequences impl). card (case x of (sid, s) \<Rightarrow> set (sq_block_ids s)))"
    by (rule card_UN_le) simp
  also have "\<dots> \<le> (\<Sum>(sid, s) \<in> set (kv_sequences impl). length (sq_block_ids s))"
    by (intro sum_mono) (auto simp: card_length split: prod.splits)
  finally have "card {i. i < length (kv_blocks impl) \<and> ref_count (kv_blocks impl ! i) \<noteq> 0} \<le>
      length pend + (\<Sum>(sid, s) \<in> set (kv_sequences impl). length (sq_block_ids s))"
    using card_length [of pend] by linarith
  then have "int (card {i. i < length (kv_blocks impl) \<and> ref_count (kv_blocks impl ! i) \<noteq> 0}) \<le>
      int (length pend + (\<Sum>(sid, s) \<in> set (kv_sequences impl). length (sq_block_ids s)))"
    by (rule of_nat_mono)
  also have "\<dots> = view_blocks (kv_view impl) + int (length pend)"
    by (simp add: view_blocks_sequences [OF oinv] case_prod_unfold)
  finally show ?thesis .
qed

subsection \<open>Requests that fit are served\<close>

lemma unleaked_evolves:
  assumes "\<And>i. \<not> leaked impl i" and "evolves new impl impl'" and "\<And>i. i \<in> new \<Longrightarrow> ref_count (kv_blocks impl' ! i) \<noteq> 0"
  shows "\<not> leaked impl' i"
proof
  assume l: "leaked impl' i"
  then have i: "i \<notin> new" "i < length (kv_blocks impl)" "kv_blocks impl' ! i \<noteq> empty_block"
    using assms(2,3) by (auto simp: leaked_def evolves_def empty_block_def)
  with assms(2) have "kv_blocks impl' ! i = kv_blocks impl ! i" "cached_in impl i \<longrightarrow> cached_in impl' i"
    by (auto simp: evolves_def)
  with l i assms(1) [of i] show False by (auto simp: leaked_def)
qed

lemma unleaked_hold:
  assumes "kv_inv impl" and "\<And>i. \<not> leaked impl i"
  shows "\<not> leaked (map_blocks ids (bump 1) impl) i"
proof
  assume l: "leaked (map_blocks ids (bump 1) impl) i"
  then have i: "i < length (kv_blocks impl)" by (simp add: leaked_def frame_simps)
  then have "0 \<le> ref_count (kv_blocks impl ! i)"
    using assms(1) by (simp add: kv_inv_def kv_invp_def blocks_ok_def block_ok_def)
  with l i assms(2) [of i] show False by (auto simp: leaked_def cached_in_def frame_simps bump_def split: if_splits)
qed

lemma AllocateBlocks_fits:
  assumes inv: "kv_invp pend impl" and dist: "distinct pend" and pw: "prefixes_whole impl" and wp: "whole (set pend) impl"
    and tight: "\<And>i. \<not> leaked impl i" and n: "0 \<le> n"
    and room: "view_blocks (kv_view impl) + int (length pend) + n \<le> kv_total impl"
    and run: "AllocateBlocks n key impl = (ids, impl')"
  shows "int (length ids) = n"
  using AllocateBlocks_succeeds_iff [OF inv n run] reclaimable_unheld [OF inv dist pw wp tight] held_le [OF inv dist] room
  by (simp add: kv_total_def)

lemma kv_view_cong: "kv_sequences impl' = kv_sequences impl \<Longrightarrow> kv_view impl' = kv_view impl"
  by (simp add: kv_view_def fun_eq_iff)

lemma attach_hit_fits:
  assumes inv: "kv_inv impl" and here: "omap_find (kv_prefix_cache impl) k = Some e" and pw: "prefixes_whole impl"
    and tight: "\<And>i. \<not> leaked impl i" and m: "0 \<le> m"
    and room: "view_blocks (kv_view impl) + int (length (pe_block_ids e)) + m \<le> kv_total impl"
    and run: "attach_hit sid sq e m bc impl = (r, impl')"
  shows "al_ok r"
  using inv here run
proof (cases rule: attach_hit_cases)
  case (fail impl2)
  let ?hold = "map_blocks (set (pe_block_ids e)) (bump 1) impl"
  have "distinct (pe_block_ids e)" using inv here by (auto simp: kv_inv_def kv_invp_def cache_ok_def entry_ok_def)
  moreover have "prefixes_whole ?hold" "whole (set (pe_block_ids e)) ?hold" "kv_view ?hold = kv_view impl" "kv_total ?hold = kv_total impl"
    using pw whole_entry [OF kv_invpD(4) here] inv prefixes_whole_cong [of ?hold impl] whole_cong [of ?hold impl]
      kv_view_cong [of ?hold impl]
    by (simp_all add: frame_simps kv_inv_def kv_total_def)
  ultimately have "int (length ([] :: nat list)) = m"
    using m room unleaked_hold [OF inv tight]
    by (intro AllocateBlocks_fits [OF kv_invp_hold [OF inv here] _ _ _ _ _ _ fail(1)]) simp_all
  with fail(2) show ?thesis by simp
qed (simp add: AllocationOk_def)

lemma attach_miss_fits:
  assumes inv: "kv_inv impl" and pw: "prefixes_whole impl" and tight: "\<And>i. \<not> leaked impl i" and n: "0 \<le> n" and m: "0 \<le> m"
    and room: "view_blocks (kv_view impl) + n + m \<le> kv_total impl"
    and run: "attach_miss sid key ct sq n m bc impl = (r, impl')"
  shows "al_ok r"
proof -
  note inv0 = inv [unfolded kv_inv_def]
  have nil: "whole (set []) impl" by (simp add: whole_def)
  note first = AllocateBlocks_fits [OF inv0 _ pw nil tight n]
  show ?thesis using inv run
  proof (cases rule: attach_miss_cases)
    case no_prefix
    with first [OF _ _ no_prefix(1)] room m show ?thesis by simp
  next
    case (no_suffix prefix impl1 impl2)
    note spec = AllocateBlocks_spec [OF inv0 no_suffix(1)]
    have "\<not> leaked impl1 i" for i
      using spec(4) by (intro unleaked_evolves [OF tight spec(2)]) (simp add: fresh_block_def)
    moreover have "whole (set prefix) impl1"
      using whole_uncached [of "{}" impl1 "set prefix"] spec(4) by (simp add: whole_def)
    moreover have "kv_view impl1 = kv_view impl" "kv_total impl1 = kv_total impl"
      using spec(2) kv_view_cong [of impl1 impl] by (simp_all add: evolves_def kv_total_def)
    moreover have "view_blocks (kv_view impl) + int (length prefix) + m \<le> kv_total impl" using room no_suffix(2) by linarith
    ultimately have "int (length ([] :: nat list)) = m"
      using spec(1,3) m prefixes_whole_evolves [OF pw spec(2)]
      by (intro AllocateBlocks_fits [OF _ _ _ _ _ _ _ no_suffix(3)]) simp_all
    with no_suffix(4) show ?thesis by simp
  qed (simp add: AllocationOk_def)
qed

lemma AllocatePrompt_fits:
  assumes inv: "kv_inv impl" and pw: "prefixes_whole impl" and tight: "\<And>i. \<not> leaked impl i"
    and sid: "sid \<noteq> ''''" "kv_view impl sid = None"
    and room: "view_blocks (kv_view impl) + prompt_need (kv_per_block impl) n key p \<le> kv_total impl"
    and run: "AllocatePrompt sid n key p impl = (r, impl')"
  shows "al_ok r"
proof -
  have t: "0 < cfg_tokens_per_block (kv_config impl)" using inv by (simp add: kv_inv_def kv_invp_def config_ok_def)
  note nonneg = CeilDiv_nonneg [OF t] and room' = room [unfolded prompt_need_def kv_per_block_def]
  show ?thesis using run
  proof (cases rule: AllocatePrompt_cases)
    case dup
    with sid(2) show ?thesis by (simp add: kv_view_def)
  next
    case (hit e)
    have "int (length (pe_block_ids e)) = CeilDiv (prompt_cacheable n key p) (cfg_tokens_per_block (kv_config impl))"
      using inv hit(4,5) by (auto simp: kv_inv_def kv_invp_def cache_ok_def entry_ok_def)
    with room' nonneg show ?thesis by (intro attach_hit_fits [OF inv hit(4) pw tight _ _ hit(6)]) simp_all
  next
    case (miss impl0)
    then have "kv_inv impl0" "prefixes_whole impl0" "kv_view impl0 = kv_view impl" "kv_total impl0 = kv_total impl"
      "\<And>i. \<not> leaked impl0 i"
      using inv pw tight kv_inv_count_miss prefixes_whole_cong [of impl0 impl] kv_view_cong [of impl0 impl]
      by (auto simp: kv_total_def leaked_def cached_in_def)
    with room' nonneg show ?thesis by (intro attach_miss_fits [OF _ _ _ _ _ _ miss(5)]) simp_all
  qed (use sid in simp)
qed

lemma AppendTokens_fits:
  assumes inv: "kv_inv impl" and pw: "prefixes_whole impl" and tight: "\<And>i. \<not> leaked impl i"
    and here: "kv_view impl sid = Some (q, g, b)" and n: "0 < n"
    and room: "view_blocks (kv_view impl) + (CeilDiv (g + n) (kv_per_block impl) - CeilDiv g (kv_per_block impl)) \<le> kv_total impl"
    and run: "AppendTokens sid n impl = (r, impl')"
  shows "al_ok r"
  using inv run
proof (cases rule: AppendTokens_cases)
  case absent
  with here show ?thesis by (simp add: kv_view_def)
next
  case (fail s)
  have t: "0 < cfg_tokens_per_block (kv_config impl)" using inv by (simp add: kv_inv_def kv_invp_def config_ok_def)
  have g: "sq_generated_tokens s = g" using here fail(1) by (simp add: kv_view_def)
  have "int (length ([] :: nat list)) = append_blocks impl s n"
    using room g CeilDiv_mono [OF t, of g "g + n"] n
    by (intro AllocateBlocks_fits [OF inv [unfolded kv_inv_def] _ pw _ tight _ _ fail(3)])
      (simp_all add: whole_def append_blocks_def kv_per_block_def)
  with fail(4) show ?thesis by simp
qed (simp_all add: AllocationOk_def)

subsection \<open>The contract of sufficient capacity\<close>

text \<open>
  A cache that serves what fits. \<open>fair\<close> says which prompts may be registered without spoiling the cache, \<open>good\<close> is what
  they keep; the blocks asked for fit if they and the blocks held are no more than there are.
\<close>

locale kv_room = kv_cache +
  fixes total :: "'a \<Rightarrow> int" and good :: "'a \<Rightarrow> bool" and fair :: "int \<Rightarrow> string \<Rightarrow> int \<Rightarrow> bool"
  assumes good_invar: "good m \<Longrightarrow> invar m"
    and good_alloc: "good m \<Longrightarrow> fair n key p \<Longrightarrow> alloc sid n key p m = (r, m') \<Longrightarrow> good m' \<and> total m' = total m"
    and good_append: "good m \<Longrightarrow> append sid n m = (r, m') \<Longrightarrow> good m' \<and> total m' = total m"
    and good_release: "good m \<Longrightarrow> good (release sid m) \<and> total (release sid m) = total m"
    and alloc_fits: "good m \<Longrightarrow> sid \<noteq> '''' \<Longrightarrow> view m sid = None \<Longrightarrow>
      view_blocks (view m) + prompt_need (per_block m) n key p \<le> total m \<Longrightarrow> alloc sid n key p m = (r, m') \<Longrightarrow> al_ok r"
    and append_fits: "good m \<Longrightarrow> view m sid = Some (q, g, b) \<Longrightarrow> 0 < n \<Longrightarrow>
      view_blocks (view m) + (CeilDiv (g + n) (per_block m) - CeilDiv g (per_block m)) \<le> total m \<Longrightarrow>
      append sid n m = (r, m') \<Longrightarrow> al_ok r"
begin

lemma append_held_fits:
  assumes "good m" and "holds_exactly m sid n key p g" and "0 < k"
    and "view_blocks (view m) + (CeilDiv (g + k) (per_block m) - CeilDiv g (per_block m)) \<le> total m"
    and "append sid k m = (r, m')"
  shows "al_ok r"
  using assms(2) append_fits [OF assms(1) _ assms(3,4,5)] by (simp add: holds_exactly_def)

lemma alloc_release_restores:
  assumes "good m" and "fair n key p" and "alloc sid n key p m = (r, m')" and "al_ok r"
  shows "view (release sid m') = view m \<and> good (release sid m')"
proof -
  have good: "good m'" using good_alloc [OF assms(1-3)] by simp
  from alloc_ok [OF good_invar [OF assms(1)] assms(3,4)]
  have "view m sid = None" "view m' = (view m)(sid \<mapsto> (max 0 n, 0, prompt_need (per_block m) n key p))" by simp_all
  then show ?thesis using release_view [OF good_invar [OF good]] good_release [OF good] by (simp add: fun_upd_idem)
qed

end

definition room :: "(string \<Rightarrow> int) \<Rightarrow> kv_impl \<Rightarrow> bool" where
  "room tok impl \<longleftrightarrow> kv_inv impl \<and> token_discipline tok impl \<and> prefixes_whole impl"

definition fair :: "(string \<Rightarrow> int) \<Rightarrow> int \<Rightarrow> string \<Rightarrow> int \<Rightarrow> bool" where
  "fair tok n key p \<longleftrightarrow> prompt_cacheable n key p = 0 \<or> prompt_cacheable n key p = tok key"

lemma roomD:
  assumes "room tok impl"
  shows "kv_inv impl" "prefixes_whole impl" "\<not> leaked impl i"
  using assms discipline_no_leak by (auto simp: room_def)

interpretation kvr: kv_room AllocatePrompt AppendTokens ReleaseSequence SequenceBlockCount kv_view kv_per_block kv_inv
  kv_total "room tok" "fair tok" for tok
proof unfold_locales
  fix m sid n key p r m'
  assume good: "room tok m"
  note inv = roomD(1) [OF good] and pw = roomD(2) [OF good] and tight = roomD(3) [OF good]
  show "kv_inv m" by (rule inv)
  show "room tok (ReleaseSequence sid m) \<and> kv_total (ReleaseSequence sid m) = kv_total m"
    using good kv_inv_release [OF inv] discipline_ReleaseSequence [OF inv] ReleaseSequence_whole [OF inv]
    by (simp add: room_def kv_total_def ReleaseSequence_outcome(1) [OF inv])
  {
    assume run: "AllocatePrompt sid n key p m = (r, m')"
    show "room tok m' \<and> kv_total m' = kv_total m" if "fair tok n key p"
      using good that AllocatePrompt_inv [OF inv run] discipline_AllocatePrompt [OF inv _ _ run] AllocatePrompt_whole [OF inv pw run]
        AllocatePrompt_outcome(1) [OF inv run]
      by (simp add: room_def fair_def kv_total_def)
    show "al_ok r" if "sid \<noteq> ''''" "kv_view m sid = None" "view_blocks (kv_view m) + prompt_need (kv_per_block m) n key p \<le> kv_total m"
      by (rule AllocatePrompt_fits [OF inv pw tight that run])
  }
  {
    assume run: "AppendTokens sid n m = (r, m')"
    show "room tok m' \<and> kv_total m' = kv_total m"
      using good AppendTokens_inv [OF inv run] discipline_AppendTokens [OF inv _ run] AppendTokens_whole [OF inv pw run]
        AppendTokens_outcome(1) [OF inv run]
      by (simp add: room_def kv_total_def)
    fix q g b
    show "al_ok r" if "kv_view m sid = Some (q, g, b)" "0 < n"
      "view_blocks (kv_view m) + (CeilDiv (g + n) (kv_per_block m) - CeilDiv g (kv_per_block m)) \<le> kv_total m"
      by (rule AppendTokens_fits [OF inv pw tight that run])
  }
qed

lemma room_Impl: "room tok (Impl cfg)"
proof -
  have "kv_inv (Impl cfg) \<and> token_discipline tok (Impl cfg)" by (rule disciplined_steps [OF rtranclp.rtrancl_refl])
  then show ?thesis by (simp add: room_def prefixes_whole_def Impl_def Let_def)
qed

end
