(* ===== verification/Batcher_Fit.thy ===== *)
theory Batcher_Fit
  imports Batcher_History Kv_Fit
begin

text \<open>
  Batches that fit. If the cache has room for all prompts and all tokens of a batch together, no request is rejected:
  every step of the scheduler keeps the blocks held below the blocks the admitted requests may need in the end.
\<close>

subsection \<open>Blocks held and blocks needed\<close>

definition full_need :: "int \<Rightarrow> SequenceRequest \<Rightarrow> int" where
  "full_need t req = prompt_need t (rq_prompt_tokens req) (rq_prefix_cache_key req) (rq_prefix_cache_tokens req) +
     CeilDiv (rq_max_generated_tokens req) t"

definition slot_need :: "int \<Rightarrow> State \<Rightarrow> int" where
  "slot_need t st = prompt_need t (rq_prompt_tokens (sd_request st)) (rq_prefix_cache_key (sd_request st))
     (rq_prefix_cache_tokens (sd_request st)) + CeilDiv (sd_generated st) t"

definition holders :: "run_state \<Rightarrow> nat set" where
  "holders rn = {i. i < length (rn_states rn) \<and> holding (rn_states rn ! i)}"

lemma finite_holders [simp]: "finite (holders rn)"
  by (simp add: holders_def)

lemma view_blocks_holders:
  assumes inv: "batch_inv t reqs rn"
  shows "view_blocks (kv_view (rn_allocator rn)) = (\<Sum>i \<in> holders rn. slot_need t (rn_states rn ! i))"
proof -
  let ?id = "\<lambda>i. rq_id (sd_request (rn_states rn ! i))" and ?view = "kv_view (rn_allocator rn)"
  have len: "length (rn_states rn) = length reqs" using batch_inv_kv(4) [OF inv] .
  have view: "?view (?id i) = Some (max 0 (rq_prompt_tokens (sd_request (rn_states rn ! i))), sd_generated (rn_states rn ! i),
      slot_need t (rn_states rn ! i))" if "i \<in> holders rn" for i
    using that batch_inv_slot(4) [OF inv, of i] batch_inv_kv(2) [OF inv]
    by (simp add: holders_def exact_hold_def kvc.holds_exactly_def slot_need_def)
  have "dom ?view = ?id ` holders rn"
  proof
    show "dom ?view \<subseteq> ?id ` holders rn"
      using inv len by (force simp: batch_inv_def batch_core_def holders_def dom_def)
  qed (use view in force)
  moreover have "inj_on ?id (holders rn)" using inv len by (auto simp: inj_on_def holders_def batch_inv_def)
  ultimately show ?thesis by (simp add: view_blocks_def sum.reindex view)
qed

lemma prompt_need_nonneg: "0 < t \<Longrightarrow> 0 \<le> prompt_need t n key p"
  by (simp add: prompt_need_def CeilDiv_nonneg)

lemma slot_need_le:
  assumes inv: "batch_inv t reqs rn" and "0 < t" and "i < length reqs"
  shows "slot_need t (rn_states rn ! i) \<le> full_need t (reqs ! i)"
  using batch_inv_slot(3) [OF inv, of i] batch_inv_kv(4) [OF inv] assms(2,3)
  by (auto simp: slot_ok_def slot_need_def full_need_def intro: CeilDiv_mono)

text \<open>One slot may need \<open>x\<close> in all, the others at most what they asked for.\<close>

lemma room_for_slot:
  assumes inv: "batch_inv t reqs rn" and t: "0 < t" and i: "i < length reqs"
    and x: "x \<le> full_need t (reqs ! i)" and fits: "sum_list (map (full_need t) reqs) \<le> blocks"
  shows "(\<Sum>j \<in> holders rn - {i}. slot_need t (rn_states rn ! j)) + x \<le> blocks"
proof -
  have len: "length (rn_states rn) = length reqs" using batch_inv_kv(4) [OF inv] .
  have nonneg: "0 \<le> full_need t (reqs ! j)" if "j < length reqs" for j
  proof -
    have "0 \<le> slot_need t (rn_states rn ! j)" using t by (simp add: slot_need_def prompt_need_nonneg CeilDiv_nonneg)
    with slot_need_le [OF inv t that] show ?thesis by simp
  qed
  have "(\<Sum>j \<in> holders rn - {i}. slot_need t (rn_states rn ! j)) \<le> (\<Sum>j \<in> holders rn - {i}. full_need t (reqs ! j))"
    using slot_need_le [OF inv t] len by (intro sum_mono) (auto simp: holders_def)
  also have "\<dots> \<le> (\<Sum>j \<in> {..<length reqs} - {i}. full_need t (reqs ! j))"
    using nonneg len by (intro sum_mono2) (auto simp: holders_def)
  finally have "(\<Sum>j \<in> holders rn - {i}. slot_need t (rn_states rn ! j)) + x \<le>
      (\<Sum>j \<in> {..<length reqs} - {i}. full_need t (reqs ! j)) + full_need t (reqs ! i)" using x by simp
  also have "\<dots> = (\<Sum>j < length reqs. full_need t (reqs ! j))" using i by (subst sum.remove [of _ i]) auto
  also have "\<dots> = sum_list (map (full_need t) reqs)" by (simp add: sum_list_sum_nth atLeast0LessThan)
  finally show ?thesis using fits by simp
qed
subsection \<open>Steps of a batch that fits\<close>

text \<open>The batches in question: distinct nonempty ids, one token count per prefix key, and room for everything.\<close>

definition batch_fits :: "(string \<Rightarrow> int) \<Rightarrow> int \<Rightarrow> int \<Rightarrow> SequenceRequest list \<Rightarrow> bool" where
  "batch_fits tok t blocks reqs \<longleftrightarrow> distinct (map rq_id reqs) \<and>
     (\<forall>req \<in> set reqs. rq_id req \<noteq> '''' \<and> fair tok (rq_prompt_tokens req) (rq_prefix_cache_key req) (rq_prefix_cache_tokens req)) \<and>
     sum_list (map (full_need t) reqs) \<le> blocks"

definition none_rejected :: "(string \<Rightarrow> int) \<Rightarrow> int \<Rightarrow> run_state \<Rightarrow> bool" where
  "none_rejected tok blocks rn \<longleftrightarrow> room tok (rn_allocator rn) \<and> kv_total (rn_allocator rn) = blocks \<and>
     (\<forall>i < length (rn_states rn). sd_done (rn_states rn ! i) \<longrightarrow> rs_status (rn_results rn ! i) = kCompleted)"

lemma none_rejected_upd:
  assumes "none_rejected tok blocks rn" and "room tok al" and "kv_total al = blocks"
    and "length (rn_results rn) = length (rn_states rn)" and "sd_done st \<longrightarrow> rs_status res = kCompleted"
  shows "none_rejected tok blocks (upd i st res al rn)"
proof -
  have "rs_status ((rn_results rn)[i := res] ! j) = kCompleted"
    if "j < length (rn_states rn)" "sd_done ((rn_states rn)[i := st] ! j)" for j
    using assms(1,4,5) that by (cases "j = i") (auto simp: none_rejected_def)
  with assms(2,3) show ?thesis by (simp add: none_rejected_def)
qed

lemma admission_fits:
  assumes inv: "batch_inv t reqs rn" and t: "0 < t" and fits: "batch_fits tok t blocks reqs" and none: "none_rejected tok blocks rn"
    and i: "i < length (rn_states rn)" "\<not> sd_prompt_allocated (rn_states rn ! i)"
    and run: "AllocatePrompt (rq_id (sd_request (rn_states rn ! i))) (rq_prompt_tokens (sd_request (rn_states rn ! i)))
      (rq_prefix_cache_key (sd_request (rn_states rn ! i))) (rq_prefix_cache_tokens (sd_request (rn_states rn ! i)))
      (rn_allocator rn) = (r, al)"
  shows "al_ok r \<and> room tok al \<and> kv_total al = blocks"
proof -
  note slot = batch_inv_slot [OF inv i(1)] and kv = batch_inv_kv [OF inv]
  have req: "sd_request (rn_states rn ! i) = reqs ! i" using slot(3) by (simp add: slot_ok_def)
  have "reqs ! i \<in> set reqs" using slot(1) by simp
  with fits have ri: "rq_id (reqs ! i) \<noteq> ''''" "fair tok (rq_prompt_tokens (reqs ! i)) (rq_prefix_cache_key (reqs ! i)) (rq_prefix_cache_tokens (reqs ! i))"
    by (auto simp: batch_fits_def)
  have al: "room tok (rn_allocator rn)" "kv_total (rn_allocator rn) = blocks" using none by (simp_all add: none_rejected_def)
  have "i \<notin> holders rn" using i(2) by (simp add: holders_def holding_def)
  have "lone reqs i" using fits slot(1) by (auto simp: lone_def batch_fits_def distinct_conv_nth)
  then have "kv_view (rn_allocator rn) (rq_id (reqs ! i)) = None"
    using lone_unheld [of t reqs rn i] inv i(2) by (simp add: batch_inv_def holding_def)

  moreover have "view_blocks (kv_view (rn_allocator rn)) + prompt_need (kv_per_block (rn_allocator rn))
      (rq_prompt_tokens (reqs ! i)) (rq_prefix_cache_key (reqs ! i)) (rq_prefix_cache_tokens (reqs ! i)) \<le> kv_total (rn_allocator rn)"
  proof -
    have "0 \<le> CeilDiv (rq_max_generated_tokens (reqs ! i)) t" using t by (rule CeilDiv_nonneg)
    then have "(\<Sum>j \<in> holders rn - {i}. slot_need t (rn_states rn ! j)) + prompt_need t (rq_prompt_tokens (reqs ! i))
        (rq_prefix_cache_key (reqs ! i)) (rq_prefix_cache_tokens (reqs ! i)) \<le> blocks"
      using fits by (intro room_for_slot [OF inv t slot(1)]) (simp_all add: full_need_def batch_fits_def)
    with \<open>i \<notin> holders rn\<close> show ?thesis by (simp add: view_blocks_holders [OF inv] kv(2) al(2))
  qed
  ultimately have "al_ok r" using kvr.alloc_fits [OF al(1) ri(1) _ _ run [unfolded req]] by blast
  with kvr.good_alloc [OF al(1) ri(2) run [unfolded req]] al(2) show ?thesis by simp
qed

lemma decode_fits:
  assumes inv: "batch_inv t reqs rn" and t: "0 < t" and fits: "batch_fits tok t blocks reqs" and none: "none_rejected tok blocks rn"
    and i: "i < length (rn_states rn)" "\<not> sd_done (rn_states rn ! i)" "sd_prompt_ready (rn_states rn ! i)"
      "sd_generated (rn_states rn ! i) < rq_max_generated_tokens (sd_request (rn_states rn ! i))"
    and run: "AppendTokens (rq_id (sd_request (rn_states rn ! i))) 1 (rn_allocator rn) = (r, al)"
  shows "al_ok r \<and> room tok al \<and> kv_total al = blocks"
proof -
  note slot = batch_inv_slot [OF inv i(1)] and kv = batch_inv_kv [OF inv]
  let ?st = "rn_states rn ! i"
  have req: "sd_request ?st = reqs ! i" using slot(3) by (simp add: slot_ok_def)
  have al: "room tok (rn_allocator rn)" "kv_total (rn_allocator rn) = blocks" using none by (simp_all add: none_rejected_def)
  have hold: "holding ?st" using ready_holding [OF slot(3) i(3,2)] .
  then have mem: "i \<in> holders rn" using i(1) by (simp add: holders_def)
  have "slot_need t ?st + (CeilDiv (sd_generated ?st + 1) t - CeilDiv (sd_generated ?st) t) \<le> full_need t (reqs ! i)"
    using CeilDiv_mono [OF t, of "sd_generated ?st + 1" "rq_max_generated_tokens (reqs ! i)"] i(4)
    by (simp add: slot_need_def full_need_def req)
  from room_for_slot [OF inv t slot(1) this, of blocks] fits
  have "(\<Sum>j \<in> holders rn. slot_need t (rn_states rn ! j)) + (CeilDiv (sd_generated ?st + 1) t - CeilDiv (sd_generated ?st) t) \<le> blocks"
    using mem by (simp add: batch_fits_def sum.remove [of _ i] algebra_simps)
  then have "al_ok r"
    using kvr.append_held_fits [OF al(1) slot(4) [OF hold, unfolded exact_hold_def] _ _ run]
    by (simp add: view_blocks_holders [OF inv] kv(2) al(2))
  with kvr.good_append [OF al(1) run] al(2) show ?thesis by simp
qed

lemma slot_step_fits:
  assumes step: "slot_step si p ds rn rn'" and inv: "batch_inv t reqs rn" and t: "0 < t"
    and fits: "batch_fits tok t blocks reqs" and none: "none_rejected tok blocks rn"
  shows "none_rejected tok blocks rn'"
proof -
  have len: "length (rn_results rn) = length (rn_states rn)" using batch_inv_kv [OF inv] by simp
  have al: "room tok (rn_allocator rn)" "kv_total (rn_allocator rn) = blocks" using none by (simp_all add: none_rejected_def)
  note admission = admission_fits [OF inv t fits none] and decode = decode_fits [OF inv t fits none]
  note put = none_rejected_upd [OF none _ _ len] and release = kvr.good_release
  from step show ?thesis
  proof cases
    case (reject i st res r al)
    with admission [of i r al] show ?thesis by simp
  next
    case (admitted i st res r al)
    with admission [of i r al] show ?thesis by (simp add: put)
  next
    case (prefill i st res budget)
    with al show ?thesis by (simp add: put)
  next
    case (starve i st res r al)
    with decode [of i r al] show ?thesis by simp
  next
    case (decode i st res r al)
    with decode_fits [OF inv t fits none, of i r al] show ?thesis by (simp add: put)
  next
    case (complete i st res r al)
    with decode_fits [OF inv t fits none, of i r al] release [of tok al] show ?thesis by (simp add: put finish_def)
  next
    case (complete_empty i st res)
    with al release [OF al(1)] show ?thesis by (simp add: put finish_def)
  qed
qed

subsection \<open>Runs of a batch that fits\<close>

text \<open>The tokens a request shares under its prefix key, and that equal keys share equally many.\<close>

definition shared_tokens :: "SequenceRequest \<Rightarrow> int" where
  "shared_tokens req = prompt_cacheable (rq_prompt_tokens req) (rq_prefix_cache_key req) (rq_prefix_cache_tokens req)"

definition one_count_per_key :: "SequenceRequest list \<Rightarrow> bool" where
  "one_count_per_key reqs \<longleftrightarrow> list_all (\<lambda>a. list_all (\<lambda>b. rq_prefix_cache_key a = rq_prefix_cache_key b \<longrightarrow>
     shared_tokens a = 0 \<or> shared_tokens b = 0 \<or> shared_tokens a = shared_tokens b) reqs) reqs"

definition count_of_key :: "SequenceRequest list \<Rightarrow> string \<Rightarrow> int" where
  "count_of_key reqs key = (case find (\<lambda>req. rq_prefix_cache_key req = key \<and> shared_tokens req \<noteq> 0) reqs of
     None \<Rightarrow> 0 | Some req \<Rightarrow> shared_tokens req)"

lemma fair_shared:
  "fair tok (rq_prompt_tokens req) (rq_prefix_cache_key req) (rq_prefix_cache_tokens req) \<longleftrightarrow>
   shared_tokens req = 0 \<or> tok (rq_prefix_cache_key req) = shared_tokens req"
  by (auto simp: fair_def shared_tokens_def)

lemma one_count_fair:
  assumes "one_count_per_key reqs" and "req \<in> set reqs"
  shows "fair (count_of_key reqs) (rq_prompt_tokens req) (rq_prefix_cache_key req) (rq_prefix_cache_tokens req)"
proof (cases "find (\<lambda>b. rq_prefix_cache_key b = rq_prefix_cache_key req \<and> shared_tokens b \<noteq> 0) reqs")
  case None
  with assms(2) show ?thesis by (auto simp: find_None_iff fair_shared)
next
  case (Some b)
  then have "b \<in> set reqs" "rq_prefix_cache_key b = rq_prefix_cache_key req" "shared_tokens b \<noteq> 0"
    by (auto simp: find_Some_iff)
  with assms have "shared_tokens req = 0 \<or> shared_tokens req = shared_tokens b"
    unfolding one_count_per_key_def list_all_iff by metis
  with Some show ?thesis by (auto simp: fair_shared count_of_key_def)
qed

lemma clamp_request_need [simp]:
  "full_need t (clamp_request req) = full_need t req" "shared_tokens (clamp_request req) = shared_tokens req"
  "rq_id (clamp_request req) = rq_id req" "rq_prefix_cache_key (clamp_request req) = rq_prefix_cache_key req"
  by (auto simp: full_need_def shared_tokens_def clamp_request_def prompt_cacheable_def CeilDiv_def)

definition run_need :: "ContinuousBatcherConfig \<Rightarrow> SequenceRequest list \<Rightarrow> int" where
  "run_need config requests = sum_list (map (full_need (cb_kv_block_tokens (ContinuousBatcher config))) requests)"

lemma Run_completes:
  assumes go: "\<And>k. \<not> cancel k" and ids: "distinct (map rq_id requests)" "list_all (\<lambda>req. rq_id req \<noteq> '''') requests"
    and keys: "one_count_per_key requests"
    and room: "run_need config requests \<le> cb_kv_cache_blocks (ContinuousBatcher config)"
  obtains run polls' where "Run config requests cancel polls = Some (run, polls')"
    "list_all (\<lambda>res. rs_status res = kCompleted) (run_results run)"
proof -
  let ?config = "ContinuousBatcher config" and ?reqs = "map clamp_request requests"
  let ?t = "cb_kv_block_tokens ?config" and ?blocks = "cb_kv_cache_blocks ?config"
  have t: "0 < ?t" and blocks: "0 < ?blocks" using ContinuousBatcher_ok [of config] by (simp_all add: batcher_config_ok_def)
  have "one_count_per_key ?reqs" using keys by (simp add: one_count_per_key_def list_all_iff)
  from one_count_fair [OF this] ids room
  have fits: "batch_fits (count_of_key ?reqs) ?t ?blocks ?reqs"
    by (auto simp: batch_fits_def run_need_def list_all_iff comp_def)
  have "kv_total (Impl \<lparr>cfg_total_blocks = ?blocks, cfg_tokens_per_block = ?t\<rparr>) = ?blocks"
    using blocks by (simp add: kv_total_def Impl_def Let_def ClampPositive_def)
  then have init: "none_rejected (count_of_key ?reqs) ?blocks (run_init ?config requests polls)"
    by (simp add: none_rejected_def run_init_def room_Impl initial_state_def)
  obtain rn where rn: "Run config requests cancel polls = Some (run_finish requests rn, rn_polls rn)"
    "run_ok ?config ?reqs (work (run_init ?config requests polls)) rn"
    "\<forall>i < length requests. sd_done (rn_states rn ! i)" "none_rejected (count_of_key ?reqs) ?blocks rn"
  proof (rule Run_keeps [where P = "\<lambda>_ :: string list. none_rejected (count_of_key ?reqs) ?blocks" and cancel = cancel, OF init])
    fix p es rn rn'
    assume "slot_step (rn_step_index rn) p es rn rn'" "batch_inv ?t ?reqs rn" "none_rejected (count_of_key ?reqs) ?blocks rn"
    then show "none_rejected (count_of_key ?reqs) ?blocks rn'" using slot_step_fits [OF _ _ t fits] by blast
  qed (use go in \<open>simp_all add: none_rejected_def record_step_def\<close>)
  have "list_all (\<lambda>res. rs_status res = kCompleted) (rn_results rn)"
    using rn(3,4) Run_lengths [OF rn(2)] by (simp add: none_rejected_def list_all_length)
  then show ?thesis by (intro that [OF rn(1)]) (simp add: run_finish_def)
qed

text \<open>
  C9: A batch that fits is served completely. If the requests have distinct nonempty ids, equal prefix keys share
  equally many tokens, the blocks for all prompts and all tokens to be generated are no more than the cache has, and
  the run is not cancelled, then \<open>Run\<close> returns and every request is completed.
\<close>

theorem Run_completes_if_it_fits:
  assumes "\<And>k. \<not> cancel k" and "distinct (map rq_id requests)" and "list_all (\<lambda>req. rq_id req \<noteq> '''') requests"
    and "one_count_per_key requests" and "run_need config requests \<le> cb_kv_cache_blocks (ContinuousBatcher config)"
  shows "\<exists>run polls'. Run config requests cancel polls = Some (run, polls') \<and>
    list_all (\<lambda>res. rs_status res = kCompleted) (run_results run)"
  by (rule Run_completes [of cancel requests config polls]) (use assms in blast)+

definition fitting_config :: ContinuousBatcherConfig where
  "fitting_config = \<lparr>cb_max_prefill_tokens_per_step = 4, cb_max_decode_sequences_per_step = 1, cb_kv_cache_blocks = 6, cb_kv_block_tokens = 2\<rparr>"

definition fitting_requests :: "SequenceRequest list" where
  "fitting_requests =
     [\<lparr>rq_id = ''a'', rq_prompt_tokens = 3, rq_max_generated_tokens = 2, rq_priority = 0, rq_prefix_cache_key = ''k'', rq_prefix_cache_tokens = 2\<rparr>,
      \<lparr>rq_id = ''b'', rq_prompt_tokens = 4, rq_max_generated_tokens = 1, rq_priority = 5, rq_prefix_cache_key = ''k'', rq_prefix_cache_tokens = 2\<rparr>]"

theorem Run_completes_if_it_fits_witness:
  "\<exists>run polls'. Run fitting_config fitting_requests (\<lambda>_. False) 0 = Some (run, polls') \<and>
    list_all (\<lambda>res. rs_status res = kCompleted) (run_results run)"
proof (rule Run_completes_if_it_fits)
  show "distinct (map rq_id fitting_requests)" by (simp add: fitting_requests_def)
  show "list_all (\<lambda>req. rq_id req \<noteq> '''') fitting_requests" by (simp add: fitting_requests_def)
  show "one_count_per_key fitting_requests"
    by (simp add: one_count_per_key_def shared_tokens_def prompt_cacheable_def cacheable_def fitting_requests_def)
  show "run_need fitting_config fitting_requests \<le> cb_kv_cache_blocks (ContinuousBatcher fitting_config)"
    by code_simp
qed simp

end
