(* ===== verification/Text_Util.thy ===== *)
theory Text_Util
  imports Laminar_Prelude "HOL-Library.Word" "HOL-Library.Sublist"
begin

text \<open>
  The text helpers of \<open>backend/inference_backend.cc\<close>: character classes of the C locale, trimming
  and collapsing of white space, quoting, number printing, the tokenizer and its hash, and the key of
  the prefix cache. A \<open>std::string\<close> is a list of bytes; \<open>unsigned char\<close> arithmetic goes through
  \<open>of_char\<close>; \<open>uint32_t\<close> is \<^typ>\<open>32 word\<close>.
\<close>

unbundle bit_operations_syntax

subsection \<open>Character classes\<close>

definition code :: "char \<Rightarrow> nat" where
  "code c = of_char c"

definition isspace :: "char \<Rightarrow> bool" where
  "isspace c \<longleftrightarrow> code c = 32 \<or> 9 \<le> code c \<and> code c \<le> 13"

definition isupper :: "char \<Rightarrow> bool" where
  "isupper c \<longleftrightarrow> 65 \<le> code c \<and> code c \<le> 90"

definition islower :: "char \<Rightarrow> bool" where
  "islower c \<longleftrightarrow> 97 \<le> code c \<and> code c \<le> 122"

definition isdigit :: "char \<Rightarrow> bool" where
  "isdigit c \<longleftrightarrow> 48 \<le> code c \<and> code c \<le> 57"

definition isalnum :: "char \<Rightarrow> bool" where
  "isalnum c \<longleftrightarrow> isupper c \<or> islower c \<or> isdigit c"

definition ispunct :: "char \<Rightarrow> bool" where
  "ispunct c \<longleftrightarrow> 33 \<le> code c \<and> code c \<le> 126 \<and> \<not> isalnum c"

definition tolower :: "char \<Rightarrow> char" where
  "tolower c = (if isupper c then char_of (code c + 32) else c)"

subsection \<open>Trimming and quoting\<close>

definition TrimWhitespace :: "string \<Rightarrow> string" where
  "TrimWhitespace value = rev (dropWhile isspace (rev (dropWhile isspace value)))"

definition TrimLower :: "string \<Rightarrow> string" where
  "TrimLower value = map tolower (rev (dropWhile isspace (rev (dropWhile isspace value))))"

definition collapse_step :: "char \<Rightarrow> string \<times> bool \<Rightarrow> string \<times> bool" where
  "collapse_step ch = (\<lambda>(out, previous_space).
     if isspace ch then (if previous_space then out else out @ '' '', True) else (out @ [ch], False))"

definition CollapseWhitespace :: "string \<Rightarrow> string" where
  "CollapseWhitespace value = TrimWhitespace (fst (fold collapse_step value ([], False)))"

definition escape_quoted_char :: "char \<Rightarrow> string" where
  "escape_quoted_char ch =
     (if ch = CHR 0x5C \<or> ch = CHR 0x27 then [CHR 0x5C] else []) @
     (if ch = CHR 0x0A \<or> ch = CHR 0x0D \<or> ch = CHR 0x09 then '' '' else [ch])"

definition EscapeSingleQuoted :: "string \<Rightarrow> string" where
  "EscapeSingleQuoted value = concat (map escape_quoted_char value)"

definition ContainsPathSeparator :: "string \<Rightarrow> bool" where
  "ContainsPathSeparator path \<longleftrightarrow> CHR ''/'' \<in> set path"

definition BoolToJson :: "bool \<Rightarrow> string" where
  "BoolToJson value = (if value then ''true'' else ''false'')"

definition hex_digit :: "nat \<Rightarrow> char" where
  "hex_digit n = (if n < 10 then char_of (48 + n) else char_of (87 + n))"

text \<open>\<open>std::hex\<close> with width 4 and fill \<open>'0'\<close>, for a byte.\<close>

definition hex4 :: "nat \<Rightarrow> string" where
  "hex4 n = ''00'' @ [hex_digit (n div 16), hex_digit (n mod 16)]"

definition json_escape_char :: "char \<Rightarrow> string" where
  "json_escape_char ch =
     (if ch = CHR 0x22 then [CHR 0x5C, CHR 0x22]
      else if ch = CHR 0x5C then [CHR 0x5C, CHR 0x5C]
      else if ch = CHR 0x08 then [CHR 0x5C, CHR ''b'']
      else if ch = CHR 0x0C then [CHR 0x5C, CHR ''f'']
      else if ch = CHR 0x0A then [CHR 0x5C, CHR ''n'']
      else if ch = CHR 0x0D then [CHR 0x5C, CHR ''r'']
      else if ch = CHR 0x09 then [CHR 0x5C, CHR ''t'']
      else if code ch < 0x20 then [CHR 0x5C, CHR ''u''] @ hex4 (code ch)
      else [ch])"

definition JsonEscape :: "string \<Rightarrow> string" where
  "JsonEscape value = concat (map json_escape_char value)"

definition JsonStringValue :: "string \<Rightarrow> string" where
  "JsonStringValue value = [CHR 0x22] @ JsonEscape value @ [CHR 0x22]"

subsection \<open>Printing integers\<close>

fun show_nat :: "nat \<Rightarrow> string" where
  "show_nat n = (if n < 10 then [char_of (48 + n)] else show_nat (n div 10) @ [char_of (48 + n mod 10)])"

declare show_nat.simps [simp del]

definition to_string :: "int \<Rightarrow> string" where
  "to_string i = (if i < 0 then ''-'' @ show_nat (nat (- i)) else show_nat (nat i))"

subsection \<open>The tokenizer\<close>

definition HashToken :: "string \<Rightarrow> 32 word" where
  "HashToken token = fold (\<lambda>ch hash. (hash XOR word_of_nat (code ch)) * 16777619) token 2166136261"

definition tokenize_step :: "char \<Rightarrow> string list \<times> string \<Rightarrow> string list \<times> string" where
  "tokenize_step ch = (\<lambda>(tokens, token).
     if isalnum ch then (tokens, token @ [tolower ch])
     else if token \<noteq> [] then (tokens @ [token], []) else (tokens, token))"

definition Tokenize :: "string \<Rightarrow> string list" where
  "Tokenize prompt =
     (let (tokens, token) = fold tokenize_step prompt ([], [])
      in if token \<noteq> [] then tokens @ [token] else tokens)"

definition kTinyLLMVocabSize :: nat where
  "kTinyLLMVocabSize = 64"

definition TokenizeForTinyLLM :: "string \<Rightarrow> nat list" where
  "TokenizeForTinyLLM prompt =
     (let token_ids = 0 # map (\<lambda>token. 2 + unat (HashToken token mod word_of_nat (kTinyLLMVocabSize - 2))) (Tokenize prompt)
      in if length token_ids = 1
         then token_ids @ [2 + unat (HashToken prompt mod word_of_nat (kTinyLLMVocabSize - 2))]
         else token_ids)"

definition PrefixCacheKey :: "nat list \<Rightarrow> int \<Rightarrow> string" where
  "PrefixCacheKey token_ids prefix_cache_tokens =
     (if prefix_cache_tokens \<le> 0 \<or> int (length token_ids) < prefix_cache_tokens then ''''
      else ''tiny_llm'' @ concat (map (\<lambda>index. '':'' @ to_string (int (token_ids ! index)))
        [0..<nat prefix_cache_tokens]))"

subsection \<open>White space\<close>

definition trim_right :: "string \<Rightarrow> string" where
  "trim_right s = rev (dropWhile isspace (rev s))"

lemma trim_right_Nil [simp]: "trim_right [] = []"
  by (simp add: trim_right_def)

lemma trim_right_append: "trim_right (xs @ ys) = (if trim_right ys = [] then trim_right xs else xs @ trim_right ys)"
  by (simp add: trim_right_def dropWhile_append)

lemma trim_right_id: "xs = [] \<or> \<not> isspace (last xs) \<Longrightarrow> trim_right xs = xs"
  unfolding trim_right_def by (cases xs rule: rev_cases) auto

lemma trim_right_last: "trim_right s \<noteq> [] \<Longrightarrow> \<not> isspace (last (trim_right s))"
  unfolding trim_right_def by (metis hd_dropWhile hd_rev rev_rev_ident rev.simps(1))

lemma TrimWhitespace_eq: "TrimWhitespace s = trim_right (dropWhile isspace s)"
  by (simp add: TrimWhitespace_def trim_right_def)

lemma hd_trim_right: "trim_right s \<noteq> [] \<Longrightarrow> hd (trim_right s) = hd s"
proof -
  assume ne: "trim_right s \<noteq> []"
  have "s = trim_right s @ rev (takeWhile isspace (rev s))"
    unfolding trim_right_def by (metis rev_append rev_rev_ident takeWhile_dropWhile_id)
  with ne show ?thesis by (metis hd_append2)
qed

lemma TrimWhitespace_ends:
  "TrimWhitespace s \<noteq> [] \<Longrightarrow> \<not> isspace (hd (TrimWhitespace s)) \<and> \<not> isspace (last (TrimWhitespace s))"
  unfolding TrimWhitespace_eq
  using hd_trim_right [of "dropWhile isspace s"] trim_right_last [of "dropWhile isspace s"] hd_dropWhile [of isspace s]
  by (metis trim_right_Nil)

lemma TrimWhitespace_id: "s = [] \<or> \<not> isspace (hd s) \<and> \<not> isspace (last s) \<Longrightarrow> TrimWhitespace s = s"
  unfolding TrimWhitespace_eq by (cases s) (auto simp: trim_right_id)

lemma TrimWhitespace_idem [simp]: "TrimWhitespace (TrimWhitespace s) = TrimWhitespace s"
  using TrimWhitespace_ends TrimWhitespace_id by blast

lemma TrimWhitespace_Nil [simp]: "TrimWhitespace [] = []"
  by (simp add: TrimWhitespace_def)

text \<open>The words of a text: its maximal runs of characters that are not white space.\<close>

fun split_words :: "string \<Rightarrow> string \<Rightarrow> string list" where
  "split_words acc [] = (if acc = [] then [] else [acc])"
| "split_words acc (c # cs) =
     (if isspace c then (if acc = [] then split_words [] cs else acc # split_words [] cs)
      else split_words (acc @ [c]) cs)"

definition words_of :: "string \<Rightarrow> string list" where
  "words_of s = split_words [] s"

fun join_words :: "string list \<Rightarrow> string" where
  "join_words [] = []"
| "join_words [w] = w"
| "join_words (w # v # ws) = w @ '' '' @ join_words (v # ws)"

lemma join_words_Cons: "join_words (w # ws) = (if ws = [] then w else w @ '' '' @ join_words ws)"
  by (cases ws) auto

fun collapse :: "bool \<Rightarrow> string \<Rightarrow> string" where
  "collapse previous [] = []"
| "collapse previous (c # cs) =
     (if isspace c then (if previous then [] else '' '') @ collapse True cs else c # collapse False cs)"

lemma fold_collapse_step: "fst (fold collapse_step s (out, previous)) = out @ collapse previous s"
  by (induction s arbitrary: out previous) (auto simp: collapse_step_def)

lemma isspace_blank [simp]: "isspace CHR '' ''"
  by (simp add: isspace_def code_def)

lemma collapse_hd: "collapse True s = [] \<or> \<not> isspace (hd (collapse True s))"
  by (induction s) auto

lemma dropWhile_collapse: "dropWhile isspace (collapse False s) = collapse True s"
proof -
  have "dropWhile isspace (collapse True t) = collapse True t" for t
    using collapse_hd [of t] by (cases "collapse True t") auto
  then show ?thesis by (cases s) auto
qed

lemma split_words_nonempty: "acc \<noteq> [] \<Longrightarrow> split_words acc s \<noteq> []"
  by (induction s arbitrary: acc) auto

lemma join_words_empty: "[] \<notin> set ws \<Longrightarrow> join_words ws = [] \<longleftrightarrow> ws = []"
  by (cases ws) (auto simp: join_words_Cons)

lemma split_words_mem: "[] \<notin> set (split_words acc s)"
  by (induction s arbitrary: acc) auto

lemma trim_collapse:
  "trim_right (collapse True s) = join_words (split_words [] s)"
  "acc \<noteq> [] \<Longrightarrow> \<not> isspace (last acc) \<Longrightarrow> trim_right (acc @ collapse False s) = join_words (split_words acc s)"
proof (induction s arbitrary: acc)
  case Nil
  {
    case 1
    show ?case by simp
  next
    case 2
    then show ?case by (simp add: trim_right_id)
  }
next
  case (Cons c cs)
  {
    case 1
    show ?case using Cons.IH(1) Cons.IH(2) [of "[c]"] by simp
  next
    case 2
    show ?case
    proof (cases "isspace c")
      case True
      have "trim_right (CHR '' '' # xs) = (if trim_right xs = [] then [] else CHR '' '' # trim_right xs)" for xs
        using trim_right_append [of "'' ''" xs] by (simp add: trim_right_def)
      then have "trim_right (acc @ '' '' @ collapse True cs) =
          (if split_words [] cs = [] then acc else acc @ '' '' @ join_words (split_words [] cs))"
        using trim_right_append [of acc "CHR '' '' # collapse True cs"] 2 Cons.IH(1)
          join_words_empty [OF split_words_mem, of "[]" cs] trim_right_id [of acc] by simp
      with True 2 show ?thesis by (simp add: join_words_Cons)
    next
      case False
      with 2 Cons.IH(2) [of "acc @ [c]"] show ?thesis by simp
    qed
  }
qed

text \<open>
  \<open>CollapseWhitespace\<close> is the words of its argument joined by single blanks.
\<close>

theorem CollapseWhitespace_words: "CollapseWhitespace s = join_words (words_of s)"
  by (simp add: CollapseWhitespace_def fold_collapse_step TrimWhitespace_eq dropWhile_collapse trim_collapse(1) words_of_def)

subsection \<open>The tokenizer splits at the characters that are not alphanumeric\<close>

definition blank_out :: "char \<Rightarrow> char" where
  "blank_out c = (if isalnum c then tolower c else CHR '' '')"

lemma code_char_of: "n < 256 \<Longrightarrow> code (char_of n) = n"
  by (simp add: code_def of_char_of)

lemma isspace_tolower: "isalnum c \<Longrightarrow> \<not> isspace (tolower c)"
  by (auto simp: isalnum_def tolower_def isspace_def isupper_def islower_def isdigit_def code_char_of)

lemma tolower_class: "isalnum c \<Longrightarrow> islower (tolower c) \<or> isdigit (tolower c)"
  by (auto simp: isalnum_def tolower_def isupper_def islower_def isdigit_def code_char_of)

lemma tokenize_fold:
  "(let (tokens, token) = fold tokenize_step s (ts, acc) in if token \<noteq> [] then tokens @ [token] else tokens) =
     ts @ split_words acc (map blank_out s)"
proof (induction s arbitrary: ts acc)
  case (Cons c cs)
  then show ?case
    by (cases "isalnum c"; cases "acc = []") (simp_all add: tokenize_step_def blank_out_def isspace_tolower)
qed simp

lemma Tokenize_words: "Tokenize prompt = words_of (map blank_out prompt)"
  using tokenize_fold [of prompt "[]" "[]"] by (simp add: Tokenize_def words_of_def)

lemma split_words_concat: "concat (split_words acc s) = acc @ filter (\<lambda>c. \<not> isspace c) s"
  by (induction s arbitrary: acc) auto

lemma filter_blank_out: "filter (\<lambda>c. \<not> isspace c) (map blank_out s) = map tolower (filter isalnum s)"
  by (induction s) (auto simp: blank_out_def isspace_tolower)

lemma Tokenize_concat: "concat (Tokenize prompt) = map tolower (filter isalnum prompt)"
  by (simp add: Tokenize_words words_of_def split_words_concat filter_blank_out)

text \<open>
  \<open>Tokenize\<close> splits the prompt at every character that is not alphanumeric: the tokens are
  the words of the lower-cased prompt with those characters blanked out, none is empty, each consists
  of lower-case letters and digits, and together they are all the alphanumeric characters in order.
\<close>

theorem Tokenize_splits:
  "Tokenize prompt = words_of (map blank_out prompt) \<and> list_all (\<lambda>token. token \<noteq> []) (Tokenize prompt) \<and>
   list_all (list_all (\<lambda>c. islower c \<or> isdigit c)) (Tokenize prompt) \<and>
   concat (Tokenize prompt) = map tolower (filter isalnum prompt)"
proof -
  have "[] \<notin> set (Tokenize prompt)" by (simp add: Tokenize_words words_of_def split_words_mem)
  moreover have "islower c \<or> isdigit c" if "token \<in> set (Tokenize prompt)" "c \<in> set token" for token c
  proof -
    have "c \<in> set (concat (Tokenize prompt))" using that by auto
    then show ?thesis unfolding Tokenize_concat using tolower_class by auto
  qed
  ultimately show ?thesis using Tokenize_words Tokenize_concat by (auto simp: list_all_iff)
qed

text \<open>
  \<open>TokenizeForTinyLLM\<close> always yields the start token followed by at least one token of the
  vocabulary that is neither the start nor the end marker: one per token of the prompt, or one if it
  has none.
\<close>

theorem TokenizeForTinyLLM_vocabulary:
  "\<exists>ids. TokenizeForTinyLLM prompt = 0 # ids \<and> length ids = max 1 (length (Tokenize prompt)) \<and>
     list_all (\<lambda>token. 2 \<le> token \<and> token < kTinyLLMVocabSize) ids"
proof -
  have "unat (h mod word_of_nat (kTinyLLMVocabSize - 2)) < 62" for h :: "32 word"
  proof -
    have "unat (h mod word_of_nat (kTinyLLMVocabSize - 2)) = unat h mod 62"
      by (simp add: kTinyLLMVocabSize_def unat_mod_distrib)
    then show ?thesis by simp
  qed
  then have "list_all (\<lambda>token. 2 \<le> token \<and> token < kTinyLLMVocabSize)
      (map (\<lambda>token. 2 + unat (HashToken token mod word_of_nat (kTinyLLMVocabSize - 2))) xs)" for xs
    by (auto simp: list_all_iff kTinyLLMVocabSize_def)
  from this [of "Tokenize prompt"] this [of "[prompt]"] show ?thesis
    by (cases "Tokenize prompt = []") (simp_all add: TokenizeForTinyLLM_def Let_def Suc_le_eq max_def kTinyLLMVocabSize_def)
qed

subsection \<open>Printed integers and cache keys\<close>

definition digits_value :: "string \<Rightarrow> nat" where
  "digits_value s = fold (\<lambda>c v. v * 10 + (code c - 48)) s 0"

lemma digits_value_show: "digits_value (show_nat n) = n"
proof (induction n rule: show_nat.induct)
  case (1 n)
  show ?case
  proof (cases "n < 10")
    case True
    then show ?thesis by (simp add: show_nat.simps [of n] digits_value_def code_char_of)
  next
    case False
    with 1 show ?thesis
      by (subst show_nat.simps) (simp add: digits_value_def code_char_of)
  qed
qed

lemma show_nat_inj: "show_nat m = show_nat n \<longleftrightarrow> m = n"
  by (metis digits_value_show)

lemma show_nat_digits: "c \<in> set (show_nat n) \<Longrightarrow> isdigit c"
proof (induction n rule: show_nat.induct)
  case (1 n)
  then show ?case
    by (subst (asm) (2) show_nat.simps) (auto simp: isdigit_def code_char_of split: if_splits)
qed

lemma show_nat_nonempty [simp]: "show_nat n \<noteq> []"
  by (subst show_nat.simps) simp

lemma to_string_of_nat: "to_string (int n) = show_nat n"
  by (simp add: to_string_def)

lemma keyed_inj:
  assumes "concat (map (\<lambda>x. CHR '':'' # show_nat x) xs) = concat (map (\<lambda>x. CHR '':'' # show_nat x) ys)"
  shows "xs = ys"
  using assms
proof (induction xs arbitrary: ys)
  case Nil
  then show ?case by (cases ys) auto
next
  case (Cons x xs)
  let ?f = "\<lambda>xs. concat (map (\<lambda>x. CHR '':'' # show_nat x) xs)"
  have run: "takeWhile isdigit (show_nat a @ ?f as) = show_nat a" "dropWhile isdigit (show_nat a @ ?f as) = ?f as" for a as
  proof -
    have "takeWhile isdigit (?f as) = []" "dropWhile isdigit (?f as) = ?f as"
      by (cases as; simp add: isdigit_def code_def)+
    then show "takeWhile isdigit (show_nat a @ ?f as) = show_nat a" "dropWhile isdigit (show_nat a @ ?f as) = ?f as"
      using show_nat_digits by (auto simp: takeWhile_append dropWhile_append)
  qed
  obtain y ys' where ys: "ys = y # ys'" using Cons.prems by (cases ys) auto
  then have eq: "show_nat x @ ?f xs = show_nat y @ ?f ys'" using Cons.prems by simp
  then have "show_nat x = show_nat y" "?f xs = ?f ys'" using run by metis+
  then show ?case using Cons.IH ys show_nat_inj by simp
qed

lemma PrefixCacheKey_eq:
  assumes "0 < n" and "n \<le> int (length ids)"
  shows "PrefixCacheKey ids n = ''tiny_llm'' @ concat (map (\<lambda>x. CHR '':'' # show_nat x) (take (nat n) ids))"
proof -
  have "map (\<lambda>index. '':'' @ to_string (int (ids ! index))) [0..<nat n] =
      map (\<lambda>x. CHR '':'' # show_nat x) (take (nat n) ids)"
    using assms by (intro nth_equalityI) (auto simp: to_string_of_nat)
  then show ?thesis using assms by (simp add: PrefixCacheKey_def)
qed

lemma PrefixCacheKey_empty_iff: "PrefixCacheKey ids n = '''' \<longleftrightarrow> n \<le> 0 \<or> int (length ids) < n"
  by (auto simp: PrefixCacheKey_def)

text \<open>
  C35: Cache keys identify prefixes: two token lists get the same nonempty key for a prefix length
  if and only if both are long enough and agree on that many tokens; and keys of different prefix
  lengths never collide.
\<close>

theorem PrefixCacheKey_injective:
  assumes "PrefixCacheKey a m \<noteq> ''''"
  shows "PrefixCacheKey a m = PrefixCacheKey b n \<longleftrightarrow>
    m = n \<and> n \<le> int (length b) \<and> take (nat m) a = take (nat n) b"
proof -
  have a: "0 < m" "m \<le> int (length a)" using assms by (auto simp: PrefixCacheKey_empty_iff)
  show ?thesis
  proof (cases "0 < n \<and> n \<le> int (length b)")
    case True
    then have "PrefixCacheKey a m = PrefixCacheKey b n \<longleftrightarrow> take (nat m) a = take (nat n) b"
      using keyed_inj a by (auto simp: PrefixCacheKey_eq)
    moreover have "m = n" if "take (nat m) a = take (nat n) b"
      using arg_cong [OF that, of length] a True by auto
    ultimately show ?thesis using True by blast
  next
    case False
    then have "PrefixCacheKey b n = ''''" by (auto simp: PrefixCacheKey_empty_iff)
    then show ?thesis using assms False a by auto
  qed
qed

theorem PrefixCacheKey_injective_witness: "PrefixCacheKey [0, 12, 3] 2 \<noteq> PrefixCacheKey [0, 1, 23] 2"
  using PrefixCacheKey_injective [of "[0, 12, 3]" 2 "[0, 1, 23]" 2] by (simp add: PrefixCacheKey_empty_iff)

end
