(* ===== verification/Float_Ops.thy ===== *)
theory Float_Ops
  imports Complex_Main Text_Util
begin

text \<open>
  Single-precision arithmetic. The code computes with \<open>float\<close> and the functions of \<open>cmath\<close>, whose
  results depend on the platform; the model takes them as a record of operations, so that every
  statement holds for whatever rounding the platform uses. A literal such as \<open>0.05f\<close> is
  \<open>f_lit\<close> of the rational it denotes; \<open>f_fixed_double\<close> prints the \<open>double\<close> nearest to a rational.
\<close>

record 'f float_ops =
  f_lit :: "rat \<Rightarrow> 'f"
  f_add :: "'f \<Rightarrow> 'f \<Rightarrow> 'f"
  f_sub :: "'f \<Rightarrow> 'f \<Rightarrow> 'f"
  f_mul :: "'f \<Rightarrow> 'f \<Rightarrow> 'f"
  f_div :: "'f \<Rightarrow> 'f \<Rightarrow> 'f"
  f_less :: "'f \<Rightarrow> 'f \<Rightarrow> bool"
  f_eq :: "'f \<Rightarrow> 'f \<Rightarrow> bool"
  f_sin :: "'f \<Rightarrow> 'f"
  f_cos :: "'f \<Rightarrow> 'f"
  f_tanh :: "'f \<Rightarrow> 'f"
  f_exp :: "'f \<Rightarrow> 'f"
  f_sqrt :: "'f \<Rightarrow> 'f"
  f_neg_infinity :: 'f
  f_min_positive :: 'f
  f_isfinite :: "'f \<Rightarrow> bool"
  f_strtof :: "string \<Rightarrow> ('f \<times> string) option"
  f_fixed :: "nat \<Rightarrow> 'f \<Rightarrow> string"
  f_fixed_double :: "nat \<Rightarrow> rat \<Rightarrow> string"

text \<open>\<open>std::max\<close>, \<open>std::min\<close> and \<open>std::clamp\<close> of floats, with their order of comparison.\<close>

definition f_max :: "'f float_ops \<Rightarrow> 'f \<Rightarrow> 'f \<Rightarrow> 'f" where
  "f_max F a b = (if f_less F a b then b else a)"

definition f_min :: "'f float_ops \<Rightarrow> 'f \<Rightarrow> 'f \<Rightarrow> 'f" where
  "f_min F a b = (if f_less F b a then b else a)"

definition f_clamp :: "'f float_ops \<Rightarrow> 'f \<Rightarrow> 'f \<Rightarrow> 'f \<Rightarrow> 'f" where
  "f_clamp F v lo hi = (if f_less F v lo then lo else if f_less F hi v then hi else v)"

definition f_of_int :: "'f float_ops \<Rightarrow> int \<Rightarrow> 'f" where
  "f_of_int F i = f_lit F (of_int i)"

definition FloatToString :: "'f float_ops \<Rightarrow> 'f \<Rightarrow> string" where
  "FloatToString F value = f_fixed F 3 value"

definition FixedDouble :: "'f float_ops \<Rightarrow> rat \<Rightarrow> nat \<Rightarrow> string" where
  "FixedDouble F value precision = f_fixed_double F precision value"

text \<open>Exact rational arithmetic with constant transcendental functions, an instance to evaluate.\<close>

definition rat_ops :: "rat float_ops" where
  "rat_ops = \<lparr>f_lit = (\<lambda>q. q), f_add = (+), f_sub = (-), f_mul = (*), f_div = (/), f_less = (<), f_eq = (=),
     f_sin = (\<lambda>_. 0), f_cos = (\<lambda>_. 1), f_tanh = (\<lambda>x. x), f_exp = (\<lambda>_. 1), f_sqrt = (\<lambda>_. 1),
     f_neg_infinity = -1000000, f_min_positive = 1 / 1000000, f_isfinite = (\<lambda>_. True),
     f_strtof = (\<lambda>_. None), f_fixed = (\<lambda>_ _. ''0.000''), f_fixed_double = (\<lambda>_ _. ''0.00'')\<rparr>"

end
