(* ===== verification/Llama_Json.thy ===== *)
theory Llama_Json
  imports Float_Ops Ordered_Map
begin

text \<open>
  The JSON and event-stream text of the llama server backend: the request body, the field
  extractors, the parser of one chunk, the parser of a whole response, and the incremental parser of
  \<open>LlamaServerBackend::ProcessStream\<close> (\<open>consume_line\<close> and \<open>on_body\<close>). The theorems: what the
  escaper writes the extractor reads back, and the incremental parser computes what the parser of
  the whole response does, wherever the network cuts the bytes.
\<close>

subsection \<open>Searching\<close>

fun str_find :: "string \<Rightarrow> string \<Rightarrow> nat option" where
  "str_find key [] = (if key = [] then Some 0 else None)"
| "str_find key (c # cs) =
     (if take (length key) (c # cs) = key then Some 0 else map_option Suc (str_find key cs))"

definition starts_with :: "string \<Rightarrow> string \<Rightarrow> bool" where
  "starts_with p s \<longleftrightarrow> take (length p) s = p"

text \<open>\<open>std::strtol\<close> in base 10 on a 64-bit \<open>long\<close>: \<^term>\<open>None\<close> is \<open>end == begin\<close>.\<close>

definition strtol :: "string \<Rightarrow> (int \<times> string) option" where
  "strtol s =
     (let s1 = dropWhile isspace s;
          negative = (s1 \<noteq> [] \<and> hd s1 = CHR ''-'');
          s2 = (if s1 \<noteq> [] \<and> (hd s1 = CHR ''-'' \<or> hd s1 = CHR ''+'') then tl s1 else s1);
          ds = takeWhile isdigit s2;
          v = int (digits_value ds)
      in if ds = [] then None
         else Some (max (- (2 ^ 63)) (min (2 ^ 63 - 1) (if negative then - v else v)), dropWhile isdigit s2))"

subsection \<open>The request body\<close>

definition quoted :: "string \<Rightarrow> string" where
  "quoted s = [CHR 0x22] @ s @ [CHR 0x22]"

definition BuildLlamaServerRequestBody ::
  "'f float_ops \<Rightarrow> string \<Rightarrow> int \<Rightarrow> 'f \<Rightarrow> bool \<Rightarrow> bool \<Rightarrow> bool \<Rightarrow> string" where
  "BuildLlamaServerRequestBody F prompt max_tokens temperature cache_prompt stream timings_per_token =
     ''{'' @ quoted ''prompt'' @ '':'' @ JsonStringValue prompt @
     '','' @ quoted ''n_predict'' @ '':'' @ to_string max_tokens @
     '','' @ quoted ''temperature'' @ '':'' @ FloatToString F temperature @
     '','' @ quoted ''stream'' @ '':'' @ BoolToJson stream @
     '','' @ quoted ''cache_prompt'' @ '':'' @ BoolToJson cache_prompt @
     '','' @ quoted ''return_tokens'' @ '':'' @ BoolToJson timings_per_token @
     '','' @ quoted ''timings_per_token'' @ '':'' @ BoolToJson timings_per_token @ ''}''"

subsection \<open>Field extraction\<close>

text \<open>The text after the colon of a field, white space skipped.\<close>

definition field_text :: "string \<Rightarrow> string \<Rightarrow> string option" where
  "field_text json field =
     (let key = [CHR 0x22] @ field @ [CHR 0x22]
      in case str_find key json of
           None \<Rightarrow> None
         | Some pos \<Rightarrow>
             (let rest = drop (pos + length key) json
              in case str_find '':'' rest of
                   None \<Rightarrow> None
                 | Some colon \<Rightarrow> Some (dropWhile isspace (drop (colon + 1) rest))))"

definition unescape_char :: "char \<Rightarrow> char" where
  "unescape_char ch =
     (if ch = CHR ''n'' then CHR 0x0A else if ch = CHR ''r'' then CHR 0x0D
      else if ch = CHR ''t'' then CHR 0x09 else ch)"

fun scan_string :: "string \<Rightarrow> bool \<Rightarrow> string \<Rightarrow> string option" where
  "scan_string acc escaping [] = None"
| "scan_string acc escaping (ch # rest) =
     (if escaping then scan_string (acc @ [unescape_char ch]) False rest
      else if ch = CHR 0x5C then scan_string acc True rest
      else if ch = CHR 0x22 then Some acc
      else scan_string (acc @ [ch]) False rest)"

definition ExtractJsonStringField :: "string \<Rightarrow> string \<Rightarrow> string option" where
  "ExtractJsonStringField json field =
     (case field_text json field of
        None \<Rightarrow> None
      | Some text \<Rightarrow>
          if text = [] \<or> hd text \<noteq> CHR 0x22 then None else scan_string [] False (tl text))"

text \<open>\<open>static_cast<int>\<close> of a \<open>long\<close> keeps the low 32 bits as a signed number.\<close>

definition int_of_long :: "int \<Rightarrow> int" where
  "int_of_long v = (v + 2 ^ 31) mod 2 ^ 32 - 2 ^ 31"

definition ExtractJsonIntField :: "string \<Rightarrow> string \<Rightarrow> int option" where
  "ExtractJsonIntField json field =
     (case field_text json field of
        None \<Rightarrow> None
      | Some text \<Rightarrow> (case strtol text of None \<Rightarrow> None | Some (value, _) \<Rightarrow> Some (int_of_long value)))"

subsection \<open>Chunks and completions\<close>

record LlamaServerCompletion =
  co_content :: string
  co_tokens_predicted :: int
  co_tokens_evaluated :: int
  co_stream_chunks :: int

record LlamaServerChunk =
  ch_done :: bool
  ch_has_content :: bool
  ch_content :: string
  ch_tokens_predicted :: int
  ch_tokens_evaluated :: int

definition empty_completion :: LlamaServerCompletion where
  "empty_completion = \<lparr>co_content = '''', co_tokens_predicted = -1, co_tokens_evaluated = -1, co_stream_chunks = 0\<rparr>"

definition empty_chunk :: LlamaServerChunk where
  "empty_chunk = \<lparr>ch_done = False, ch_has_content = False, ch_content = '''',
     ch_tokens_predicted = -1, ch_tokens_evaluated = -1\<rparr>"

definition ParseLlamaServerChunk :: "string \<Rightarrow> LlamaServerChunk" where
  "ParseLlamaServerChunk data =
     (let trimmed = TrimWhitespace data
      in if trimmed = ''[DONE]'' then empty_chunk\<lparr>ch_done := True\<rparr>
         else
           let chunk1 = (case ExtractJsonStringField trimmed ''content'' of
                 None \<Rightarrow> empty_chunk
               | Some content \<Rightarrow> empty_chunk\<lparr>ch_has_content := True, ch_content := content\<rparr>);
               chunk2 = (case ExtractJsonIntField trimmed ''tokens_predicted'' of
                 None \<Rightarrow> chunk1 | Some n \<Rightarrow> chunk1\<lparr>ch_tokens_predicted := n\<rparr>)
           in case ExtractJsonIntField trimmed ''tokens_evaluated'' of
                None \<Rightarrow> chunk2 | Some n \<Rightarrow> chunk2\<lparr>ch_tokens_evaluated := n\<rparr>)"

definition MergeLlamaServerJsonChunk :: "string \<Rightarrow> LlamaServerCompletion \<Rightarrow> LlamaServerCompletion" where
  "MergeLlamaServerJsonChunk json completion =
     (let chunk = ParseLlamaServerChunk json
      in if ch_done chunk then completion
         else
           let c1 = (if ch_has_content chunk then completion\<lparr>co_content := co_content completion @ ch_content chunk\<rparr>
                     else completion);
               c2 = (if ch_tokens_predicted chunk \<ge> 0 then c1\<lparr>co_tokens_predicted := ch_tokens_predicted chunk\<rparr> else c1)
           in if ch_tokens_evaluated chunk \<ge> 0 then c2\<lparr>co_tokens_evaluated := ch_tokens_evaluated chunk\<rparr> else c2)"

text \<open>
  The \<open>std::getline\<close> loop over a text: \<open>acc\<close> is what was read since the last newline, and a
  rest without newline is a line unless it is empty.
\<close>

fun lines_from :: "string \<Rightarrow> string \<Rightarrow> string list" where
  "lines_from acc [] = (if acc = [] then [] else [acc])"
| "lines_from acc (c # cs) = (if c = CHR 0x0A then acc # lines_from [] cs else lines_from (acc @ [c]) cs)"

definition getlines :: "string \<Rightarrow> string list" where
  "getlines s = lines_from [] s"

definition parse_line :: "string \<Rightarrow> LlamaServerCompletion \<Rightarrow> LlamaServerCompletion" where
  "parse_line line0 completion =
     (let line = TrimWhitespace line0
      in if \<not> starts_with ''data:'' line then completion
         else
           let data = TrimWhitespace (drop (length ''data:'') line)
           in if data = '''' \<or> data = ''[DONE]'' then completion
              else MergeLlamaServerJsonChunk data
                (completion\<lparr>co_stream_chunks := co_stream_chunks completion + 1\<rparr>))"

definition ParseLlamaServerCompletion :: "string \<Rightarrow> bool \<Rightarrow> LlamaServerCompletion" where
  "ParseLlamaServerCompletion body stream =
     (if \<not> stream then MergeLlamaServerJsonChunk body empty_completion
      else fold parse_line (getlines body) empty_completion)"

subsection \<open>Streaming\<close>

type_synonym metadata = "(string, string) omap"

text \<open>A \<open>std::map\<close> built from an initializer list.\<close>

definition make_map :: "(string \<times> string) list \<Rightarrow> metadata" where
  "make_map entries = fold (\<lambda>(k, v). omap_emplace k v) entries []"

record BackendStreamEvent =
  ev_event_type :: string
  ev_delta :: string
  ev_result :: string
  ev_metadata :: metadata

text \<open>
  The variables captured by \<open>consume_line\<close> and \<open>on_body\<close>, and the events passed to \<open>emit\<close> so far.
  The callback is a parameter \<open>emit :: nat \<Rightarrow> bool\<close>, the answer to its \<open>k\<close>-th call.
\<close>

record stream_state =
  sm_completion :: LlamaServerCompletion
  sm_pending :: string
  sm_token_index :: int
  sm_events :: "BackendStreamEvent list"

definition stream_start :: stream_state where
  "stream_start = \<lparr>sm_completion = empty_completion, sm_pending = '''', sm_token_index = 0, sm_events = []\<rparr>"

definition token_event :: "string \<Rightarrow> int \<Rightarrow> LlamaServerCompletion \<Rightarrow> BackendStreamEvent" where
  "token_event content token_index completion =
     \<lparr>ev_event_type = ''token'', ev_delta = content, ev_result = '''',
      ev_metadata = make_map
        [(''stream'', ''true''), (''token_index'', to_string token_index),
         (''delta_chars'', to_string (int (length content))),
         (''stream_chunks'', to_string (co_stream_chunks completion)),
         (''tokens_predicted'', to_string (co_tokens_predicted completion)),
         (''tokens_evaluated'', to_string (co_tokens_evaluated completion))]\<rparr>"

definition consume_line :: "(nat \<Rightarrow> bool) \<Rightarrow> string \<Rightarrow> stream_state \<Rightarrow> bool \<times> stream_state" where
  "consume_line emit line0 s =
     (let line = TrimWhitespace line0
      in if \<not> starts_with ''data:'' line then (True, s)
         else
           let data = TrimWhitespace (drop (length ''data:'') line)
           in if data = '''' then (True, s)
              else
                let chunk = ParseLlamaServerChunk data
                in if ch_done chunk then (True, s)
                   else
                     let c0 = sm_completion s;
                         c1 = c0\<lparr>co_stream_chunks := co_stream_chunks c0 + 1\<rparr>;
                         c2 = (if ch_tokens_predicted chunk \<ge> 0 then c1\<lparr>co_tokens_predicted := ch_tokens_predicted chunk\<rparr> else c1);
                         c3 = (if ch_tokens_evaluated chunk \<ge> 0 then c2\<lparr>co_tokens_evaluated := ch_tokens_evaluated chunk\<rparr> else c2)
                     in if \<not> ch_has_content chunk then (True, s\<lparr>sm_completion := c3\<rparr>)
                        else
                          let c4 = c3\<lparr>co_content := co_content c3 @ ch_content chunk\<rparr>
                          in (emit (length (sm_events s)),
                              s\<lparr>sm_completion := c4, sm_token_index := sm_token_index s + 1,
                                sm_events := sm_events s @ [token_event (ch_content chunk) (sm_token_index s) c4]\<rparr>))"

text \<open>
  The loop of \<open>on_body\<close> over \<open>pending_line\<close>: \<open>acc\<close> is the part already searched for a newline.
\<close>

fun drain :: "(nat \<Rightarrow> bool) \<Rightarrow> string \<Rightarrow> string \<Rightarrow> stream_state \<Rightarrow> bool \<times> stream_state" where
  "drain emit acc [] s = (True, s\<lparr>sm_pending := acc\<rparr>)"
| "drain emit acc (c # cs) s =
     (if c = CHR 0x0A then
        (case consume_line emit acc (s\<lparr>sm_pending := cs\<rparr>) of
           (True, s1) \<Rightarrow> drain emit [] cs s1
         | (False, s1) \<Rightarrow> (False, s1))
      else drain emit (acc @ [c]) cs s)"

definition on_body :: "(nat \<Rightarrow> bool) \<Rightarrow> string \<Rightarrow> stream_state \<Rightarrow> bool \<times> stream_state" where
  "on_body emit data s = drain emit [] (sm_pending s @ data) s"

text \<open>The pieces of a body in order, as long as the callback accepts, and the rest at the end.\<close>

fun on_pieces :: "(nat \<Rightarrow> bool) \<Rightarrow> string list \<Rightarrow> stream_state \<Rightarrow> bool \<times> stream_state" where
  "on_pieces emit [] s = (True, s)"
| "on_pieces emit (piece # pieces) s =
     (case on_body emit piece s of (True, s1) \<Rightarrow> on_pieces emit pieces s1 | (False, s1) \<Rightarrow> (False, s1))"

definition flush_pending :: "(nat \<Rightarrow> bool) \<Rightarrow> stream_state \<Rightarrow> bool \<times> stream_state" where
  "flush_pending emit s =
     (if sm_pending s \<noteq> '''' then consume_line emit (sm_pending s) s else (True, s))"

subsection \<open>The incremental parser agrees with the whole-response parser\<close>

lemma ParseLlamaServerChunk_done: "ch_done (ParseLlamaServerChunk data) \<longleftrightarrow> TrimWhitespace data = ''[DONE]''"
  by (simp add: ParseLlamaServerChunk_def Let_def empty_chunk_def split: option.splits)

lemma consume_line_completion:
  "sm_completion (snd (consume_line emit line s)) = parse_line line (sm_completion s)"
proof -
  define data where "data = TrimWhitespace (drop (length ''data:'') (TrimWhitespace line))"
  have "ch_done (ParseLlamaServerChunk data) \<longleftrightarrow> data = ''[DONE]''"
    by (simp add: ParseLlamaServerChunk_done data_def)
  then show ?thesis
    unfolding consume_line_def parse_line_def MergeLlamaServerJsonChunk_def Let_def data_def [symmetric]
    by (cases "data = ''[DONE]''") simp_all
qed

lemma consume_line_pending [simp]: "sm_pending (snd (consume_line emit line s)) = sm_pending s"
  by (simp add: consume_line_def Let_def)

text \<open>Complete lines and the rest after the last newline.\<close>

fun split_lines :: "string \<Rightarrow> string \<Rightarrow> string list \<times> string" where
  "split_lines acc [] = ([], acc)"
| "split_lines acc (c # cs) =
     (if c = CHR 0x0A then let (ls, rest) = split_lines [] cs in (acc # ls, rest) else split_lines (acc @ [c]) cs)"

lemma lines_from_split:
  "lines_from acc s = fst (split_lines acc s) @ (if snd (split_lines acc s) = [] then [] else [snd (split_lines acc s)])"
  by (induction s arbitrary: acc) (simp_all add: case_prod_beta)

lemma split_lines_append:
  "split_lines acc (s @ t) = (let (ls, rest) = split_lines acc s; (ms, rest') = split_lines rest t in (ls @ ms, rest'))"
  by (induction s arbitrary: acc) (simp_all add: case_prod_beta Let_def)

lemma split_lines_plain: "CHR 0x0A \<notin> set s \<Longrightarrow> split_lines acc s = ([], acc @ s)"
  by (induction s arbitrary: acc) auto

lemma split_lines_rest: "CHR 0x0A \<notin> set acc \<Longrightarrow> CHR 0x0A \<notin> set (snd (split_lines acc s))"
  by (induction s arbitrary: acc) (simp_all add: case_prod_beta)

lemma drain_accepting:
  assumes "\<And>k. emit k"
  shows "fst (drain emit acc s st)"
    and "sm_completion (snd (drain emit acc s st)) = fold parse_line (fst (split_lines acc s)) (sm_completion st)"
    and "sm_pending (snd (drain emit acc s st)) = snd (split_lines acc s)"
proof -
  have ok: "fst (consume_line emit line s)" for line s using assms by (auto simp: consume_line_def Let_def)
  have "fst (drain emit acc s st) \<and>
    sm_completion (snd (drain emit acc s st)) = fold parse_line (fst (split_lines acc s)) (sm_completion st) \<and>
    sm_pending (snd (drain emit acc s st)) = snd (split_lines acc s)"
  proof (induction s arbitrary: acc st)
    case (Cons c cs)
    show ?case
    proof (cases "c = CHR 0x0A")
      case True
      obtain st1 where st1: "consume_line emit acc (st\<lparr>sm_pending := cs\<rparr>) = (True, st1)"
        using ok [of acc "st\<lparr>sm_pending := cs\<rparr>"] by (metis prod.collapse)
      then have "sm_completion st1 = parse_line acc (sm_completion st)"
        using consume_line_completion [of emit acc "st\<lparr>sm_pending := cs\<rparr>"] by simp
      with True st1 Cons [of "[]" st1] show ?thesis by (simp add: case_prod_beta)
    qed (use Cons in simp)
  qed simp
  then show "fst (drain emit acc s st)"
    and "sm_completion (snd (drain emit acc s st)) = fold parse_line (fst (split_lines acc s)) (sm_completion st)"
    and "sm_pending (snd (drain emit acc s st)) = snd (split_lines acc s)" by blast+
qed

text \<open>What the events say of the completion.\<close>

definition events_ok :: "stream_state \<Rightarrow> bool" where
  "events_ok s \<longleftrightarrow> concat (map ev_delta (sm_events s)) = co_content (sm_completion s) \<and>
     sm_token_index s = int (length (sm_events s)) \<and>
     list_all (\<lambda>ev. ev_event_type ev = ''token'') (sm_events s)"

lemma events_ok_pending [simp]: "events_ok (sm_pending_update f s) = events_ok s"
  by (simp add: events_ok_def)

lemma consume_line_events: "events_ok s \<Longrightarrow> events_ok (snd (consume_line emit line s))"
  by (simp add: consume_line_def Let_def events_ok_def token_event_def)

lemma drain_events: "events_ok s \<Longrightarrow> events_ok (snd (drain emit acc t s))"
proof (induction t arbitrary: acc s)
  case (Cons c cs)
  have "events_ok (snd (consume_line emit acc (s\<lparr>sm_pending := cs\<rparr>)))"
    using Cons.prems by (intro consume_line_events) simp
  with Cons show ?case
    by (cases "consume_line emit acc (s\<lparr>sm_pending := cs\<rparr>)") (auto split: bool.splits)
qed simp

lemma on_pieces_events: "events_ok s \<Longrightarrow> events_ok (snd (on_pieces emit pieces s))"
proof (induction pieces arbitrary: s)
  case (Cons piece pieces)
  have "events_ok (snd (on_body emit piece s))" using Cons.prems by (simp add: on_body_def drain_events)
  with Cons show ?case by (cases "on_body emit piece s") (auto split: bool.splits)
qed simp

lemma on_body_accepting:
  assumes "\<And>k. emit k" and "CHR 0x0A \<notin> set (sm_pending s)"
  shows "fst (on_body emit data s)"
    and "sm_completion (snd (on_body emit data s)) = fold parse_line (fst (split_lines (sm_pending s) data)) (sm_completion s)"
    and "sm_pending (snd (on_body emit data s)) = snd (split_lines (sm_pending s) data)"
proof -
  have "split_lines [] (sm_pending s @ data) = split_lines (sm_pending s) data"
    using split_lines_plain [OF assms(2), of "[]"] by (simp add: split_lines_append case_prod_beta)
  with drain_accepting [where emit = emit and acc = "[]" and s = "sm_pending s @ data" and st = s, OF assms(1)]
  show "fst (on_body emit data s)"
    and "sm_completion (snd (on_body emit data s)) = fold parse_line (fst (split_lines (sm_pending s) data)) (sm_completion s)"
    and "sm_pending (snd (on_body emit data s)) = snd (split_lines (sm_pending s) data)"
    by (simp_all add: on_body_def)
qed

lemma on_pieces_accepting:
  assumes "\<And>k. emit k" and "CHR 0x0A \<notin> set (sm_pending s)"
  shows "fst (on_pieces emit pieces s) \<and>
    sm_completion (snd (on_pieces emit pieces s)) = fold parse_line (fst (split_lines (sm_pending s) (concat pieces))) (sm_completion s) \<and>
    sm_pending (snd (on_pieces emit pieces s)) = snd (split_lines (sm_pending s) (concat pieces))"
  using assms(2)
proof (induction pieces arbitrary: s)
  case (Cons piece pieces)
  note one = on_body_accepting [where emit = emit and data = piece, OF assms(1) Cons.prems]
  obtain s1 where s1: "on_body emit piece s = (True, s1)" using one(1) by (metis prod.collapse)
  have "CHR 0x0A \<notin> set (sm_pending s1)" using one(3) s1 split_lines_rest [OF Cons.prems] by simp
  from Cons.IH [OF this] one s1 show ?case by (simp add: split_lines_append case_prod_beta Let_def)
qed simp

lemma stream_spec:
  assumes "\<And>k. emit k"
  shows "case on_pieces emit pieces stream_start of
      (ok, s) \<Rightarrow> ok \<and>
        (case flush_pending emit s of
           (ok', s') \<Rightarrow> ok' \<and> sm_completion s' = ParseLlamaServerCompletion (concat pieces) True \<and>
             concat (map ev_delta (sm_events s')) = co_content (sm_completion s') \<and>
             sm_token_index s' = int (length (sm_events s')))"
proof -
  obtain s where s: "on_pieces emit pieces stream_start = (True, s)"
    using on_pieces_accepting [where emit = emit and s = stream_start and pieces = pieces, OF assms] by (cases "on_pieces emit pieces stream_start") (auto simp: stream_start_def)
  have split: "sm_completion s = fold parse_line (fst (split_lines [] (concat pieces))) empty_completion"
    "sm_pending s = snd (split_lines [] (concat pieces))"
    using on_pieces_accepting [where emit = emit and s = stream_start and pieces = pieces, OF assms] s by (simp_all add: stream_start_def)
  have ev: "events_ok s"
    using on_pieces_events [of stream_start emit pieces] s by (simp add: events_ok_def stream_start_def empty_completion_def)
  obtain s' where s': "flush_pending emit s = (True, s')"
    using assms by (cases "flush_pending emit s") (auto simp: flush_pending_def consume_line_def Let_def split: if_splits)
  have "sm_completion s' = (if sm_pending s = [] then sm_completion s else parse_line (sm_pending s) (sm_completion s))"
    using s' consume_line_completion [of emit "sm_pending s" s] by (auto simp: flush_pending_def split: if_splits)
  also have "\<dots> = ParseLlamaServerCompletion (concat pieces) True"
    by (simp add: ParseLlamaServerCompletion_def getlines_def lines_from_split split)
  finally have "sm_completion s' = ParseLlamaServerCompletion (concat pieces) True" .
  moreover have "events_ok s'"
    using s' ev consume_line_events [OF ev, of emit "sm_pending s"] by (auto simp: flush_pending_def split: if_splits)
  ultimately show ?thesis using s s' by (simp add: events_ok_def)
qed

text \<open>
  C23: Streaming agrees with the whole-response parser, however the network cuts the body into
  pieces: when every event is accepted, feeding the pieces to \<open>on_body\<close> and the rest to
  \<open>consume_line\<close> yields the completion that \<open>ParseLlamaServerCompletion\<close> computes from the joined
  body, the deltas of the events joined are its content, and the token index counts the events.
\<close>

theorem stream_agrees_with_batch:
  assumes "\<And>k. emit k"
  shows "case on_pieces emit pieces stream_start of
      (ok, s) \<Rightarrow> ok \<and>
        (case flush_pending emit s of
           (ok', s') \<Rightarrow> ok' \<and> sm_completion s' = ParseLlamaServerCompletion (concat pieces) True \<and>
             concat (map ev_delta (sm_events s')) = co_content (sm_completion s') \<and>
             sm_token_index s' = int (length (sm_events s')))"
  using assms by (rule stream_spec)

theorem stream_agrees_with_batch_witness:
  "case on_pieces (\<lambda>_. True) [''da'', ''ta: {}''] stream_start of
      (ok, s) \<Rightarrow> ok \<and> sm_completion (snd (flush_pending (\<lambda>_. True) s)) = ParseLlamaServerCompletion ''data: {}'' True"
  using stream_agrees_with_batch [of "\<lambda>_. True" "[''da'', ''ta: {}'']"] by (auto split: prod.splits)

subsection \<open>Escaping and extracting\<close>

definition json_safe :: "char \<Rightarrow> bool" where
  "json_safe c \<longleftrightarrow> c = CHR 0x0A \<or> c = CHR 0x0D \<or> c = CHR 0x09 \<or> 0x20 \<le> code c"

text \<open>What the extractor makes of one escaped character.\<close>

definition reread :: "char \<Rightarrow> string" where
  "reread c = (if json_safe c then [c] else if c = CHR 0x08 then ''b'' else if c = CHR 0x0C then ''f''
     else ''u'' @ hex4 (code c))"

lemma scan_plain: "\<forall>c \<in> set s. c \<noteq> CHR 0x5C \<and> c \<noteq> CHR 0x22 \<Longrightarrow> scan_string acc False (s @ rest) = scan_string (acc @ s) False rest"
  by (induction s arbitrary: acc) auto

lemma hex4_plain: "code c < 32 \<Longrightarrow> \<forall>d \<in> set (hex4 (code c)). d \<noteq> CHR 0x5C \<and> d \<noteq> CHR 0x22"
proof -
  assume "code c < 32"
  then have "code c div 16 < 16" "code c mod 16 < 16" by auto
  moreover have "hex_digit n \<noteq> CHR 0x5C \<and> hex_digit n \<noteq> CHR 0x22" if "n < 16" for n
  proof -
    have "code (hex_digit n) \<noteq> code CHR 0x5C" "code (hex_digit n) \<noteq> code CHR 0x22"
      using that by (auto simp: hex_digit_def code_char_of) (simp_all add: code_def)
    then show ?thesis by metis
  qed
  ultimately show ?thesis by (auto simp: hex4_def)
qed

lemma scan_escaped_char: "scan_string acc False (json_escape_char c @ rest) = scan_string (acc @ reread c) False rest"
proof (cases "json_safe c")
  case True
  then show ?thesis
    by (auto simp: json_escape_char_def reread_def json_safe_def unescape_char_def code_def)
next
  case False
  then have low: "code c < 32" by (simp add: json_safe_def)
  have "c \<noteq> CHR 0x22" "c \<noteq> CHR 0x5C" using low by (auto simp: code_def)
  with False low show ?thesis
    using scan_plain [OF hex4_plain [OF low], of "acc @ ''u''" rest]
    by (auto simp: json_escape_char_def reread_def json_safe_def unescape_char_def)
qed

lemma scan_escaped: "scan_string acc False (JsonEscape v @ rest) = scan_string (acc @ concat (map reread v)) False rest"
proof (induction v arbitrary: acc)
  case (Cons c v)
  have "scan_string acc False (JsonEscape (c # v) @ rest) = scan_string (acc @ reread c) False (JsonEscape v @ rest)"
    using scan_escaped_char [of acc c "JsonEscape v @ rest"] by (simp add: JsonEscape_def)
  with Cons show ?case by simp
qed (simp add: JsonEscape_def)

lemma reread_all_safe: "concat (map reread v) = v \<longleftrightarrow> list_all json_safe v"
proof (induction v)
  case (Cons c v)
  have "json_safe CHR ''b''" "json_safe CHR ''f''" "json_safe CHR ''u''" by (simp_all add: json_safe_def code_def)
  then have "json_safe (hd (reread c))" if "\<not> json_safe c" using that by (simp add: reread_def)
  then have "hd (reread c) \<noteq> c" if "\<not> json_safe c" using that by auto
  moreover have "reread c \<noteq> []" by (simp add: reread_def)
  ultimately have unsafe: "concat (map reread (c # v)) \<noteq> c # v" if "\<not> json_safe c"
    using that by (cases "reread c") auto
  show ?case
  proof (cases "json_safe c")
    case True
    then have "reread c = [c]" by (simp add: reread_def)
    with Cons True show ?thesis by simp
  next
    case False
    with unsafe show ?thesis by simp
  qed
qed simp

text \<open>A field at the start of an object whose value is an escaped string.\<close>

lemma extract_first_field:
  assumes "CHR 0x22 \<notin> set field"
  shows "ExtractJsonStringField (''{'' @ quoted field @ '':'' @ JsonStringValue v @ rest) field = Some (concat (map reread v))"
proof -
  let ?key = "[CHR 0x22] @ field @ [CHR 0x22]"
  have "str_find ?key (''{'' @ quoted field @ '':'' @ JsonStringValue v @ rest) = Some 1"
    by (simp add: quoted_def)
  then have "field_text (''{'' @ quoted field @ '':'' @ JsonStringValue v @ rest) field = Some (JsonStringValue v @ rest)"
    by (simp add: field_text_def Let_def quoted_def JsonStringValue_def isspace_def code_def)
  then show ?thesis
    using scan_escaped [of "[]" v "CHR 0x22 # rest"] by (simp add: ExtractJsonStringField_def JsonStringValue_def)
qed

text \<open>
  C36: The request body round trip: the extractor reads the prompt back from the body the
  backend builds if and only if the prompt has no control character other than newline, carriage
  return and tab. The escapes written for the other control characters are not decoded.
\<close>

theorem request_body_roundtrip:
  "ExtractJsonStringField (BuildLlamaServerRequestBody F prompt n temperature cache stream timings) ''prompt'' = Some prompt
   \<longleftrightarrow> list_all json_safe prompt"
proof -
  have "ExtractJsonStringField (BuildLlamaServerRequestBody F prompt n temperature cache stream timings) ''prompt'' =
      Some (concat (map reread prompt))"
    unfolding BuildLlamaServerRequestBody_def by (rule extract_first_field) simp
  then show ?thesis using reread_all_safe by simp
qed

end
