(* ===== verification/Worker_Io.thy ===== *)
theory Worker_Io
  imports Text_Util
begin

text \<open>
  What the worker asks of its surroundings. The record \<open>os\<close> answers the cancellation callback, the
  monotonic clock (nanoseconds), \<open>send\<close> and \<open>recv\<close>, each by the number of earlier calls of its kind; the
  resolver answers by host and port, \<open>socket\<close> and \<open>connect\<close> by the address they are called for. Its
  extension \<open>host\<close> answers the file system by path and the process calls by their number, with separate
  answers for a \<open>waitpid\<close> that polls (\<open>WNOHANG\<close>) and one that blocks. The record \<open>io\<close> counts the
  calls, the milliseconds slept and the resources held (open sockets, resolver results not freed, pipe
  descriptors, child processes not waited for). Everything in \<open>os\<close> is a parameter: no theorem fixes an
  answer except where it says so.
\<close>

text \<open>The calls of \<open>ConnectWithTimeout\<close> for one address.\<close>

record connect_calls =
  cc_getfl :: int
  cc_setfl :: int
  cc_connect :: int
  cc_in_progress :: bool
  cc_poll :: int
  cc_getsockopt :: int
  cc_socket_error :: int

datatype recv_result = RecvData string | RecvEof | RecvInterrupted | RecvError

record os =
  os_cancelled :: "nat \<Rightarrow> bool"
  os_clock :: "nat \<Rightarrow> int"
  os_getaddrinfo :: "string \<Rightarrow> string \<Rightarrow> nat list option"
  os_socket :: "nat \<Rightarrow> bool"
  os_connect :: "nat \<Rightarrow> connect_calls"
  os_send :: "nat \<Rightarrow> int"
  os_recv :: "nat \<Rightarrow> recv_result"

datatype wait_status = Exited int | Signaled int

datatype wait_result = WaitRunning | WaitReaped wait_status | WaitInterrupted | WaitFailed string

text \<open>A blocking \<open>waitpid\<close> does not return while the child runs.\<close>

datatype blocking_wait_result = BlockingReaped wait_status | BlockingInterrupted | BlockingFailed

datatype read_result = ReadData string | ReadEof | ReadInterrupted | ReadWouldBlock | ReadFailed

text \<open>A failed \<open>pipe\<close> or \<open>fork\<close> is the text of its error.\<close>

record host = os +
  os_exists :: "string \<Rightarrow> bool"
  os_regular_file :: "string \<Rightarrow> bool"
  os_executable :: "string \<Rightarrow> bool"
  os_pipe :: "nat \<Rightarrow> string option"
  os_fork :: "nat \<Rightarrow> string option"
  os_read :: "nat \<Rightarrow> read_result"
  os_waitpid :: "nat \<Rightarrow> wait_result"
  os_waitpid_blocking :: "nat \<Rightarrow> blocking_wait_result"

record io =
  io_polls :: nat
  io_clock_reads :: nat
  io_slept_ms :: int
  io_sends :: nat
  io_recvs :: nat
  io_open_sockets :: nat
  io_addrinfos :: nat
  io_spawns :: nat
  io_reads :: nat
  io_waits :: nat
  io_blocking_waits :: nat
  io_open_pipes :: nat
  io_children :: nat
  io_signals :: "int list"

definition io_start :: io where
  "io_start = \<lparr>io_polls = 0, io_clock_reads = 0, io_slept_ms = 0, io_sends = 0, io_recvs = 0, io_open_sockets = 0,
     io_addrinfos = 0, io_spawns = 0, io_reads = 0, io_waits = 0, io_blocking_waits = 0, io_open_pipes = 0, io_children = 0, io_signals = []\<rparr>"

definition is_cancelled :: "'a os_scheme \<Rightarrow> io \<Rightarrow> bool \<times> io" where
  "is_cancelled os io = (os_cancelled os (io_polls io), io\<lparr>io_polls := Suc (io_polls io)\<rparr>)"

definition clock_now :: "'a os_scheme \<Rightarrow> io \<Rightarrow> int \<times> io" where
  "clock_now os io = (os_clock os (io_clock_reads io), io\<lparr>io_clock_reads := Suc (io_clock_reads io)\<rparr>)"

definition sleep_ms :: "int \<Rightarrow> io \<Rightarrow> io" where
  "sleep_ms ms io = io\<lparr>io_slept_ms := io_slept_ms io + ms\<rparr>"

text \<open>\<open>std::chrono::duration_cast<microseconds>\<close> of a difference in nanoseconds.\<close>

definition micros :: "int \<Rightarrow> int" where
  "micros nanos = nanos sdiv 1000"

end
