(* ===== verification/Backend_Api.thy ===== *)
theory Backend_Api
  imports Llama_Json Worker_Io
begin

text \<open>
  The interface every inference backend implements: the types of \<open>backend/inference_backend.h\<close>, the results of
  cancelled and unavailable batches, the loop over the requests of a batch, and the default \<open>ProcessStream\<close> of the
  base class. Two locales state what the service relies on: one for \<open>ProcessBatch\<close>, one for \<open>ProcessStream\<close>; the
  base class implements the second from the first. A backend works on a state \<open>'s\<close> and \<^term>\<open>None\<close> is a call
  that never returns.
\<close>

subsection \<open>Types\<close>

datatype BackendStatusCode = kOk | kCancelled | kInvalidArgument | kUnavailable

record BackendRequest =
  bq_id :: string
  bq_prompt :: string
  bq_trace_id :: string

record BackendResult =
  br_code :: BackendStatusCode
  br_message :: string
  br_outputs :: "string list"
  br_output_metadata :: "metadata list"

definition empty_result :: BackendResult where
  "empty_result = \<lparr>br_code = kOk, br_message = '''', br_outputs = [], br_output_metadata = []\<rparr>"

definition CancelledResult :: BackendResult where
  "CancelledResult = empty_result\<lparr>br_code := kCancelled, br_message := ''batch cancelled''\<rparr>"

definition UnavailableResult :: "string \<Rightarrow> BackendResult" where
  "UnavailableResult message = empty_result\<lparr>br_code := kUnavailable, br_message := message\<rparr>"

lemma result_simps [simp]:
  "br_code CancelledResult = kCancelled" "br_code (UnavailableResult message) = kUnavailable"
  "br_message (UnavailableResult message) = message" "br_outputs CancelledResult = []"
  "br_outputs (UnavailableResult message) = []"
  by (simp_all add: CancelledResult_def UnavailableResult_def empty_result_def)

subsection \<open>The loop over a batch\<close>

text \<open>
  The \<open>for\<close> loop of every backend: the body of a request returns early with a result (\<open>Inl\<close>) or produces what is
  pushed to the results (\<open>Inr\<close>).
\<close>

fun each_request ::
  "('q \<Rightarrow> 's \<Rightarrow> ((BackendResult + 'o) \<times> 's) option) \<Rightarrow> 'q list \<Rightarrow> 'o list \<Rightarrow> 's \<Rightarrow>
     ((BackendResult + 'o list) \<times> 's) option" where
  "each_request body [] produced s = Some (Inr produced, s)"
| "each_request body (request # rest) produced s =
     (case body request s of
        None \<Rightarrow> None
      | Some (Inl early, s1) \<Rightarrow> Some (Inl early, s1)
      | Some (Inr out, s1) \<Rightarrow> each_request body rest (produced @ [out]) s1)"

text \<open>The result of the loop: the early result, or one with the outputs (and metadata) produced.\<close>

definition batch_result :: "(BackendResult + string list) \<Rightarrow> BackendResult" where
  "batch_result r = (case r of Inl early \<Rightarrow> early | Inr outputs \<Rightarrow> empty_result\<lparr>br_outputs := outputs\<rparr>)"

definition batch_result_meta :: "(BackendResult + (string \<times> metadata) list) \<Rightarrow> BackendResult" where
  "batch_result_meta r = (case r of
     Inl early \<Rightarrow> early
   | Inr produced \<Rightarrow> empty_result\<lparr>br_outputs := map fst produced, br_output_metadata := map snd produced\<rparr>)"

lemma each_request_Inr:
  assumes "each_request body requests produced s = Some (Inr outs, s')"
  shows "\<exists>new. outs = produced @ new \<and> list_all2 (\<lambda>request out. \<exists>s1 s2. body request s1 = Some (Inr out, s2)) requests new"
  using assms
proof (induction requests arbitrary: produced s)
  case Nil
  then show ?case by simp
next
  case (Cons request rest)
  then obtain out s1 where b: "body request s = Some (Inr out, s1)"
    and r: "each_request body rest (produced @ [out]) s1 = Some (Inr outs, s')"
    by (auto split: option.splits sum.splits)
  from Cons.IH [OF r] obtain new where new: "outs = (produced @ [out]) @ new"
    "list_all2 (\<lambda>request out. \<exists>s1 s2. body request s1 = Some (Inr out, s2)) rest new" by blast
  have "\<exists>s1 s2. body request s1 = Some (Inr out, s2)" using b by blast
  with new show ?case by (intro exI [of _ "out # new"]) simp
qed

lemma each_request_Inl:
  assumes "each_request body requests produced s = Some (Inl early, s')"
  shows "\<exists>request \<in> set requests. \<exists>s1 s2. body request s1 = Some (Inl early, s2)"
  using assms
proof (induction requests arbitrary: produced s)
  case (Cons request rest)
  show ?case
  proof (cases "body request s")
    case (Some p)
    show ?thesis
    proof (cases p)
      case (Pair r s1)
      with Some Cons show ?thesis by (cases r) force+
    qed
  qed (use Cons in simp)
qed simp

lemma each_request_returns:
  assumes "\<And>request s. body request s \<noteq> None"
  shows "each_request body requests produced s \<noteq> None"
proof (induction requests arbitrary: produced s)
  case (Cons request rest)
  obtain r s1 where "body request s = Some (r, s1)" using assms [of request s] by fastforce
  with Cons show ?case by (cases r) auto
qed simp

lemma each_request_invariant:
  assumes "each_request body requests produced s = Some (out, s')" and "I s"
    and "\<And>request s r s1. I s \<Longrightarrow> body request s = Some (r, s1) \<Longrightarrow> I s1"
  shows "I s'"
  using assms(1,2)
proof (induction requests arbitrary: produced s)
  case (Cons request rest)
  obtain r s1 where b: "body request s = Some (r, s1)"
    using Cons.prems by (cases "body request s") auto
  with assms(3) Cons.prems(2) have "I s1" by blast
  with b Cons show ?case by (cases r) auto
qed simp

subsection \<open>What the service relies on\<close>

definition result_ok :: "BackendRequest list \<Rightarrow> BackendResult \<Rightarrow> bool" where
  "result_ok requests result = (case br_code result of
     kOk \<Rightarrow> br_message result = '''' \<and> length (br_outputs result) = length requests \<and>
       (br_output_metadata result = [] \<or> length (br_output_metadata result) = length requests)
   | kCancelled \<Rightarrow> result = CancelledResult
   | kInvalidArgument \<Rightarrow> False
   | kUnavailable \<Rightarrow> True)"

lemma result_ok_simps [simp]:
  "result_ok requests CancelledResult" "result_ok requests (UnavailableResult message)"
  by (simp_all add: result_ok_def)

lemma batch_result_ok:
  assumes "each_request body requests [] s = Some (r, s')"
    and "\<And>request s early s1. body request s = Some (Inl early, s1) \<Longrightarrow> result_ok requests early"
  shows "result_ok requests (batch_result r)"
proof (cases r)
  case (Inl early)
  with assms each_request_Inl [of body requests "[]" s early s'] show ?thesis by (auto simp: batch_result_def)
next
  case (Inr outs)
  with assms(1) each_request_Inr [of body requests "[]" s outs s'] have "length outs = length requests"
    by (auto dest: list_all2_lengthD)
  with Inr show ?thesis by (simp add: batch_result_def result_ok_def empty_result_def)
qed

lemma batch_result_meta_ok:
  assumes "each_request body requests [] s = Some (r, s')"
    and "\<And>request s early s1. body request s = Some (Inl early, s1) \<Longrightarrow> result_ok requests early"
  shows "result_ok requests (batch_result_meta r)"
proof (cases r)
  case (Inl early)
  with assms each_request_Inl [of body requests "[]" s early s'] show ?thesis by (auto simp: batch_result_meta_def)
next
  case (Inr outs)
  with assms(1) each_request_Inr [of body requests "[]" s outs s'] have "length outs = length requests"
    by (auto dest: list_all2_lengthD)
  with Inr show ?thesis by (simp add: batch_result_meta_def result_ok_def empty_result_def)
qed

text \<open>
  \<open>InferenceBackend::ProcessStream\<close>: one batch of one request, then one event. The callback \<open>emit\<close> answers its
  \<open>k\<close>-th call; the events passed to it are returned.
\<close>

definition done_event :: "string \<Rightarrow> metadata \<Rightarrow> BackendStreamEvent" where
  "done_event result md = \<lparr>ev_event_type = ''done'', ev_delta = '''', ev_result = result, ev_metadata = md\<rparr>"

definition ProcessStream ::
  "(BackendRequest list \<Rightarrow> 's \<Rightarrow> (BackendResult \<times> 's) option) \<Rightarrow> BackendRequest \<Rightarrow> (nat \<Rightarrow> bool) \<Rightarrow> 's \<Rightarrow>
     (BackendResult \<times> BackendStreamEvent list \<times> 's) option" where
  "ProcessStream process_batch request emit s =
     (case process_batch [request] s of
        None \<Rightarrow> None
      | Some (result, s1) \<Rightarrow>
          if br_code result \<noteq> kOk then Some (result, [], s1)
          else if length (br_outputs result) \<noteq> 1
          then Some (UnavailableResult ''backend returned the wrong number of outputs'', [], s1)
          else
            let event = done_event (br_outputs result ! 0)
                  (if br_output_metadata result \<noteq> [] then br_output_metadata result ! 0 else [])
            in if \<not> emit 0 then Some (CancelledResult, [event], s1) else Some (result, [event], s1))"

text \<open>The events the client got: those whose call of \<open>emit\<close> was accepted.\<close>

definition delivered :: "(nat \<Rightarrow> bool) \<Rightarrow> 'a list \<Rightarrow> 'a list" where
  "delivered emit events = map snd (filter (\<lambda>(k, _). emit k) (enumerate 0 events))"

lemma set_delivered: "set (delivered emit events) = {events ! k |k. k < length events \<and> emit k}"
  by (force simp: delivered_def in_set_enumerate_eq)

text \<open>
  What a stream promises. It stops at the first event that is refused. A success has one output and ends with the only
  \<open>done\<close> event, which carries it and was accepted like every token event before it; otherwise the client got token events
  only, and a cancelled stream is the cancelled result.
\<close>

definition stream_ok :: "(nat \<Rightarrow> bool) \<Rightarrow> BackendResult \<Rightarrow> BackendStreamEvent list \<Rightarrow> bool" where
  "stream_ok emit result events \<longleftrightarrow> (\<forall>k. Suc k < length events \<longrightarrow> emit k) \<and> (case br_code result of
     kOk \<Rightarrow> (\<exists>out md tokens. br_outputs result = [out] \<and> events = tokens @ [done_event out md] \<and>
        list_all (\<lambda>ev. ev_event_type ev = ''token'') tokens \<and> (\<forall>k < length events. emit k))
   | kCancelled \<Rightarrow> result = CancelledResult \<and> (\<forall>k < length events. emit k \<longrightarrow> ev_event_type (events ! k) = ''token'')
   | kInvalidArgument \<Rightarrow> False
   | kUnavailable \<Rightarrow> list_all (\<lambda>ev. ev_event_type ev = ''token'') events \<and> (\<forall>k < length events. emit k))"

locale streaming_backend =
  fixes process_stream :: "BackendRequest \<Rightarrow> (nat \<Rightarrow> bool) \<Rightarrow> 's \<Rightarrow> (BackendResult \<times> BackendStreamEvent list \<times> 's) option"
  assumes stream_contract: "process_stream request emit s = Some (result, events, s') \<Longrightarrow> stream_ok emit result events"
begin

lemma stream_success_ends_with_done:
  assumes "process_stream request emit s = Some (result, events, s')" and "br_code result = kOk"
  shows "events \<noteq> [] \<and> ev_event_type (last events) = ''done'' \<and> [ev_result (last events)] = br_outputs result"
  using stream_contract [OF assms(1)] assms(2) by (auto simp: stream_ok_def done_event_def)

lemma stream_never_invalid: "process_stream request emit s = Some (result, events, s') \<Longrightarrow> br_code result \<noteq> kInvalidArgument"
  by (drule stream_contract) (auto simp: stream_ok_def)

end

locale inference_backend =
  fixes process_batch :: "BackendRequest list \<Rightarrow> 's \<Rightarrow> (BackendResult \<times> 's) option"
  assumes batch_contract: "process_batch requests s = Some (result, s') \<Longrightarrow> result_ok requests result"
begin

lemma batch_outputs:
  assumes "process_batch requests s = Some (result, s')" and "br_code result = kOk"
  shows "length (br_outputs result) = length requests"
    and "br_output_metadata result \<noteq> [] \<Longrightarrow> length (br_output_metadata result) = length requests"
  using batch_contract [OF assms(1)] assms(2) by (auto simp: result_ok_def)

lemma batch_never_invalid: "process_batch requests s = Some (result, s') \<Longrightarrow> br_code result \<noteq> kInvalidArgument"
  by (drule batch_contract) (auto simp: result_ok_def)

lemma default_stream_ok:
  assumes "ProcessStream process_batch request emit s = Some (result, events, s')"
  shows "stream_ok emit result events"
proof -
  obtain res s1 where b: "process_batch [request] s = Some (res, s1)"
    using assms by (auto simp: ProcessStream_def split: option.splits)
  note ok = batch_contract [OF b]
  show ?thesis
  proof (cases "br_code res = kOk")
    case True
    with ok obtain out where "br_outputs res = [out]" by (auto simp: result_ok_def length_Suc_conv)
    with True assms b show ?thesis
      by (auto simp: ProcessStream_def stream_ok_def Let_def split: if_splits intro!: exI [of _ "[] :: BackendStreamEvent list"])
  next
    case False
    with assms b have "result = res" "events = []" by (auto simp: ProcessStream_def)
    with ok False show ?thesis by (auto simp: stream_ok_def result_ok_def split: BackendStatusCode.splits)
  qed
qed

end

sublocale inference_backend \<subseteq> streamed: streaming_backend "ProcessStream process_batch"
  by unfold_locales (rule default_stream_ok)

end
