(* ===== verification/Tiny_Model.thy ===== *)
theory Tiny_Model
  imports Float_Ops Std_Sort Worker_Io
begin

text \<open>
  The two in-process models: the text classifier of \<open>TinyTextModelBackend\<close> and the small decoder of
  \<open>TinyLLMBackend\<close> and \<open>ContinuousTinyLLMBackend\<close>. A fixed-size array is a list of that length; a
  loop that adds to a \<open>float\<close> is a \<open>fold\<close> in the order of the code, so that rounding happens in the
  same order. The theorems are about what does not depend on rounding: lengths, token ranges,
  cancellation and the amount generated.
\<close>

definition kInputDim :: nat where "kInputDim = 128"

definition kHiddenDim :: nat where "kHiddenDim = 48"

definition kClassCount :: nat where "kClassCount = 4"

definition kTinyLLMHiddenDim :: nat where "kTinyLLMHiddenDim = 32"

definition kLabels :: "string list" where
  "kLabels = [''latency_sensitive'', ''quality_seeking'', ''safety_review'', ''general'']"

definition kTinyLLMVocabulary :: "string list" where
  "kTinyLLMVocabulary =
     [''<bos>'', ''<eos>'', ''batching'', ''latency'', ''throughput'', ''queue'', ''worker'', ''trace'',
      ''token'', ''prefill'', ''decode'', ''attention'', ''cache'', ''runtime'', ''model'', ''adaptive'',
      ''system'', ''request'', ''response'', ''metric'', ''collector'', ''span'', ''grpc'', ''http'',
      ''onnx'', ''scheduler'', ''load'', ''failure'', ''circuit'', ''prompt'', ''context'', ''generation'',
      ''quality'', ''safe'', ''fast'', ''deterministic'', ''serve'', ''inference'', ''pipeline'', ''parallel'',
      ''microbatch'', ''tail'', ''p50'', ''p95'', ''tokenizer'', ''embedding'', ''logit'', ''sample'',
      ''topk'', ''temperature'', ''hidden'', ''layer'', ''position'', ''causal'', ''benchmark'', ''evidence'',
      ''local'', ''hermetic'', ''control'', ''data'', ''engine'', ''memory'', ''compute'', ''finish'']"

subsection \<open>The text classifier\<close>

definition count_chars :: "(char \<Rightarrow> bool) \<Rightarrow> string \<Rightarrow> int" where
  "count_chars p s = int (length (filter p s))"

definition Featurize :: "'f float_ops \<Rightarrow> string \<Rightarrow> 'f list" where
  "Featurize F prompt =
     (let tokens = Tokenize prompt;
          token_scale = (if tokens = [] then f_lit F 1
            else f_div F (f_lit F 1) (f_sqrt F (f_of_int F (int (length tokens)))));
          len = f_of_int F (max (int (length prompt)) 1);
          head = [f_lit F 1,
            f_min F (f_div F len (f_lit F 256)) (f_lit F 1),
            f_min F (f_div F (f_of_int F (int (length tokens))) (f_lit F 64)) (f_lit F 1),
            f_min F (f_div F (f_of_int F (count_chars isupper prompt)) len) (f_lit F 1),
            f_min F (f_div F (f_of_int F (count_chars isdigit prompt)) len) (f_lit F 1),
            f_min F (f_div F (f_of_int F (count_chars ispunct prompt)) len) (f_lit F 1)]
      in fold (\<lambda>token features.
            let index = 6 + unat (HashToken token mod word_of_nat (kInputDim - 6))
            in features[index := f_add F (features ! index) token_scale])
          tokens (head @ replicate (kInputDim - 6) (f_lit F 0)))"

definition InputWeight :: "'f float_ops \<Rightarrow> int \<Rightarrow> int \<Rightarrow> 'f" where
  "InputWeight F input hidden =
     (let seed = (input + 17) * 37 + (hidden + 11) * 101
      in f_mul F (f_lit F (75 / 1000)) (f_sin F (f_mul F (f_of_int F seed) (f_lit F (17 / 1000)))))"

definition RecurrentWeight :: "'f float_ops \<Rightarrow> int \<Rightarrow> int \<Rightarrow> int \<Rightarrow> 'f" where
  "RecurrentWeight F row col layer =
     (let seed = (row + 3) * 53 + (col + 5) * 97 + (layer + 1) * 193
      in f_mul F (f_lit F (55 / 1000)) (f_cos F (f_mul F (f_of_int F seed) (f_lit F (13 / 1000)))))"

definition OutputWeight :: "'f float_ops \<Rightarrow> int \<Rightarrow> int \<Rightarrow> 'f" where
  "OutputWeight F hidden klass =
     (let seed = (hidden + 19) * 71 + (klass + 23) * 131
      in f_mul F (f_lit F (12 / 100)) (f_sin F (f_mul F (f_of_int F seed) (f_lit F (11 / 1000)))))"

definition Bias :: "'f float_ops \<Rightarrow> int \<Rightarrow> 'f \<Rightarrow> 'f" where
  "Bias F index scale =
     f_mul F scale (f_sin F (f_mul F (f_of_int F ((index + 1) * 29)) (f_lit F (19 / 1000))))"

text \<open>\<open>sum += x[i] * w(i)\<close> for all \<open>i\<close> in order.\<close>

definition weighted_sum :: "'f float_ops \<Rightarrow> (nat \<Rightarrow> 'f) \<Rightarrow> 'f list \<Rightarrow> nat \<Rightarrow> 'f \<Rightarrow> 'f" where
  "weighted_sum F weight xs n start = fold (\<lambda>i sum. f_add F sum (f_mul F (xs ! i) (weight i))) [0..<n] start"

text \<open>\<open>std::max_element\<close>: the position of the first largest element.\<close>

definition max_element :: "'f float_ops \<Rightarrow> 'f list \<Rightarrow> nat" where
  "max_element F xs = fold (\<lambda>i best. if f_less F (xs ! best) (xs ! i) then i else best) [1..<length xs] 0"

definition Softmax :: "'f float_ops \<Rightarrow> 'f list \<Rightarrow> 'f list" where
  "Softmax F logits =
     (let max_logit = logits ! max_element F logits;
          values = map (\<lambda>v. f_exp F (f_sub F v max_logit)) logits;
          total = fold (\<lambda>v t. f_add F t v) values (f_lit F 0)
      in map (\<lambda>v. f_div F v (f_max F total (f_min_positive F))) values)"

definition input_layer :: "'f float_ops \<Rightarrow> 'f list \<Rightarrow> 'f list" where
  "input_layer F features =
     map (\<lambda>j. f_tanh F (weighted_sum F (\<lambda>i. InputWeight F (int i) (int j)) features kInputDim
       (Bias F (int j) (f_lit F (5 / 100))))) [0..<kHiddenDim]"

definition recurrent_layer :: "'f float_ops \<Rightarrow> nat \<Rightarrow> 'f list \<Rightarrow> 'f list" where
  "recurrent_layer F layer hidden =
     map (\<lambda>j. f_tanh F (weighted_sum F (\<lambda>k. RecurrentWeight F (int k) (int j) (int layer)) hidden kHiddenDim
       (Bias F (int (j + layer)) (f_lit F (3 / 100))))) [0..<kHiddenDim]"

definition output_layer :: "'f float_ops \<Rightarrow> 'f list \<Rightarrow> 'f list" where
  "output_layer F hidden =
     map (\<lambda>c. weighted_sum F (\<lambda>j. OutputWeight F (int j) (int c)) hidden kHiddenDim
       (Bias F (int c) (f_lit F (2 / 100)))) [0..<kClassCount]"

definition FormatTinyModelOutput :: "'f float_ops \<Rightarrow> string \<Rightarrow> 'f \<Rightarrow> int \<Rightarrow> int \<Rightarrow> string" where
  "FormatTinyModelOutput F label confidence batch_size iterations =
     ''TinyTextModel(backend=tiny_text_model, label='' @ label @ '', confidence='' @ f_fixed F 3 confidence @
     '', batch_size='' @ to_string batch_size @ '', iterations='' @ to_string iterations @ '')''"

subsection \<open>The decoder\<close>

definition TinyLLMEmbedding :: "'f float_ops \<Rightarrow> int \<Rightarrow> int \<Rightarrow> 'f" where
  "TinyLLMEmbedding F token_id d =
     (let seed = (token_id + 7) * 131 + (d + 3) * 17
      in f_mul F (f_lit F (5 / 10)) (f_sin F (f_mul F (f_of_int F seed) (f_lit F (31 / 1000)))))"

definition TinyLLMProjection :: "'f float_ops \<Rightarrow> int \<Rightarrow> int \<Rightarrow> int \<Rightarrow> 'f" where
  "TinyLLMProjection F row col salt =
     (let seed = (row + 5) * 73 + (col + 11) * 41 + salt * 149
      in f_sin F (f_mul F (f_of_int F seed) (f_lit F (17 / 1000))))"

definition TinyLLMInputState :: "'f float_ops \<Rightarrow> nat \<Rightarrow> nat \<Rightarrow> 'f list" where
  "TinyLLMInputState F token_id position =
     map (\<lambda>d.
       let position_signal = f_mul F (f_lit F (25 / 100))
             (f_sin F (f_mul F (f_of_int F ((int position + 1) * (int d + 1))) (f_lit F (71 / 1000))))
       in f_add F (TinyLLMEmbedding F (int token_id) (int d)) position_signal) [0..<kTinyLLMHiddenDim]"

definition Dot :: "'f float_ops \<Rightarrow> 'f list \<Rightarrow> 'f list \<Rightarrow> int \<Rightarrow> 'f" where
  "Dot F lhs rhs salt =
     fold (\<lambda>d total. f_add F total (f_mul F (f_mul F (lhs ! d) (rhs ! d))
         (f_add F (f_lit F (75 / 100)) (f_mul F (f_lit F (25 / 100)) (TinyLLMProjection F (int d) salt 1)))))
       [0..<kTinyLLMHiddenDim] (f_lit F 0)"

definition attention_scores :: "'f float_ops \<Rightarrow> 'f list \<Rightarrow> 'f list list \<Rightarrow> 'f list" where
  "attention_scores F query previous_states =
     map (\<lambda>i.
       let distance_penalty = f_mul F (f_lit F (15 / 1000)) (f_of_int F (int (length previous_states) - int i))
       in f_sub F (f_div F (Dot F query (previous_states ! i) (int i)) (f_sqrt F (f_of_int F (int kTinyLLMHiddenDim))))
            distance_penalty) [0..<length previous_states]"

definition attention_context :: "'f float_ops \<Rightarrow> 'f list \<Rightarrow> 'f list list \<Rightarrow> 'f list" where
  "attention_context F query previous_states =
     (let zero = replicate kTinyLLMHiddenDim (f_lit F 0)
      in if previous_states = [] then zero
         else
           let raw = attention_scores F query previous_states;
               max_score = fold (\<lambda>score m. f_max F m score) raw (f_neg_infinity F);
               scores = map (\<lambda>score. f_exp F (f_sub F score max_score)) raw;
               total = f_max F (fold (\<lambda>score t. f_add F t score) scores (f_lit F 0)) (f_min_positive F)
           in fold (\<lambda>i context.
                let weight = f_div F (scores ! i) total
                in map (\<lambda>d. f_add F (context ! d) (f_mul F weight (previous_states ! i ! d))) [0..<kTinyLLMHiddenDim])
              [0..<length previous_states] zero)"

definition feed_forward :: "'f float_ops \<Rightarrow> 'f list \<Rightarrow> 'f list \<Rightarrow> nat \<Rightarrow> 'f" where
  "feed_forward F query context d =
     fold (\<lambda>quarter ff.
       let hidden = 4 * quarter;
           ff1 = f_add F ff (f_mul F (query ! hidden) (TinyLLMProjection F (int hidden) (int d) 2))
       in f_add F ff1 (f_mul F (context ! hidden) (TinyLLMProjection F (int hidden) (int d) 3)))
     [0..<kTinyLLMHiddenDim div 4] (f_lit F 0)"

definition TinyLLMNextState :: "'f float_ops \<Rightarrow> nat \<Rightarrow> nat \<Rightarrow> 'f list list \<Rightarrow> 'f list" where
  "TinyLLMNextState F token_id position previous_states =
     (let query = TinyLLMInputState F token_id position;
          context = attention_context F query previous_states
      in map (\<lambda>d.
           f_tanh F (f_add F (f_add F (f_mul F (f_lit F (58 / 100)) (query ! d))
             (f_mul F (f_lit F (37 / 100)) (context ! d)))
             (f_mul F (f_lit F (5 / 100)) (feed_forward F query context d)))) [0..<kTinyLLMHiddenDim])"

text \<open>The prefill loop from a position on; a cancelled prefill has no states.\<close>

fun prefill_states :: "'f float_ops \<Rightarrow> 'a os_scheme \<Rightarrow> nat list \<Rightarrow> nat \<Rightarrow> 'f list list \<Rightarrow> io \<Rightarrow> 'f list list \<times> io" where
  "prefill_states F os [] position states io = (states, io)"
| "prefill_states F os (token # rest) position states io =
     (let (cancelled, io1) = is_cancelled os io
      in if cancelled then ([], io1)
         else prefill_states F os rest (Suc position) (states @ [TinyLLMNextState F token position states]) io1)"

definition TinyLLMPrefill :: "'f float_ops \<Rightarrow> 'a os_scheme \<Rightarrow> nat list \<Rightarrow> io \<Rightarrow> 'f list list \<times> io" where
  "TinyLLMPrefill F os token_ids io = prefill_states F os token_ids 0 [] io"

definition TinyLLMLogits :: "'f float_ops \<Rightarrow> 'f list \<Rightarrow> 'f \<Rightarrow> 'f list" where
  "TinyLLMLogits F state temperature =
     (let safe_temperature = f_max F temperature (f_lit F (5 / 100))
      in map (\<lambda>token.
           let start = f_mul F (f_lit F (2 / 100)) (f_sin F (f_mul F (f_of_int F (int token + 1)) (f_lit F (37 / 100))));
               logit = fold (\<lambda>d l. f_add F l (f_mul F (f_mul F (state ! d)
                   (TinyLLMProjection F (int d) (int token) 5)) (f_lit F (15 / 100)))) [0..<kTinyLLMHiddenDim] start;
               logit' = (if token < 2 then f_sub F logit (f_lit F 1) else logit)
           in f_div F logit' safe_temperature) [0..<kTinyLLMVocabSize])"

definition ranks_before :: "'f float_ops \<Rightarrow> 'f \<times> nat \<Rightarrow> 'f \<times> nat \<Rightarrow> bool" where
  "ranks_before F lhs rhs =
     (if f_eq F (fst lhs) (fst rhs) then snd lhs < snd rhs else f_less F (fst rhs) (fst lhs))"

text \<open>
  The first \<open>top_k\<close> elements of \<open>std::partial_sort\<close> are those of the sorted list, and the offset
  stays below \<open>top_k\<close>. Both constructors that store a \<open>top_k\<close> clamp it to 1 and above, so that the range
  given to \<open>std::partial_sort\<close> is never reversed or empty.
\<close>

definition TinyLLMSelectToken :: "'f float_ops \<Rightarrow> 'f list \<Rightarrow> int \<Rightarrow> 32 word \<Rightarrow> nat \<Rightarrow> nat" where
  "TinyLLMSelectToken F logits top_k seed step =
     (let ranked = map (\<lambda>token. (logits ! token, token)) [2..<kTinyLLMVocabSize];
          sorted = std_sort (ranks_before F) ranked;
          capped_top_k = max 1 (min top_k (int (length ranked)));
          offset = unat ((seed + word_of_nat (step * 17)) mod word_of_int capped_top_k)
      in snd (sorted ! offset))"

fun join_tokens :: "nat list \<Rightarrow> string" where
  "join_tokens [] = []"
| "join_tokens (token # rest) = '' '' @ kTinyLLMVocabulary ! token @ join_tokens rest"

definition JoinGeneratedTokens :: "nat list \<Rightarrow> string" where
  "JoinGeneratedTokens token_ids = drop 1 (join_tokens token_ids)"

subsection \<open>Generation\<close>

text \<open>
  The decode loop, \<open>left\<close> steps before its end; \<^term>\<open>None\<close> is a return because of cancellation.
\<close>

fun decode_loop :: "'f float_ops \<Rightarrow> 'a os_scheme \<Rightarrow> 'f \<Rightarrow> int \<Rightarrow> 32 word \<Rightarrow> nat \<Rightarrow> nat \<Rightarrow>
    nat list \<Rightarrow> nat list \<Rightarrow> 'f list list \<Rightarrow> io \<Rightarrow> (nat list \<times> nat list \<times> 'f list list) option \<times> io" where
  "decode_loop F os temperature top_k seed step 0 generated_ids token_ids states io =
     (Some (generated_ids, token_ids, states), io)"
| "decode_loop F os temperature top_k seed step (Suc left) generated_ids token_ids states io =
     (let (cancelled, io1) = is_cancelled os io
      in if cancelled then (None, io1)
         else
           let logits = TinyLLMLogits F (last states) temperature;
               next_token = TinyLLMSelectToken F logits top_k seed step;
               token_ids1 = token_ids @ [next_token];
               states1 = states @ [TinyLLMNextState F next_token (length token_ids1 - 1) states]
           in decode_loop F os temperature top_k seed (Suc step) left (generated_ids @ [next_token]) token_ids1 states1 io1)"

record TinyLLMGeneration =
  tg_generated :: string
  tg_prompt_tokens :: int
  tg_generated_tokens :: int
  tg_prefill_micros :: int
  tg_decode_micros :: int

definition GenerateTinyLLMCompletion ::
  "'f float_ops \<Rightarrow> 'a os_scheme \<Rightarrow> string \<Rightarrow> int \<Rightarrow> 'f \<Rightarrow> int \<Rightarrow> io \<Rightarrow> TinyLLMGeneration \<times> io" where
  "GenerateTinyLLMCompletion F os prompt max_generated_tokens temperature top_k io0 =
     (let token_ids = TokenizeForTinyLLM prompt;
          (prefill_start, io1) = clock_now os io0;
          (states, io2) = TinyLLMPrefill F os token_ids io1;
          (prefill_end, io3) = clock_now os io2;
          generation = \<lparr>tg_generated = [], tg_prompt_tokens = int (length token_ids), tg_generated_tokens = 0,
            tg_prefill_micros = micros (prefill_end - prefill_start), tg_decode_micros = 0\<rparr>;
          (cancelled, io4) = is_cancelled os io3
      in if cancelled \<or> states = [] then (generation, io4)
         else
           let (decode_start, io5) = clock_now os io4;
               (decoded, io6) = decode_loop F os temperature top_k (HashToken prompt) 0 (nat max_generated_tokens)
                 [] token_ids states io5
           in case decoded of
                None \<Rightarrow> (generation, io6)
              | Some (generated_ids, _, _) \<Rightarrow>
                  let (decode_end, io7) = clock_now os io6
                  in (generation\<lparr>tg_generated := JoinGeneratedTokens generated_ids,
                        tg_generated_tokens := int (length generated_ids),
                        tg_decode_micros := micros (decode_end - decode_start)\<rparr>, io7))"

subsection \<open>What is generated\<close>

text \<open>
  The reference: the states of a token sequence, each computed from the ones before it, and the
  tokens a prompt is continued with. Neither mentions the clock or cancellation.
\<close>

definition states_of :: "'f float_ops \<Rightarrow> nat list \<Rightarrow> 'f list list" where
  "states_of F tokens = fold (\<lambda>token states. states @ [TinyLLMNextState F token (length states) states]) tokens []"

fun continuation :: "'f float_ops \<Rightarrow> 'f \<Rightarrow> int \<Rightarrow> 32 word \<Rightarrow> nat \<Rightarrow> nat \<Rightarrow> nat list \<Rightarrow> nat list" where
  "continuation F temperature top_k seed step 0 tokens = []"
| "continuation F temperature top_k seed step (Suc left) tokens =
     (let token = TinyLLMSelectToken F (TinyLLMLogits F (last (states_of F tokens)) temperature) top_k seed step
      in token # continuation F temperature top_k seed (Suc step) left (tokens @ [token]))"

definition completion :: "'f float_ops \<Rightarrow> 'f \<Rightarrow> int \<Rightarrow> nat \<Rightarrow> string \<Rightarrow> nat list" where
  "completion F temperature top_k n prompt =
     continuation F temperature top_k (HashToken prompt) 0 n (TokenizeForTinyLLM prompt)"

lemma states_of_snoc: "states_of F (tokens @ [t]) = states_of F tokens @ [TinyLLMNextState F t (length tokens) (states_of F tokens)]"
proof -
  have len: "length (fold (\<lambda>token states. states @ [TinyLLMNextState F token (length states) states]) ts ss) = length ss + length ts" for ts ss
    by (induction ts arbitrary: ss) auto
  show ?thesis by (simp add: states_of_def len)
qed

lemma length_states_of [simp]: "length (states_of F tokens) = length tokens"
  by (induction tokens rule: rev_induct) (auto simp: states_of_snoc, simp add: states_of_def)

lemma length_continuation [simp]: "length (continuation F temperature top_k seed step n tokens) = n"
  by (induction n arbitrary: step tokens) (auto simp: Let_def)

text \<open>The calls a function makes only move the call counters.\<close>

definition only_polls :: "io \<Rightarrow> io \<Rightarrow> bool" where
  "only_polls io io' \<longleftrightarrow> (\<exists>k. io' = io\<lparr>io_polls := io_polls io + k\<rparr>)"

lemma only_polls_refl: "only_polls io io"
  unfolding only_polls_def by (rule exI [of _ 0]) simp

lemma only_polls_step: "only_polls (io\<lparr>io_polls := Suc (io_polls io)\<rparr>) io' \<Longrightarrow> only_polls io io'"
  by (auto simp: only_polls_def intro: exI [of _ "Suc k" for k])

lemma prefill_states_spec:
  assumes "states = states_of F before" and "prefill_states F os tokens (length before) states io = (out, io')"
  shows "(out = states_of F (before @ tokens) \<or> out = [] \<and> (\<exists>k. os_cancelled os k)) \<and> only_polls io io'"
  using assms
proof (induction tokens arbitrary: before states io)
  case Nil
  then show ?case by (simp add: only_polls_refl)
next
  case (Cons token tokens)
  show ?case
  proof (cases "os_cancelled os (io_polls io)")
    case True
    with Cons.prems show ?thesis
      by (auto simp: is_cancelled_def intro: only_polls_step only_polls_refl)
  next
    case False
    with Cons.IH [of "states_of F (before @ [token])" "before @ [token]" "io\<lparr>io_polls := Suc (io_polls io)\<rparr>"] Cons.prems
    show ?thesis
      by (auto simp: is_cancelled_def states_of_snoc intro: only_polls_step)
  qed
qed

lemma decode_loop_spec:
  assumes "states = states_of F tokens" and "tokens \<noteq> []"
    and "decode_loop F os temperature top_k seed step n ids tokens states io = (decoded, io')"
  shows "(decoded = None \<and> (\<exists>k. os_cancelled os k) \<or>
      (let new = continuation F temperature top_k seed step n tokens
       in decoded = Some (ids @ new, tokens @ new, states_of F (tokens @ new)))) \<and> only_polls io io'"
  using assms
proof (induction n arbitrary: step ids tokens states io)
  case 0
  then show ?case by (simp add: only_polls_refl)
next
  case (Suc n)
  let ?t = "TinyLLMSelectToken F (TinyLLMLogits F (last (states_of F tokens)) temperature) top_k seed step"
  show ?case
  proof (cases "os_cancelled os (io_polls io)")
    case True
    with Suc.prems show ?thesis
      by (auto simp: is_cancelled_def intro: only_polls_step only_polls_refl)
  next
    case False
    with Suc.IH [of "states_of F (tokens @ [?t])" "tokens @ [?t]" "Suc step" "ids @ [?t]" "io\<lparr>io_polls := Suc (io_polls io)\<rparr>"] Suc.prems
    show ?thesis
      by (auto simp: is_cancelled_def states_of_snoc Let_def intro: only_polls_step)
  qed
qed

lemma TinyLLMSelectToken_range: "2 \<le> TinyLLMSelectToken F logits top_k seed step \<and> TinyLLMSelectToken F logits top_k seed step < kTinyLLMVocabSize"
proof -
  define ranked where "ranked = map (\<lambda>token. (logits ! token, token)) [2..<kTinyLLMVocabSize]"
  define k where "k = max 1 (min top_k (int (length ranked)))"
  have k: "1 \<le> k" "k \<le> 62" by (auto simp: k_def ranked_def kTinyLLMVocabSize_def)
  have uk: "unat (word_of_int k :: 32 word) = nat k"
    using k by (simp add: unat_eq_nat_uint uint_word_of_int)
  have bound: "unat (w mod (word_of_int k :: 32 word)) < 62" for w
  proof -
    have "unat (w mod (word_of_int k :: 32 word)) = unat w mod nat k" by (simp only: unat_mod_distrib uk)
    also have "\<dots> < nat k" using k by (intro mod_less_divisor) simp
    also have "\<dots> \<le> 62" using k by simp
    finally show ?thesis .
  qed
  have "length (std_sort (ranks_before F) ranked) = 62" by (simp add: ranked_def kTinyLLMVocabSize_def)
  then have "std_sort (ranks_before F) ranked ! unat ((seed + word_of_nat (step * 17)) mod word_of_int k) \<in> set ranked"
    using bound by (metis nth_mem set_std_sort)
  then show ?thesis
    by (auto simp: TinyLLMSelectToken_def Let_def ranked_def [symmetric] k_def [symmetric]) (auto simp: ranked_def)
qed

lemma completion_tokens: "token \<in> set (continuation F temperature top_k seed step n tokens) \<Longrightarrow> 2 \<le> token \<and> token < kTinyLLMVocabSize"
  by (induction n arbitrary: step tokens) (auto simp: Let_def TinyLLMSelectToken_range)

lemma TokenizeForTinyLLM_nonempty [simp]: "TokenizeForTinyLLM prompt \<noteq> []"
  by (simp add: TokenizeForTinyLLM_def Let_def)

lemma TinyLLMPrefill_spec:
  assumes "TinyLLMPrefill F os tokens io = (states, io')"
  shows "(states = states_of F tokens \<or> states = [] \<and> (\<exists>k. os_cancelled os k)) \<and> only_polls io io'"
  using prefill_states_spec [of "[]" F "[]"] assms by (simp add: TinyLLMPrefill_def states_of_def)

lemma states_of_empty [simp]: "states_of F tokens = [] \<longleftrightarrow> tokens = []"
  using length_states_of [of F tokens] by (metis length_0_conv)

lemma GenerateTinyLLMCompletion_spec:
  "let generation = fst (GenerateTinyLLMCompletion F os prompt n temperature top_k io)
   in tg_prompt_tokens generation = int (length (TokenizeForTinyLLM prompt)) \<and>
      (tg_generated generation = JoinGeneratedTokens (completion F temperature top_k (nat n) prompt) \<and>
       tg_generated_tokens generation = max 0 n \<or>
       tg_generated generation = [] \<and> tg_generated_tokens generation = 0 \<and> (\<exists>k. os_cancelled os k))"
proof -
  let ?ids = "TokenizeForTinyLLM prompt"
  let ?io1 = "snd (clock_now os io)"
  obtain states io2 where pre: "TinyLLMPrefill F os ?ids ?io1 = (states, io2)" by fastforce
  let ?io4 = "snd (is_cancelled os (snd (clock_now os io2)))"
  let ?io5 = "snd (clock_now os ?io4)"
  obtain decoded io6 where dec:
    "decode_loop F os temperature top_k (HashToken prompt) 0 (nat n) [] ?ids (states_of F ?ids) ?io5 = (decoded, io6)"
    by fastforce
  have states: "states = states_of F ?ids \<or> states = [] \<and> (\<exists>k. os_cancelled os k)"
    using TinyLLMPrefill_spec [OF pre] by blast
  have decoded: "decoded = None \<and> (\<exists>k. os_cancelled os k) \<or>
      (\<exists>tokens sts. decoded = Some (completion F temperature top_k (nat n) prompt, tokens, sts))"
    using decode_loop_spec [OF refl TokenizeForTinyLLM_nonempty dec] by (auto simp: completion_def Let_def)
  have len: "int (length (completion F temperature top_k (nat n) prompt)) = max 0 n" by (simp add: completion_def)
  show ?thesis
    using states decoded pre dec len
    by (cases "os_cancelled os (io_polls io2)")
      (auto simp: GenerateTinyLLMCompletion_def Let_def clock_now_def is_cancelled_def split: prod.splits)
qed

subsection \<open>Theorems\<close>

text \<open>
  C33: Whatever the float arithmetic computes, \<open>GenerateTinyLLMCompletion\<close> reports the text of exactly as many tokens as
  it counts: the requested number, or none, and none only if the callback reported a cancellation (or none were
  requested). Every token is a word of the vocabulary and no start or end marker.
\<close>

theorem GenerateTinyLLMCompletion_in_vocabulary:
  "let generation = fst (GenerateTinyLLMCompletion F os prompt n temperature top_k io)
   in \<exists>tokens. tg_generated generation = JoinGeneratedTokens tokens \<and> tg_generated_tokens generation = int (length tokens) \<and>
      (length tokens = nat n \<or> tokens = [] \<and> (\<exists>k. os_cancelled os k)) \<and>
      list_all (\<lambda>token. 2 \<le> token \<and> token < length kTinyLLMVocabulary) tokens"
proof -
  let ?g = "fst (GenerateTinyLLMCompletion F os prompt n temperature top_k io)"
  let ?c = "completion F temperature top_k (nat n) prompt"
  have vocabulary: "length kTinyLLMVocabulary = kTinyLLMVocabSize" by (simp add: kTinyLLMVocabulary_def kTinyLLMVocabSize_def)
  from GenerateTinyLLMCompletion_spec [of F os prompt n temperature top_k io, unfolded Let_def]
  consider "tg_generated ?g = JoinGeneratedTokens ?c" "tg_generated_tokens ?g = max 0 n"
    | "tg_generated ?g = []" "tg_generated_tokens ?g = 0" "\<exists>k. os_cancelled os k" by blast
  then show ?thesis
    unfolding Let_def
  proof cases
    case 1
    then show "\<exists>tokens. tg_generated ?g = JoinGeneratedTokens tokens \<and> tg_generated_tokens ?g = int (length tokens) \<and>
      (length tokens = nat n \<or> tokens = [] \<and> (\<exists>k. os_cancelled os k)) \<and>
      list_all (\<lambda>token. 2 \<le> token \<and> token < length kTinyLLMVocabulary) tokens"
      by (intro exI [of _ ?c]) (auto simp: completion_def list_all_iff completion_tokens vocabulary)
  next
    case 2
    then show "\<exists>tokens. tg_generated ?g = JoinGeneratedTokens tokens \<and> tg_generated_tokens ?g = int (length tokens) \<and>
      (length tokens = nat n \<or> tokens = [] \<and> (\<exists>k. os_cancelled os k)) \<and>
      list_all (\<lambda>token. 2 \<le> token \<and> token < length kTinyLLMVocabulary) tokens"
      by (intro exI [of _ "[]"]) (auto simp: JoinGeneratedTokens_def)
  qed
qed

text \<open>
  \<open>GenerateTinyLLMCompletion\<close> is all or nothing. Its result reports the number of prompt tokens and either the
  whole completion with its length, or, and only if the callback reported a cancellation, no text and no tokens.
\<close>

theorem GenerateTinyLLMCompletion_all_or_nothing:
  "let generation = fst (GenerateTinyLLMCompletion F os prompt n temperature top_k io)
   in tg_prompt_tokens generation = int (length (TokenizeForTinyLLM prompt)) \<and>
      (tg_generated generation = JoinGeneratedTokens (completion F temperature top_k (nat n) prompt) \<and>
       tg_generated_tokens generation = max 0 n \<or>
       tg_generated generation = [] \<and> tg_generated_tokens generation = 0 \<and> (\<exists>k. os_cancelled os k))"
  by (rule GenerateTinyLLMCompletion_spec)

end
