(* ===== verification/Env_Config.thy ===== *)
theory Env_Config
  imports Llama_Json
begin

text \<open>
  The worker's configuration: the readers of environment variables, the names of the backends and
  \<open>BackendConfigFromEnv\<close>. The environment is a parameter \<open>env :: string \<Rightarrow> string option\<close>, the
  answer of \<open>getenv\<close>. The library path default is the one of the Linux build.
\<close>

subsection \<open>Environment readers\<close>

type_synonym environment = "string \<Rightarrow> string option"

definition EnvString :: "environment \<Rightarrow> string \<Rightarrow> string \<Rightarrow> string" where
  "EnvString env key fallback =
     (case env key of None \<Rightarrow> fallback | Some raw \<Rightarrow> if raw = '''' then fallback else raw)"

definition clamp_int :: "int \<Rightarrow> int \<Rightarrow> int \<Rightarrow> int" where
  "clamp_int v lo hi = (if v < lo then lo else if hi < v then hi else v)"

definition EnvInt :: "environment \<Rightarrow> string \<Rightarrow> int \<Rightarrow> int \<Rightarrow> int \<Rightarrow> int" where
  "EnvInt env key fallback minimum maximum =
     (case env key of
        None \<Rightarrow> fallback
      | Some raw \<Rightarrow>
          if raw = '''' then fallback
          else case strtol raw of
                 None \<Rightarrow> fallback
               | Some (value, rest) \<Rightarrow> if rest \<noteq> '''' then fallback else clamp_int value minimum maximum)"

definition EnvFloat :: "'f float_ops \<Rightarrow> environment \<Rightarrow> string \<Rightarrow> 'f \<Rightarrow> 'f \<Rightarrow> 'f \<Rightarrow> 'f" where
  "EnvFloat F env key fallback minimum maximum =
     (case env key of
        None \<Rightarrow> fallback
      | Some raw \<Rightarrow>
          if raw = '''' then fallback
          else case f_strtof F raw of
                 None \<Rightarrow> fallback
               | Some (value, rest) \<Rightarrow>
                   if rest \<noteq> '''' \<or> \<not> f_isfinite F value then fallback else f_clamp F value minimum maximum)"

definition EnvBool :: "environment \<Rightarrow> string \<Rightarrow> bool \<Rightarrow> bool" where
  "EnvBool env key fallback =
     (case env key of
        None \<Rightarrow> fallback
      | Some raw \<Rightarrow>
          if raw = '''' then fallback
          else
            let value = TrimLower raw
            in if value = ''1'' \<or> value = ''true'' \<or> value = ''yes'' \<or> value = ''on'' then True
               else if value = ''0'' \<or> value = ''false'' \<or> value = ''no'' \<or> value = ''off'' then False
               else fallback)"

subsection \<open>Backend kinds\<close>

datatype BackendKind = kSimulator | kTinyTextModel | kTinyLLM | kContinuousTinyLLM | kOnnxRuntime | kLlamaCpp | kLlamaServer

definition ParseBackendKind :: "string \<Rightarrow> BackendKind" where
  "ParseBackendKind raw =
     (let normalized = TrimLower raw
      in if normalized \<in> {''tiny_model'', ''tiny-text'', ''tiny_text'', ''tiny_text_model''} then kTinyTextModel
         else if normalized \<in> {''tiny_llm'', ''tiny-llm'', ''tiny_decoder'', ''tiny_decoder_llm''} then kTinyLLM
         else if normalized \<in> {''continuous_tiny_llm'', ''continuous-tiny-llm'', ''continuous_llm'', ''continuous-llm''}
           then kContinuousTinyLLM
         else if normalized \<in> {''llama_cpp'', ''llama-cpp'', ''llama'', ''gguf''} then kLlamaCpp
         else if normalized \<in> {''llama_server'', ''llama-server'', ''llama.cpp-server'', ''llama_server_http''} then kLlamaServer
         else if normalized \<in> {''onnx'', ''onnxruntime'', ''onnx_runtime''} then kOnnxRuntime
         else kSimulator)"

definition BackendKindName :: "BackendKind \<Rightarrow> string" where
  "BackendKindName kind = (case kind of
     kLlamaServer \<Rightarrow> ''llama_server'' | kLlamaCpp \<Rightarrow> ''llama_cpp'' | kOnnxRuntime \<Rightarrow> ''onnx''
   | kContinuousTinyLLM \<Rightarrow> ''continuous_tiny_llm'' | kTinyLLM \<Rightarrow> ''tiny_llm''
   | kTinyTextModel \<Rightarrow> ''tiny_text_model'' | kSimulator \<Rightarrow> ''simulator'')"

subsection \<open>The configuration\<close>

record 'f BackendConfig =
  bc_kind :: BackendKind
  bc_simulator_base_latency_ms :: int
  bc_simulator_per_request_latency_ms :: int
  bc_tiny_model_iterations :: int
  bc_tiny_llm_max_generated_tokens :: int
  bc_tiny_llm_top_k :: int
  bc_tiny_llm_temperature :: 'f
  bc_continuous_max_prefill_tokens_per_step :: int
  bc_continuous_max_decode_sequences_per_step :: int
  bc_continuous_kv_cache_blocks :: int
  bc_continuous_kv_block_tokens :: int
  bc_continuous_prefix_cache_tokens :: int
  bc_onnx_model_path :: string
  bc_onnx_runtime_library_path :: string
  bc_llama_cpp_binary_path :: string
  bc_llama_cpp_model_path :: string
  bc_llama_cpp_max_tokens :: int
  bc_llama_cpp_context_size :: int
  bc_llama_cpp_threads :: int
  bc_llama_cpp_temperature :: 'f
  bc_llama_cpp_timeout_ms :: int
  bc_llama_server_url :: string
  bc_llama_server_max_tokens :: int
  bc_llama_server_temperature :: 'f
  bc_llama_server_timeout_ms :: int
  bc_llama_server_cache_prompt :: bool
  bc_llama_server_stream :: bool
  bc_llama_server_timings_per_token :: bool

definition DefaultOnnxRuntimeLibraryPath :: string where
  "DefaultOnnxRuntimeLibraryPath = ''third_party/onnxruntime/lib/libonnxruntime.so''"

definition default_config :: "'f float_ops \<Rightarrow> 'f BackendConfig" where
  "default_config F =
     \<lparr>bc_kind = kSimulator, bc_simulator_base_latency_ms = 20, bc_simulator_per_request_latency_ms = 5,
      bc_tiny_model_iterations = 8, bc_tiny_llm_max_generated_tokens = 12, bc_tiny_llm_top_k = 5,
      bc_tiny_llm_temperature = f_lit F (8 / 10),
      bc_continuous_max_prefill_tokens_per_step = 32, bc_continuous_max_decode_sequences_per_step = 8,
      bc_continuous_kv_cache_blocks = 512, bc_continuous_kv_block_tokens = 16, bc_continuous_prefix_cache_tokens = 2,
      bc_onnx_model_path = ''models/logreg_iris.onnx'', bc_onnx_runtime_library_path = '''',
      bc_llama_cpp_binary_path = ''llama-cli'', bc_llama_cpp_model_path = '''',
      bc_llama_cpp_max_tokens = 64, bc_llama_cpp_context_size = 2048, bc_llama_cpp_threads = 0,
      bc_llama_cpp_temperature = f_lit F (7 / 10), bc_llama_cpp_timeout_ms = 120000,
      bc_llama_server_url = ''http://127.0.0.1:8080/completion'', bc_llama_server_max_tokens = 64,
      bc_llama_server_temperature = f_lit F (7 / 10), bc_llama_server_timeout_ms = 120000,
      bc_llama_server_cache_prompt = True, bc_llama_server_stream = True, bc_llama_server_timings_per_token = True\<rparr>"

definition BackendConfigFromEnv :: "'f float_ops \<Rightarrow> environment \<Rightarrow> 'f BackendConfig" where
  "BackendConfigFromEnv F env =
     (let d = default_config F
      in \<lparr>bc_kind = (case env ''LAMINAR_WORKER_BACKEND'' of None \<Rightarrow> bc_kind d | Some backend \<Rightarrow> ParseBackendKind backend),
          bc_simulator_base_latency_ms =
            EnvInt env ''LAMINAR_SIMULATOR_BASE_LATENCY_MS'' (bc_simulator_base_latency_ms d) 0 60000,
          bc_simulator_per_request_latency_ms =
            EnvInt env ''LAMINAR_SIMULATOR_PER_REQUEST_LATENCY_MS'' (bc_simulator_per_request_latency_ms d) 0 60000,
          bc_tiny_model_iterations = EnvInt env ''LAMINAR_TINY_MODEL_ITERATIONS'' (bc_tiny_model_iterations d) 1 1024,
          bc_tiny_llm_max_generated_tokens =
            EnvInt env ''LAMINAR_TINY_LLM_MAX_GENERATED_TOKENS'' (bc_tiny_llm_max_generated_tokens d) 1 64,
          bc_tiny_llm_top_k = EnvInt env ''LAMINAR_TINY_LLM_TOP_K'' (bc_tiny_llm_top_k d) 1 (int kTinyLLMVocabSize - 2),
          bc_tiny_llm_temperature =
            EnvFloat F env ''LAMINAR_TINY_LLM_TEMPERATURE'' (bc_tiny_llm_temperature d) (f_lit F (5 / 100)) (f_lit F 2),
          bc_continuous_max_prefill_tokens_per_step =
            EnvInt env ''LAMINAR_CONTINUOUS_MAX_PREFILL_TOKENS_PER_STEP'' (bc_continuous_max_prefill_tokens_per_step d) 1 (2 ^ 20),
          bc_continuous_max_decode_sequences_per_step =
            EnvInt env ''LAMINAR_CONTINUOUS_MAX_DECODE_SEQUENCES_PER_STEP'' (bc_continuous_max_decode_sequences_per_step d) 1 (2 ^ 20),
          bc_continuous_kv_cache_blocks =
            EnvInt env ''LAMINAR_CONTINUOUS_KV_CACHE_BLOCKS'' (bc_continuous_kv_cache_blocks d) 1 (2 ^ 20),
          bc_continuous_kv_block_tokens =
            EnvInt env ''LAMINAR_CONTINUOUS_KV_BLOCK_TOKENS'' (bc_continuous_kv_block_tokens d) 1 (2 ^ 20),
          bc_continuous_prefix_cache_tokens =
            EnvInt env ''LAMINAR_CONTINUOUS_PREFIX_CACHE_TOKENS'' (bc_continuous_prefix_cache_tokens d) 0 1024,
          bc_onnx_model_path = EnvString env ''LAMINAR_ONNX_MODEL_PATH'' (bc_onnx_model_path d),
          bc_onnx_runtime_library_path = EnvString env ''LAMINAR_ONNX_RUNTIME_LIB'' DefaultOnnxRuntimeLibraryPath,
          bc_llama_cpp_binary_path = EnvString env ''LAMINAR_LLAMA_CPP_BINARY'' (bc_llama_cpp_binary_path d),
          bc_llama_cpp_model_path = EnvString env ''LAMINAR_LLAMA_CPP_MODEL'' (bc_llama_cpp_model_path d),
          bc_llama_cpp_max_tokens = EnvInt env ''LAMINAR_LLAMA_CPP_MAX_TOKENS'' (bc_llama_cpp_max_tokens d) 1 4096,
          bc_llama_cpp_context_size = EnvInt env ''LAMINAR_LLAMA_CPP_CONTEXT_SIZE'' (bc_llama_cpp_context_size d) 128 262144,
          bc_llama_cpp_threads = EnvInt env ''LAMINAR_LLAMA_CPP_THREADS'' (bc_llama_cpp_threads d) 0 1024,
          bc_llama_cpp_temperature =
            EnvFloat F env ''LAMINAR_LLAMA_CPP_TEMPERATURE'' (bc_llama_cpp_temperature d) (f_lit F 0) (f_lit F 2),
          bc_llama_cpp_timeout_ms =
            EnvInt env ''LAMINAR_LLAMA_CPP_TIMEOUT_MS'' (bc_llama_cpp_timeout_ms d) 100 (10 * 60 * 1000),
          bc_llama_server_url = EnvString env ''LAMINAR_LLAMA_SERVER_URL'' (bc_llama_server_url d),
          bc_llama_server_max_tokens =
            EnvInt env ''LAMINAR_LLAMA_SERVER_MAX_TOKENS'' (bc_llama_server_max_tokens d) 1 4096,
          bc_llama_server_temperature =
            EnvFloat F env ''LAMINAR_LLAMA_SERVER_TEMPERATURE'' (bc_llama_server_temperature d) (f_lit F 0) (f_lit F 2),
          bc_llama_server_timeout_ms =
            EnvInt env ''LAMINAR_LLAMA_SERVER_TIMEOUT_MS'' (bc_llama_server_timeout_ms d) 100 (10 * 60 * 1000),
          bc_llama_server_cache_prompt =
            EnvBool env ''LAMINAR_LLAMA_SERVER_CACHE_PROMPT'' (bc_llama_server_cache_prompt d),
          bc_llama_server_stream = EnvBool env ''LAMINAR_LLAMA_SERVER_STREAM'' (bc_llama_server_stream d),
          bc_llama_server_timings_per_token =
            EnvBool env ''LAMINAR_LLAMA_SERVER_TIMINGS_PER_TOKEN'' (bc_llama_server_timings_per_token d)\<rparr>)"

subsection \<open>Names and numbers round trip\<close>

text \<open>
  Every backend is selected by its own name, in any mixture of surrounding white space: the
  name \<open>BackendKindName\<close> prints is parsed back to the same kind.
\<close>

theorem BackendKind_roundtrip:
  "ParseBackendKind (BackendKindName kind) = kind \<and>
   ParseBackendKind (CHR '' '' # BackendKindName kind @ [CHR 0x0A]) = kind"
  by (induction kind; code_simp)

lemma takeWhile_show: "takeWhile isdigit (show_nat n) = show_nat n" "dropWhile isdigit (show_nat n) = []"
  using show_nat_digits by (auto simp: takeWhile_eq_all_conv dropWhile_eq_Nil_conv)

lemma hd_show_nat: "isdigit (hd (show_nat n))"
  using show_nat_digits [of "hd (show_nat n)" n] by simp

lemma isdigit_not: "isdigit c \<Longrightarrow> \<not> isspace c \<and> c \<noteq> CHR ''-'' \<and> c \<noteq> CHR ''+''"
  by (auto simp: isdigit_def isspace_def code_def)

lemma strtol_to_string:
  assumes "- (2 ^ 63) \<le> v" and "v < 2 ^ 63"
  shows "strtol (to_string v) = Some (v, '''')"
proof (cases "v < 0")
  case True
  have "\<not> isspace CHR ''-''" by (simp add: isspace_def code_def)
  with True assms show ?thesis
    by (simp add: strtol_def to_string_def takeWhile_show digits_value_show)
next
  case False
  have "dropWhile isspace (show_nat n) = show_nat n" for n
    using hd_show_nat [of n] isdigit_not by (cases "show_nat n") auto
  with False assms hd_show_nat [of "nat v"] isdigit_not [of "hd (show_nat (nat v))"] show ?thesis
    by (simp add: strtol_def to_string_def takeWhile_show digits_value_show)
qed

text \<open>
  An integer setting printed in decimal is read back exactly and clamped to its range, for
  every 64-bit value.
\<close>

theorem EnvInt_reads:
  assumes "env key = Some (to_string v)" and "- (2 ^ 63) \<le> v" and "v < 2 ^ 63" and "lo \<le> hi"
  shows "EnvInt env key fallback lo hi = max lo (min hi v)"
proof -
  have "to_string v \<noteq> ''''" by (simp add: to_string_def)
  with assms strtol_to_string [OF assms(2,3)] show ?thesis by (auto simp: EnvInt_def clamp_int_def)
qed

theorem EnvInt_reads_witness: "EnvInt [''K'' \<mapsto> ''99''] ''K'' 12 1 64 = 64"
proof -
  have "to_string 99 = ''99''" by code_simp
  then show ?thesis using EnvInt_reads [of "[''K'' \<mapsto> ''99'']" "''K''" 99 1 64 12] by simp
qed

subsection \<open>Every configuration is in range\<close>

definition config_in_range :: "'f BackendConfig \<Rightarrow> bool" where
  "config_in_range c \<longleftrightarrow>
     0 \<le> bc_simulator_base_latency_ms c \<and> bc_simulator_base_latency_ms c \<le> 60000 \<and>
     0 \<le> bc_simulator_per_request_latency_ms c \<and> bc_simulator_per_request_latency_ms c \<le> 60000 \<and>
     1 \<le> bc_tiny_model_iterations c \<and> bc_tiny_model_iterations c \<le> 1024 \<and>
     1 \<le> bc_tiny_llm_max_generated_tokens c \<and> bc_tiny_llm_max_generated_tokens c \<le> 64 \<and>
     1 \<le> bc_tiny_llm_top_k c \<and> bc_tiny_llm_top_k c \<le> 62 \<and>
     1 \<le> bc_continuous_max_prefill_tokens_per_step c \<and> bc_continuous_max_prefill_tokens_per_step c \<le> 2 ^ 20 \<and>
     1 \<le> bc_continuous_max_decode_sequences_per_step c \<and> bc_continuous_max_decode_sequences_per_step c \<le> 2 ^ 20 \<and>
     1 \<le> bc_continuous_kv_cache_blocks c \<and> bc_continuous_kv_cache_blocks c \<le> 2 ^ 20 \<and>
     1 \<le> bc_continuous_kv_block_tokens c \<and> bc_continuous_kv_block_tokens c \<le> 2 ^ 20 \<and>
     0 \<le> bc_continuous_prefix_cache_tokens c \<and> bc_continuous_prefix_cache_tokens c \<le> 1024 \<and>
     1 \<le> bc_llama_cpp_max_tokens c \<and> bc_llama_cpp_max_tokens c \<le> 4096 \<and>
     128 \<le> bc_llama_cpp_context_size c \<and> bc_llama_cpp_context_size c \<le> 262144 \<and>
     0 \<le> bc_llama_cpp_threads c \<and> bc_llama_cpp_threads c \<le> 1024 \<and>
     100 \<le> bc_llama_cpp_timeout_ms c \<and> bc_llama_cpp_timeout_ms c \<le> 600000 \<and>
     1 \<le> bc_llama_server_max_tokens c \<and> bc_llama_server_max_tokens c \<le> 4096 \<and>
     100 \<le> bc_llama_server_timeout_ms c \<and> bc_llama_server_timeout_ms c \<le> 600000 \<and>
     bc_onnx_runtime_library_path c \<noteq> ''''"

lemma EnvInt_range: "lo \<le> fallback \<Longrightarrow> fallback \<le> hi \<Longrightarrow> lo \<le> EnvInt env key fallback lo hi \<and> EnvInt env key fallback lo hi \<le> hi"
  by (auto simp: EnvInt_def clamp_int_def split: option.splits)

lemma EnvString_nonempty: "fallback \<noteq> '''' \<Longrightarrow> EnvString env key fallback \<noteq> ''''"
  by (simp add: EnvString_def split: option.splits)

lemma BackendConfigFromEnv_range: "config_in_range (BackendConfigFromEnv F env)"
  unfolding config_in_range_def BackendConfigFromEnv_def Let_def
  by (simp add: default_config_def kTinyLLMVocabSize_def EnvInt_range EnvString_nonempty DefaultOnnxRuntimeLibraryPath_def)

text \<open>
  Whatever the environment says, every integer of the configuration is within the range the
  backends expect, and the path of the runtime library is not empty.
\<close>

theorem BackendConfigFromEnv_in_range: "config_in_range (BackendConfigFromEnv F env)"
  by (rule BackendConfigFromEnv_range)

end
