(* ===== verification/Local_Backends.thy ===== *)
theory Local_Backends
  imports Backend_Api Tiny_Model Env_Config Batcher_Theorems
begin

text \<open>
  The backends that run in the worker itself: the simulator, the tiny text classifier, the tiny decoder, and the tiny
  decoder scheduled by the continuous batcher. Each has its constructor, which clamps its parameters, and its
  \<open>ProcessBatch\<close>.
\<close>

subsection \<open>Simulator\<close>

record SimulatorBackend =
  sb_base_latency_ms :: int
  sb_per_request_latency_ms :: int

definition make_SimulatorBackend :: "int \<Rightarrow> int \<Rightarrow> SimulatorBackend" where
  "make_SimulatorBackend base_latency_ms per_request_latency_ms =
     \<lparr>sb_base_latency_ms = max base_latency_ms 0, sb_per_request_latency_ms = max per_request_latency_ms 0\<rparr>"

text \<open>The sleeping loop: \<open>True\<close> is a return because of cancellation.\<close>

function simulate_latency :: "'a os_scheme \<Rightarrow> int \<Rightarrow> io \<Rightarrow> bool \<times> io" where
  "simulate_latency os remaining_latency_ms io =
     (if remaining_latency_ms \<le> 0 then (False, io)
      else
        let (cancelled, io1) = is_cancelled os io
        in if cancelled then (True, io1)
           else
             let step_ms = min remaining_latency_ms 5
             in simulate_latency os (remaining_latency_ms - step_ms) (sleep_ms step_ms io1))"
  by pat_completeness auto
termination by (relation "measure (\<lambda>(os, remaining, io). nat remaining)") (auto simp: min_def)

declare simulate_latency.simps [simp del]

definition simulator_latency :: "SimulatorBackend \<Rightarrow> nat \<Rightarrow> int" where
  "simulator_latency b n = sb_base_latency_ms b + int n * sb_per_request_latency_ms b"

definition Simulator_ProcessBatch ::
  "'a os_scheme \<Rightarrow> SimulatorBackend \<Rightarrow> BackendRequest list \<Rightarrow> io \<Rightarrow> (BackendResult \<times> io) option" where
  "Simulator_ProcessBatch os b requests io0 =
     (let batch_size = int (length requests);
          total_latency_ms = simulator_latency b (length requests);
          (stopped, io1) = simulate_latency os total_latency_ms io0
      in if stopped then Some (CancelledResult, io1)
         else
           let (cancelled, io2) = is_cancelled os io1
           in if cancelled then Some (CancelledResult, io2)
              else Some (empty_result\<lparr>br_outputs := map (\<lambda>request.
                ''Processed: '' @ [CHR 0x27] @ bq_prompt request @ [CHR 0x27] @ '' (backend=simulator, batch_size='' @
                to_string batch_size @ '', latency='' @ to_string total_latency_ms @ ''ms)'') requests\<rparr>, io2))"

subsection \<open>Tiny text model\<close>

definition make_TinyTextModelBackend :: "int \<Rightarrow> int" where
  "make_TinyTextModelBackend iterations = clamp_int iterations 1 1024"

text \<open>The recurrent layers from \<open>layer\<close> on, \<open>left\<close> of them; \<^term>\<open>None\<close> is a cancellation.\<close>

fun recurrent_layers :: "'f float_ops \<Rightarrow> 'a os_scheme \<Rightarrow> nat \<Rightarrow> nat \<Rightarrow> 'f list \<Rightarrow> io \<Rightarrow> 'f list option \<times> io" where
  "recurrent_layers F os layer 0 hidden io = (Some hidden, io)"
| "recurrent_layers F os layer (Suc left) hidden io =
     (let (cancelled, io1) = is_cancelled os io
      in if cancelled then (None, io1)
         else recurrent_layers F os (Suc layer) left (recurrent_layer F layer hidden) io1)"

definition classify :: "'f float_ops \<Rightarrow> 'f list \<Rightarrow> nat \<times> 'f" where
  "classify F hidden =
     (let probabilities = Softmax F (output_layer F hidden); label_index = max_element F probabilities
      in (label_index, probabilities ! label_index))"

definition TinyText_request ::
  "'f float_ops \<Rightarrow> 'a os_scheme \<Rightarrow> int \<Rightarrow> nat \<Rightarrow> BackendRequest \<Rightarrow> io \<Rightarrow> ((BackendResult + string) \<times> io) option" where
  "TinyText_request F os iterations batch_size request io0 =
     (let (cancelled, io1) = is_cancelled os io0
      in if cancelled then Some (Inl CancelledResult, io1)
         else
           let hidden = input_layer F (Featurize F (bq_prompt request));
               (layers, io2) = recurrent_layers F os 0 (nat iterations) hidden io1
           in case layers of
                None \<Rightarrow> Some (Inl CancelledResult, io2)
              | Some hidden1 \<Rightarrow>
                  let (label_index, best) = classify F hidden1
                  in Some (Inr (FormatTinyModelOutput F (kLabels ! label_index) best (int batch_size) iterations), io2))"

definition TinyText_ProcessBatch ::
  "'f float_ops \<Rightarrow> 'a os_scheme \<Rightarrow> int \<Rightarrow> BackendRequest list \<Rightarrow> io \<Rightarrow> (BackendResult \<times> io) option" where
  "TinyText_ProcessBatch F os iterations requests io0 =
     (let (cancelled, io1) = is_cancelled os io0
      in if cancelled then Some (CancelledResult, io1)
         else map_option (map_prod batch_result id)
           (each_request (TinyText_request F os iterations (length requests)) requests [] io1))"

subsection \<open>Tiny decoder\<close>

record 'f TinyLLMBackend =
  tl_max_generated_tokens :: int
  tl_temperature :: 'f
  tl_top_k :: int

definition make_TinyLLMBackend :: "'f float_ops \<Rightarrow> int \<Rightarrow> 'f \<Rightarrow> int \<Rightarrow> 'f TinyLLMBackend" where
  "make_TinyLLMBackend F max_generated_tokens temperature top_k =
     \<lparr>tl_max_generated_tokens = clamp_int max_generated_tokens 1 64,
      tl_temperature = f_clamp F temperature (f_lit F (5 / 100)) (f_lit F 2),
      tl_top_k = clamp_int top_k 1 (int kTinyLLMVocabSize - 2)\<rparr>"

definition FormatTinyLLMOutput ::
  "'f float_ops \<Rightarrow> string \<Rightarrow> int \<Rightarrow> int \<Rightarrow> int \<Rightarrow> int \<Rightarrow> int \<Rightarrow> int \<Rightarrow> int \<Rightarrow> 'f \<Rightarrow> string" where
  "FormatTinyLLMOutput F generated prompt_tokens generated_tokens prefill_micros decode_micros batch_size
     max_generated_tokens top_k temperature =
     ''TinyLLM(backend=tiny_llm, generated='' @ [CHR 0x27] @ generated @ [CHR 0x27] @
     '', prompt_tokens='' @ to_string prompt_tokens @ '', generated_tokens='' @ to_string generated_tokens @
     '', prefill_micros='' @ to_string prefill_micros @ '', decode_micros='' @ to_string decode_micros @
     '', batch_size='' @ to_string batch_size @ '', max_generated_tokens='' @ to_string max_generated_tokens @
     '', top_k='' @ to_string top_k @ '', temperature='' @ f_fixed F 3 temperature @ '')''"

definition TinyLLM_request ::
  "'f float_ops \<Rightarrow> 'a os_scheme \<Rightarrow> 'f TinyLLMBackend \<Rightarrow> nat \<Rightarrow> BackendRequest \<Rightarrow> io \<Rightarrow> ((BackendResult + string) \<times> io) option" where
  "TinyLLM_request F os b batch_size request io0 =
     (let (cancelled, io1) = is_cancelled os io0
      in if cancelled then Some (Inl CancelledResult, io1)
         else
           let token_ids = TokenizeForTinyLLM (bq_prompt request);
               (prefill_start, io2) = clock_now os io1;
               (states, io3) = TinyLLMPrefill F os token_ids io2;
               (prefill_end, io4) = clock_now os io3;
               (cancelled1, io5) = is_cancelled os io4
           in if cancelled1 \<or> states = [] then Some (Inl CancelledResult, io5)
              else
                let (decode_start, io6) = clock_now os io5;
                    (decoded, io7) = decode_loop F os (tl_temperature b) (tl_top_k b) (HashToken (bq_prompt request)) 0
                      (nat (tl_max_generated_tokens b)) [] token_ids states io6
                in case decoded of
                     None \<Rightarrow> Some (Inl CancelledResult, io7)
                   | Some (generated_ids, token_ids1, _) \<Rightarrow>
                       let (decode_end, io8) = clock_now os io7
                       in Some (Inr (FormatTinyLLMOutput F (JoinGeneratedTokens generated_ids)
                            (int (length token_ids1 - length generated_ids)) (int (length generated_ids))
                            (micros (prefill_end - prefill_start)) (micros (decode_end - decode_start)) (int batch_size)
                            (tl_max_generated_tokens b) (tl_top_k b) (tl_temperature b)), io8))"

definition TinyLLM_ProcessBatch ::
  "'f float_ops \<Rightarrow> 'a os_scheme \<Rightarrow> 'f TinyLLMBackend \<Rightarrow> BackendRequest list \<Rightarrow> io \<Rightarrow> (BackendResult \<times> io) option" where
  "TinyLLM_ProcessBatch F os b requests io0 =
     (let (cancelled, io1) = is_cancelled os io0
      in if cancelled then Some (CancelledResult, io1)
         else map_option (map_prod batch_result id)
           (each_request (TinyLLM_request F os b (length requests)) requests [] io1))"

subsection \<open>Continuous tiny decoder\<close>

record 'f ContinuousTinyLLMBackend =
  ct_max_generated_tokens :: int
  ct_temperature :: 'f
  ct_top_k :: int
  ct_max_prefill_tokens_per_step :: int
  ct_max_decode_sequences_per_step :: int
  ct_kv_cache_blocks :: int
  ct_kv_block_tokens :: int
  ct_prefix_cache_tokens :: int

definition make_ContinuousTinyLLMBackend ::
  "'f float_ops \<Rightarrow> int \<Rightarrow> 'f \<Rightarrow> int \<Rightarrow> int \<Rightarrow> int \<Rightarrow> int \<Rightarrow> int \<Rightarrow> int \<Rightarrow> 'f ContinuousTinyLLMBackend" where
  "make_ContinuousTinyLLMBackend F max_generated_tokens temperature top_k max_prefill_tokens_per_step
     max_decode_sequences_per_step kv_cache_blocks kv_block_tokens prefix_cache_tokens =
     \<lparr>ct_max_generated_tokens = clamp_int max_generated_tokens 1 64,
      ct_temperature = f_clamp F temperature (f_lit F (5 / 100)) (f_lit F 2),
      ct_top_k = clamp_int top_k 1 (int kTinyLLMVocabSize - 2),
      ct_max_prefill_tokens_per_step = clamp_int max_prefill_tokens_per_step 1 (2 ^ 20),
      ct_max_decode_sequences_per_step = clamp_int max_decode_sequences_per_step 1 (2 ^ 20),
      ct_kv_cache_blocks = clamp_int kv_cache_blocks 1 (2 ^ 20),
      ct_kv_block_tokens = clamp_int kv_block_tokens 1 (2 ^ 20),
      ct_prefix_cache_tokens = clamp_int prefix_cache_tokens 0 1024\<rparr>"

definition FormatContinuousTinyLLMOutput ::
  "'f float_ops \<Rightarrow> string \<Rightarrow> int \<Rightarrow> int \<Rightarrow> int \<Rightarrow> int \<Rightarrow> int \<Rightarrow> int \<Rightarrow> int \<Rightarrow> 'f \<Rightarrow> int \<Rightarrow> int \<Rightarrow> string" where
  "FormatContinuousTinyLLMOutput F generated prompt_tokens generated_tokens prefill_micros decode_micros batch_size
     max_generated_tokens top_k temperature first_token_step completion_step =
     ''ContinuousTinyLLM(backend=continuous_tiny_llm, generated='' @ [CHR 0x27] @ generated @ [CHR 0x27] @
     '', prompt_tokens='' @ to_string prompt_tokens @ '', generated_tokens='' @ to_string generated_tokens @
     '', prefill_micros='' @ to_string prefill_micros @ '', decode_micros='' @ to_string decode_micros @
     '', batch_size='' @ to_string batch_size @ '', max_generated_tokens='' @ to_string max_generated_tokens @
     '', top_k='' @ to_string top_k @ '', temperature='' @ f_fixed F 3 temperature @
     '', first_token_step='' @ to_string first_token_step @ '', completion_step='' @ to_string completion_step @ '')''"

definition BuildContinuousTinyLLMMetadata :: "'f float_ops \<Rightarrow> ContinuousBatchingRun \<Rightarrow> SequenceResult \<Rightarrow> metadata" where
  "BuildContinuousTinyLLMMetadata F run sequence =
     (let stats = run_stats run; kv = bs_kv_cache stats
      in make_map
        [(''sequence.status'', SequenceStatusName (rs_status sequence)),
         (''sequence.generated_tokens'', to_string (rs_generated_tokens sequence)),
         (''sequence.first_token_step'', to_string (rs_first_token_step sequence)),
         (''sequence.completion_step'', to_string (rs_completion_step sequence)),
         (''sequence.kv_blocks'', to_string (rs_kv_blocks sequence)),
         (''sequence.prefix_cache_hit'', if rs_prefix_cache_hit sequence then ''true'' else ''false''),
         (''scheduler.total_steps'', to_string (bs_total_steps stats)),
         (''scheduler.prefill_steps'', to_string (bs_prefill_steps stats)),
         (''scheduler.decode_steps'', to_string (bs_decode_steps stats)),
         (''scheduler.total_prompt_tokens'', to_string (bs_total_prompt_tokens stats)),
         (''scheduler.total_generated_tokens'', to_string (bs_total_generated_tokens stats)),
         (''scheduler.average_decode_batch_size'', FixedDouble F (bs_average_decode_batch_size stats) 2),
         (''kv_cache.total_blocks'', to_string (st_total_blocks kv)),
         (''kv_cache.used_blocks'', to_string (st_used_blocks kv)),
         (''kv_cache.high_watermark_blocks'', to_string (st_high_watermark_blocks kv)),
         (''kv_cache.cached_prefixes'', to_string (st_cached_prefixes kv)),
         (''kv_cache.prefix_cache_hits'', to_string (st_prefix_cache_hits kv)),
         (''kv_cache.prefix_cache_misses'', to_string (st_prefix_cache_misses kv)),
         (''kv_cache.evictions'', to_string (st_evictions kv)),
         (''kv_cache.allocation_failures'', to_string (st_allocation_failures kv))])"

definition scheduler_config :: "'f ContinuousTinyLLMBackend \<Rightarrow> ContinuousBatcherConfig" where
  "scheduler_config b =
     \<lparr>cb_max_prefill_tokens_per_step = ct_max_prefill_tokens_per_step b,
      cb_max_decode_sequences_per_step = ct_max_decode_sequences_per_step b,
      cb_kv_cache_blocks = ct_kv_cache_blocks b, cb_kv_block_tokens = ct_kv_block_tokens b\<rparr>"

definition sequence_request :: "'f ContinuousTinyLLMBackend \<Rightarrow> BackendRequest \<Rightarrow> SequenceRequest" where
  "sequence_request b request =
     (let token_ids = TokenizeForTinyLLM (bq_prompt request);
          key = PrefixCacheKey token_ids (ct_prefix_cache_tokens b)
      in \<lparr>rq_id = bq_id request, rq_prompt_tokens = int (length token_ids),
          rq_max_generated_tokens = ct_max_generated_tokens b, rq_priority = 0, rq_prefix_cache_key = key,
          rq_prefix_cache_tokens = (if key = '''' then -1 else ct_prefix_cache_tokens b)\<rparr>)"

text \<open>
  The loop that generates the outputs after the schedule is known. A rejected sequence ends it with the outputs
  produced so far still in the result.
\<close>

fun continuous_outputs ::
  "'f float_ops \<Rightarrow> 'a os_scheme \<Rightarrow> 'f ContinuousTinyLLMBackend \<Rightarrow> nat \<Rightarrow> ContinuousBatchingRun \<Rightarrow>
     (BackendRequest \<times> SequenceResult) list \<Rightarrow> BackendResult \<Rightarrow> io \<Rightarrow> BackendResult \<times> io" where
  "continuous_outputs F os b batch_size run [] result io = (result, io)"
| "continuous_outputs F os b batch_size run ((request, sequence) # rest) result io =
     (if rs_status sequence = kRejected
      then (result\<lparr>br_code := kUnavailable, br_message := rs_message sequence\<rparr>, io)
      else
        let (generation, io1) = GenerateTinyLLMCompletion F os (bq_prompt request) (ct_max_generated_tokens b)
              (ct_temperature b) (ct_top_k b) io;
            (cancelled, io2) = is_cancelled os io1
        in if cancelled \<or> tg_generated_tokens generation \<noteq> ct_max_generated_tokens b then (CancelledResult, io2)
           else continuous_outputs F os b batch_size run rest
             (result\<lparr>br_outputs := br_outputs result @ [FormatContinuousTinyLLMOutput F (tg_generated generation)
                 (tg_prompt_tokens generation) (tg_generated_tokens generation) (tg_prefill_micros generation)
                 (tg_decode_micros generation) (int batch_size) (ct_max_generated_tokens b) (ct_top_k b) (ct_temperature b)
                 (rs_first_token_step sequence) (rs_completion_step sequence)],
               br_output_metadata := br_output_metadata result @ [BuildContinuousTinyLLMMetadata F run sequence]\<rparr>) io2)"

definition Continuous_ProcessBatch ::
  "'f float_ops \<Rightarrow> 'a os_scheme \<Rightarrow> 'f ContinuousTinyLLMBackend \<Rightarrow> BackendRequest list \<Rightarrow> io \<Rightarrow> (BackendResult \<times> io) option" where
  "Continuous_ProcessBatch F os b requests io0 =
     (let (cancelled, io1) = is_cancelled os io0
      in if cancelled then Some (CancelledResult, io1)
         else case Run (scheduler_config b) (map (sequence_request b) requests) (os_cancelled os) (io_polls io1) of
           None \<Rightarrow> None
         | Some (run, polls) \<Rightarrow>
             let io2 = io1\<lparr>io_polls := polls\<rparr>
             in if list_ex (\<lambda>sequence. rs_status sequence = SequenceStatus.kCancelled) (run_results run)
                then Some (CancelledResult, io2)
                else Some (continuous_outputs F os b (length requests) run (zip requests (run_results run)) empty_result io2))"

subsection \<open>The contract\<close>

lemma simulate_latency_spec:
  "simulate_latency os remaining io = (stopped, io') \<Longrightarrow>
     if stopped then \<exists>k. os_cancelled os k else io_slept_ms io' = io_slept_ms io + max 0 remaining"
proof (induction os remaining io arbitrary: stopped io' rule: simulate_latency.induct)
  case (1 os remaining io)
  show ?case
  proof (cases "remaining \<le> 0 \<or> os_cancelled os (io_polls io)")
    case True
    with "1.prems" show ?thesis by (auto simp: simulate_latency.simps [of os remaining] is_cancelled_def split: if_splits)
  next
    case False
    let ?io1 = "sleep_ms (min remaining 5) (io\<lparr>io_polls := Suc (io_polls io)\<rparr>)"
    have "simulate_latency os (remaining - min remaining 5) ?io1 = (stopped, io')"
      using "1.prems" False by (simp add: simulate_latency.simps [of os remaining] is_cancelled_def Let_def)
    with False "1.IH" [of "(False, io\<lparr>io_polls := Suc (io_polls io)\<rparr>)" False "io\<lparr>io_polls := Suc (io_polls io)\<rparr>" "min remaining 5" stopped io']
    show ?thesis by (auto simp: is_cancelled_def sleep_ms_def split: if_splits)
  qed
qed

interpretation simulator: inference_backend "Simulator_ProcessBatch os b" for os b
  by unfold_locales
    (auto simp: Simulator_ProcessBatch_def Let_def result_ok_def empty_result_def split: prod.splits if_splits)

lemma TinyText_request_early:
  "TinyText_request F os iterations n request io = Some (Inl early, io') \<Longrightarrow> early = CancelledResult"
  by (auto simp: TinyText_request_def Let_def split: prod.splits if_splits option.splits)

interpretation tiny_text: inference_backend "TinyText_ProcessBatch F os iterations" for F os iterations
proof unfold_locales
  fix requests io result io'
  assume "TinyText_ProcessBatch F os iterations requests io = Some (result, io')"
  then show "result_ok requests result"
    using batch_result_ok [where body = "TinyText_request F os iterations (length requests)" and requests = requests]
    by (fastforce simp: TinyText_ProcessBatch_def Let_def dest: TinyText_request_early split: prod.splits if_splits)
qed

lemma TinyLLM_request_early:
  "TinyLLM_request F os b n request io = Some (Inl early, io') \<Longrightarrow> early = CancelledResult"
  by (auto simp: TinyLLM_request_def Let_def split: prod.splits if_splits option.splits)

interpretation tiny_llm: inference_backend "TinyLLM_ProcessBatch F os b" for F os b
proof unfold_locales
  fix requests io result io'
  assume "TinyLLM_ProcessBatch F os b requests io = Some (result, io')"
  then show "result_ok requests result"
    using batch_result_ok [where body = "TinyLLM_request F os b (length requests)" and requests = requests]
    by (fastforce simp: TinyLLM_ProcessBatch_def Let_def dest: TinyLLM_request_early split: prod.splits if_splits)
qed

text \<open>
  What a successful continuous output says: the whole completion of the prompt, generated with the backend's
  parameters, and the steps the scheduler reported.
\<close>

definition continuous_output :: "'f float_ops \<Rightarrow> 'f ContinuousTinyLLMBackend \<Rightarrow> nat \<Rightarrow> BackendRequest \<times> SequenceResult \<Rightarrow> string \<Rightarrow> bool" where
  "continuous_output F b n = (\<lambda>(request, sequence) out. \<exists>prefill_micros decode_micros.
     out = FormatContinuousTinyLLMOutput F
       (JoinGeneratedTokens (completion F (ct_temperature b) (ct_top_k b) (nat (ct_max_generated_tokens b)) (bq_prompt request)))
       (int (length (TokenizeForTinyLLM (bq_prompt request)))) (ct_max_generated_tokens b) prefill_micros decode_micros (int n)
       (ct_max_generated_tokens b) (ct_top_k b) (ct_temperature b) (rs_first_token_step sequence) (rs_completion_step sequence))"

lemma continuous_outputs_ok:
  assumes "continuous_outputs F os b n run pairs result io = (result', io')"
    and "br_code result = kOk" and "br_message result = ''''" and "0 < ct_max_generated_tokens b"
  shows "case br_code result' of
      kOk \<Rightarrow> br_message result' = '''' \<and> (\<exists>new. br_outputs result' = br_outputs result @ new \<and> list_all2 (continuous_output F b n) pairs new) \<and>
        br_output_metadata result' = br_output_metadata result @ map (\<lambda>(request, sequence). BuildContinuousTinyLLMMetadata F run sequence) pairs \<and>
        list_all (\<lambda>(request, sequence). rs_status sequence \<noteq> kRejected) pairs
    | BackendStatusCode.kCancelled \<Rightarrow> result' = CancelledResult \<and> (\<exists>k. os_cancelled os k)
    | kInvalidArgument \<Rightarrow> False
    | kUnavailable \<Rightarrow> \<exists>(request, sequence) \<in> set pairs. rs_status sequence = kRejected \<and> br_message result' = rs_message sequence"
  using assms(1-3)
proof (induction pairs arbitrary: result io)
  case (Cons pair pairs)
  obtain request sequence where p: "pair = (request, sequence)" by fastforce
  obtain generation io1 where g: "GenerateTinyLLMCompletion F os (bq_prompt request) (ct_max_generated_tokens b)
      (ct_temperature b) (ct_top_k b) io = (generation, io1)" by fastforce
  note spec = GenerateTinyLLMCompletion_spec [of F os "bq_prompt request" "ct_max_generated_tokens b" "ct_temperature b" "ct_top_k b" io,
      unfolded g Let_def fst_conv]
  show ?case
  proof (cases "rs_status sequence = kRejected \<or> os_cancelled os (io_polls io1) \<or> tg_generated_tokens generation \<noteq> ct_max_generated_tokens b")
    case True
    with Cons.prems g spec assms(4) show ?thesis by (auto simp: p is_cancelled_def split: if_splits)
  next
    case False
    let ?out = "FormatContinuousTinyLLMOutput F (tg_generated generation) (tg_prompt_tokens generation) (tg_generated_tokens generation)
      (tg_prefill_micros generation) (tg_decode_micros generation) (int n) (ct_max_generated_tokens b) (ct_top_k b) (ct_temperature b)
      (rs_first_token_step sequence) (rs_completion_step sequence)"
    have out: "continuous_output F b n pair ?out" using False spec assms(4) by (auto simp: continuous_output_def p)
    have rest: "continuous_outputs F os b n run pairs (result\<lparr>br_outputs := br_outputs result @ [?out],
        br_output_metadata := br_output_metadata result @ [BuildContinuousTinyLLMMetadata F run sequence]\<rparr>)
        (io1\<lparr>io_polls := Suc (io_polls io1)\<rparr>) = (result', io')"
      using False Cons.prems(1) g by (simp add: p is_cancelled_def)
    show ?thesis
      using Cons.IH [OF rest] Cons.prems(2,3) out False
      by (auto simp: p list_all2_Cons1 split: BackendStatusCode.splits)
  qed
qed simp

lemma Run_result_count:
  assumes "Run config requests cancel polls = Some (run, polls')"
  shows "list_all2 (result_for (cb_kv_block_tokens (ContinuousBatcher config)) (length (run_steps run))) requests (run_results run)"
    and "length (run_results run) = length requests"
proof -
  obtain rn where rn: "Run config requests cancel polls = Some (run_finish requests rn, rn_polls rn)"
    "run_ok (ContinuousBatcher config) (map clamp_request requests)
       (work (run_init (ContinuousBatcher config) requests polls)) rn"
    "\<forall>i < length requests. sd_done (rn_states rn ! i)"
    using Run_final .
  have "list_all2 (result_for (cb_kv_block_tokens (ContinuousBatcher config)) (length (rn_steps rn))) requests (rn_results rn)"
    using Run_lengths [OF rn(2)] final_result_for [OF Run_slots(1) [OF rn(2)] _ Run_slots(2) [OF rn(2)]] rn(3)
    by (simp add: list_all2_conv_all_nth)
  with rn(1) assms show "list_all2 (result_for (cb_kv_block_tokens (ContinuousBatcher config)) (length (run_steps run))) requests (run_results run)"
    by (auto simp: run_finish_def)
  then show "length (run_results run) = length requests" by (simp add: list_all2_lengthD)
qed

lemma Run_cancelled:
  assumes "Run config requests cancel polls = Some (run, polls')" and "\<not> list_all (\<lambda>res. rs_status res \<noteq> SequenceStatus.kCancelled) (run_results run)"
  shows "\<exists>k. cancel k"
proof (rule ccontr)
  assume "\<not> (\<exists>k. cancel k)"
  then have "\<And>k. \<not> cancel k" by blast
  then obtain rn where rn: "Run config requests cancel polls = Some (run_finish requests rn, rn_polls rn)" "uncancelled rn"
    by (rule Run_final_uncancelled)
  with assms show False by (auto simp: run_finish_def uncancelled_def list_all_iff)
qed

text \<open>The scheduler always returns, with one result per request in order, so the backend does too.\<close>

lemma Continuous_cases:
  assumes "Continuous_ProcessBatch F os b requests io = Some (result, io')"
  obtains (cancelled) "result = CancelledResult" and "\<exists>k. os_cancelled os k"
  | (scheduled) run polls io2 where "Run (scheduler_config b) (map (sequence_request b) requests) (os_cancelled os) (Suc (io_polls io)) = Some (run, polls)"
    and "list_all (\<lambda>sequence. rs_status sequence \<noteq> SequenceStatus.kCancelled) (run_results run)"
    and "continuous_outputs F os b (length requests) run (zip requests (run_results run)) empty_result io2 = (result, io')"
proof (cases "os_cancelled os (io_polls io)")
  case True
  with assms show ?thesis by (intro cancelled) (auto simp: Continuous_ProcessBatch_def is_cancelled_def)
next
  case False
  with assms obtain run polls where r: "Run (scheduler_config b) (map (sequence_request b) requests) (os_cancelled os) (Suc (io_polls io)) = Some (run, polls)"
    by (auto simp: Continuous_ProcessBatch_def is_cancelled_def split: option.splits)
  show ?thesis
  proof (cases "list_ex (\<lambda>sequence. rs_status sequence = SequenceStatus.kCancelled) (run_results run)")
    case True
    with Run_cancelled [OF r] have "\<exists>k. os_cancelled os k" by (auto simp: list_all_iff list_ex_iff)
    with True r False assms show ?thesis by (intro cancelled) (auto simp: Continuous_ProcessBatch_def is_cancelled_def)
  next
    case not_cancelled: False
    with r False assms show ?thesis
      by (intro scheduled [OF r]) (auto simp: Continuous_ProcessBatch_def is_cancelled_def list_all_iff list_ex_iff)
  qed
qed

lemma continuous_outputs_contract:
  assumes "continuous_outputs F os b n run pairs result io = (result', io')"
    and "br_code result = kOk" and "br_message result = ''''" and "length (br_output_metadata result) = length (br_outputs result)"
  shows "case br_code result' of
      kOk \<Rightarrow> br_message result' = '''' \<and> length (br_outputs result') = length (br_outputs result) + length pairs \<and>
        length (br_output_metadata result') = length (br_outputs result')
    | BackendStatusCode.kCancelled \<Rightarrow> result' = CancelledResult | kInvalidArgument \<Rightarrow> False | kUnavailable \<Rightarrow> True"
  using assms
proof (induction pairs arbitrary: result io)
  case (Cons pair pairs)
  obtain request sequence where p: "pair = (request, sequence)" by fastforce
  obtain generation io1 where g: "GenerateTinyLLMCompletion F os (bq_prompt request) (ct_max_generated_tokens b)
      (ct_temperature b) (ct_top_k b) io = (generation, io1)" by fastforce
  show ?case
  proof (cases "rs_status sequence = kRejected \<or> os_cancelled os (io_polls io1) \<or> tg_generated_tokens generation \<noteq> ct_max_generated_tokens b")
    case True
    with Cons.prems g show ?thesis by (auto simp: p is_cancelled_def split: if_splits)
  next
    case False
    let ?result = "result\<lparr>br_outputs := br_outputs result @ [FormatContinuousTinyLLMOutput F (tg_generated generation)
        (tg_prompt_tokens generation) (tg_generated_tokens generation) (tg_prefill_micros generation) (tg_decode_micros generation)
        (int n) (ct_max_generated_tokens b) (ct_top_k b) (ct_temperature b) (rs_first_token_step sequence) (rs_completion_step sequence)],
        br_output_metadata := br_output_metadata result @ [BuildContinuousTinyLLMMetadata F run sequence]\<rparr>"
    have "continuous_outputs F os b n run pairs ?result (io1\<lparr>io_polls := Suc (io_polls io1)\<rparr>) = (result', io')"
      using False Cons.prems(1) g by (simp add: p is_cancelled_def)
    from Cons.IH [OF this] Cons.prems(2-4) show ?thesis by (simp split: BackendStatusCode.splits)
  qed
qed simp

interpretation continuous: inference_backend "Continuous_ProcessBatch F os b" for F os b
proof unfold_locales
  fix requests io result io'
  assume p: "Continuous_ProcessBatch F os b requests io = Some (result, io')"
  then show "result_ok requests result"
  proof (cases rule: Continuous_cases)
    case (scheduled run polls io2)
    from continuous_outputs_contract [OF scheduled(3)] Run_result_count(2) [OF scheduled(1)] show ?thesis
      by (auto simp: result_ok_def empty_result_def split: BackendStatusCode.splits)
  qed simp
qed

subsection \<open>Local backends return\<close>

lemma Simulator_returns: "Simulator_ProcessBatch os b requests io \<noteq> None"
  by (simp add: Simulator_ProcessBatch_def Let_def split: prod.splits)

lemma TinyText_returns: "TinyText_ProcessBatch F os iterations requests io \<noteq> None"
proof -
  have "TinyText_request F os iterations n request io \<noteq> None" for n request io
    by (simp add: TinyText_request_def Let_def split: prod.splits option.splits)
  then have "each_request (TinyText_request F os iterations (length requests)) requests [] s \<noteq> None" for s
    by (rule each_request_returns)
  then show ?thesis by (simp add: TinyText_ProcessBatch_def Let_def case_prod_beta del: not_None_eq)
qed

lemma TinyLLM_returns: "TinyLLM_ProcessBatch F os b requests io \<noteq> None"
proof -
  have "TinyLLM_request F os b n request io \<noteq> None" for n request io
    by (simp add: TinyLLM_request_def Let_def split: prod.splits option.splits)
  then have "each_request (TinyLLM_request F os b (length requests)) requests [] s \<noteq> None" for s
    by (rule each_request_returns)
  then show ?thesis by (simp add: TinyLLM_ProcessBatch_def Let_def case_prod_beta del: not_None_eq)
qed

lemma Continuous_returns: "Continuous_ProcessBatch F os b requests io \<noteq> None"
proof -
  obtain run polls where "Run (scheduler_config b) (map (sequence_request b) requests) (os_cancelled os) (Suc (io_polls io)) = Some (run, polls)"
    by (rule Run_final) blast
  then show ?thesis by (simp add: Continuous_ProcessBatch_def is_cancelled_def Let_def)
qed

subsection \<open>What the local backends produce\<close>

text \<open>A batch whose requests are only ever stopped by a cancellation.\<close>

lemma cancellable_batch:
  assumes "each_request body requests [] s = Some (r, s')"
    and "\<And>request s early s1. body request s = Some (Inl early, s1) \<Longrightarrow> early = CancelledResult \<and> C"
    and "\<And>request s out s1. body request s = Some (Inr out, s1) \<Longrightarrow> P request out"
  shows "br_code (batch_result r) = kOk \<and> list_all2 P requests (br_outputs (batch_result r)) \<or> batch_result r = CancelledResult \<and> C"
proof (cases r)
  case (Inl early)
  with assms(1,2) each_request_Inl [of body requests "[]" s early s'] show ?thesis by (auto simp: batch_result_def)
next
  case (Inr outs)
  with assms(1) each_request_Inr [of body requests "[]" s outs s']
  have "list_all2 (\<lambda>request out. \<exists>s1 s2. body request s1 = Some (Inr out, s2)) requests outs" by auto
  then have "list_all2 P requests outs" by (rule list_all2_mono) (use assms(3) in blast)
  with Inr show ?thesis by (simp add: batch_result_def empty_result_def)
qed

lemma max_element_less: "xs \<noteq> [] \<Longrightarrow> max_element F xs < length xs"
proof -
  assume ne: "xs \<noteq> []"
  have "fold (\<lambda>i best. if f_less F (xs ! best) (xs ! i) then i else best) is b < length xs"
    if "\<forall>i \<in> set is. i < length xs" "b < length xs" for "is" b
    using that by (induction "is" arbitrary: b) auto
  with ne show ?thesis by (simp add: max_element_def)
qed

lemma recurrent_layers_None: "recurrent_layers F os layer n hidden io = (None, io') \<Longrightarrow> \<exists>k. os_cancelled os k"
  by (induction n arbitrary: layer hidden io) (auto simp: is_cancelled_def Let_def split: if_splits)

lemma recurrent_layers_Some:
  "recurrent_layers F os layer n hidden io = (Some hidden', io') \<Longrightarrow> hidden' = fold (recurrent_layer F) [layer..<layer + n] hidden"
proof (induction n arbitrary: layer hidden io)
  case (Suc n)
  then have "recurrent_layers F os (Suc layer) n (recurrent_layer F layer hidden) (snd (is_cancelled os io)) = (Some hidden', io')"
    by (auto simp: Let_def split: prod.splits if_splits)
  from Suc.IH [OF this] show ?case by (simp add: upt_conv_Cons del: upt_Suc)
qed simp

text \<open>
  The reference of the classifier: the probabilities of a prompt, and the position of the first largest value of a list
  whose values can be compared (no NaN among them).
\<close>

definition text_probabilities :: "'f float_ops \<Rightarrow> int \<Rightarrow> string \<Rightarrow> 'f list" where
  "text_probabilities F iterations prompt =
     Softmax F (output_layer F (fold (recurrent_layer F) [0..<nat iterations] (input_layer F (Featurize F prompt))))"

definition comparable :: "'f float_ops \<Rightarrow> 'f list \<Rightarrow> bool" where
  "comparable F xs \<longleftrightarrow> (\<forall>x \<in> set xs. \<not> f_less F x x) \<and>
     (\<forall>x \<in> set xs. \<forall>y \<in> set xs. \<forall>z \<in> set xs. f_less F x y \<longrightarrow> (f_less F y z \<longrightarrow> f_less F x z) \<and> (f_less F x z \<or> f_less F z y))"

definition first_largest :: "'f float_ops \<Rightarrow> 'f list \<Rightarrow> nat \<Rightarrow> bool" where
  "first_largest F xs i \<longleftrightarrow> i < length xs \<and> (\<forall>j < length xs. \<not> f_less F (xs ! i) (xs ! j)) \<and> (\<forall>j < i. f_less F (xs ! j) (xs ! i))"

lemma max_element_first:
  assumes cmp: "comparable F xs" and ne: "xs \<noteq> []"
  shows "first_largest F xs (max_element F xs)"
proof -
  let ?step = "\<lambda>i best. if f_less F (xs ! best) (xs ! i) then i else best"
  have irr: "\<not> f_less F (xs ! i) (xs ! i)" if "i < length xs" for i
    using cmp nth_mem [OF that] by (auto simp: comparable_def)
  have ord: "f_less F (xs ! i) (xs ! j) \<Longrightarrow> (f_less F (xs ! j) (xs ! k) \<longrightarrow> f_less F (xs ! i) (xs ! k)) \<and> (f_less F (xs ! i) (xs ! k) \<or> f_less F (xs ! k) (xs ! j))"
    if "i < length xs" "j < length xs" "k < length xs" for i j k
    using cmp nth_mem [OF that(1)] nth_mem [OF that(2)] nth_mem [OF that(3)] unfolding comparable_def by blast
  have "fold ?step [1..<n] 0 < n \<and> (\<forall>j < n. \<not> f_less F (xs ! fold ?step [1..<n] 0) (xs ! j)) \<and>
      (\<forall>j < fold ?step [1..<n] 0. f_less F (xs ! j) (xs ! fold ?step [1..<n] 0))" if "0 < n" "n \<le> length xs" for n
    using that
  proof (induction n)
    case (Suc n)
    show ?case
    proof (cases "n = 0")
      case True
      with Suc.prems irr [of 0] ne show ?thesis by simp
    next
      case False
      with Suc have IH: "fold ?step [1..<n] 0 < n" "\<And>j. j < n \<Longrightarrow> \<not> f_less F (xs ! fold ?step [1..<n] 0) (xs ! j)"
        "\<And>j. j < fold ?step [1..<n] 0 \<Longrightarrow> f_less F (xs ! j) (xs ! fold ?step [1..<n] 0)" by auto
      let ?b = "fold ?step [1..<n] 0"
      have best: "fold ?step [1..<Suc n] 0 = (if f_less F (xs ! ?b) (xs ! n) then n else ?b)" using False by simp
      show ?thesis
      proof (cases "f_less F (xs ! ?b) (xs ! n)")
        case True
        have "\<not> f_less F (xs ! n) (xs ! j) \<and> f_less F (xs ! j) (xs ! n)" if "j < n" for j
          using ord [of ?b n j] True IH(1,2) that Suc.prems by auto
        with best True irr [of n] Suc.prems show ?thesis by (auto simp: less_Suc_eq)
      next
        case not_less: False
        with best IH show ?thesis by (auto simp: less_Suc_eq)
      qed
    qed
  qed simp
  from this [of "length xs"] ne show ?thesis by (auto simp: first_largest_def max_element_def)
qed

text \<open>
  What a successful output says: the batch size, the iterations, a label and its probability for this prompt; the label
  is the first most probable one.
\<close>

definition text_output :: "'f float_ops \<Rightarrow> int \<Rightarrow> nat \<Rightarrow> BackendRequest \<Rightarrow> string \<Rightarrow> bool" where
  "text_output F iterations n request out \<longleftrightarrow>
     (let p = text_probabilities F iterations (bq_prompt request)
      in \<exists>i < length kLabels. out = FormatTinyModelOutput F (kLabels ! i) (p ! i) (int n) iterations \<and>
           (comparable F p \<longrightarrow> first_largest F p i))"

lemma TinyText_request_cases:
  assumes "TinyText_request F os iterations n request io = Some (out, io')"
  shows "out = Inl CancelledResult \<and> (\<exists>k. os_cancelled os k) \<or> (\<exists>text. out = Inr text \<and> text_output F iterations n request text)"
proof -
  let ?hidden = "input_layer F (Featurize F (bq_prompt request))"
  let ?p = "text_probabilities F iterations (bq_prompt request)"
  obtain c io1 where c: "is_cancelled os io = (c, io1)" by fastforce
  obtain layers io2 where l: "recurrent_layers F os 0 (nat iterations) ?hidden io1 = (layers, io2)" by fastforce
  show ?thesis
  proof (cases "c \<or> layers = None")
    case True
    have "layers = None \<Longrightarrow> \<exists>k. os_cancelled os k" using l by (blast intro: recurrent_layers_None)
    moreover have "c \<Longrightarrow> \<exists>k. os_cancelled os k" using c by (auto simp: is_cancelled_def)
    ultimately show ?thesis using True assms c l by (auto simp: TinyText_request_def Let_def split: if_splits)
  next
    case False
    then obtain hidden where h: "layers = Some hidden" by auto
    have p: "Softmax F (output_layer F hidden) = ?p"
      using recurrent_layers_Some [OF l [unfolded h]] by (simp add: text_probabilities_def)
    have len: "length ?p = length kLabels"
      by (simp add: p [symmetric] Softmax_def Let_def output_layer_def kClassCount_def kLabels_def)
    then have ne: "?p \<noteq> []" by (auto simp: kLabels_def)
    have "out = Inr (FormatTinyModelOutput F (kLabels ! max_element F ?p) (?p ! max_element F ?p) (int n) iterations)"
      using assms False c l h p by (simp add: TinyText_request_def classify_def Let_def)
    then show ?thesis
      using max_element_less [OF ne, of F] max_element_first [OF _ ne] len by (auto simp: text_output_def Let_def)
  qed
qed

text \<open>
  C34: The text classifier answers every request of a batch, in order, with the first most probable label of its prompt
  and that label's probability, the batch size and the iterations (the reference probabilities are those of the layers
  applied to the prompt; if they cannot be compared, being NaN, it is some label with its probability); or it returns
  the cancelled result, and that only if the callback reported a cancellation.
\<close>

theorem TinyText_ProcessBatch_outputs:
  "\<exists>result io'. TinyText_ProcessBatch F os iterations requests io = Some (result, io') \<and>
     (br_code result = kOk \<and> list_all2 (text_output F iterations (length requests)) requests (br_outputs result) \<or>
      result = CancelledResult \<and> (\<exists>k. os_cancelled os k))"
proof (cases "os_cancelled os (io_polls io)")
  case True
  then show ?thesis by (auto simp: TinyText_ProcessBatch_def is_cancelled_def)
next
  case False
  let ?body = "TinyText_request F os iterations (length requests)"
  obtain result io' where r: "TinyText_ProcessBatch F os iterations requests io = Some (result, io')"
    using TinyText_returns [of F os iterations requests io] by fastforce
  with False obtain out where e: "each_request ?body requests [] (io\<lparr>io_polls := Suc (io_polls io)\<rparr>) = Some (out, io')" "result = batch_result out"
    by (auto simp: TinyText_ProcessBatch_def is_cancelled_def)
  have "br_code result = kOk \<and> list_all2 (text_output F iterations (length requests)) requests (br_outputs result) \<or>
      result = CancelledResult \<and> (\<exists>k. os_cancelled os k)"
    unfolding e(2) by (rule cancellable_batch [OF e(1)]) (auto dest: TinyText_request_cases)
  with r show ?thesis by blast
qed

text \<open>
  The simulator answers every request of a batch after sleeping exactly its base latency and its latency
  per request, or returns the cancelled result, and that only if the callback reported a cancellation.
\<close>

theorem Simulator_ProcessBatch_sleeps:
  "\<exists>result io'. Simulator_ProcessBatch os b requests io = Some (result, io') \<and>
     (br_code result = kOk \<and> length (br_outputs result) = length requests \<and>
      io_slept_ms io' = io_slept_ms io + max 0 (sb_base_latency_ms b + int (length requests) * sb_per_request_latency_ms b) \<or>
      result = CancelledResult \<and> (\<exists>k. os_cancelled os k))"
proof -
  obtain stopped io1 where s: "simulate_latency os (simulator_latency b (length requests)) io = (stopped, io1)" by fastforce
  from simulate_latency_spec [OF s] show ?thesis
    unfolding simulator_latency_def [symmetric]
    by (cases "stopped \<or> os_cancelled os (io_polls io1)")
      (auto simp: Simulator_ProcessBatch_def s is_cancelled_def empty_result_def Let_def split: if_splits)
qed

text \<open>What a successful output of the tiny decoder says: the whole completion of the prompt.\<close>

definition tiny_output :: "'f float_ops \<Rightarrow> 'f TinyLLMBackend \<Rightarrow> nat \<Rightarrow> BackendRequest \<Rightarrow> string \<Rightarrow> bool" where
  "tiny_output F b n request out \<longleftrightarrow> (\<exists>prefill_micros decode_micros.
     out = FormatTinyLLMOutput F
       (JoinGeneratedTokens (completion F (tl_temperature b) (tl_top_k b) (nat (tl_max_generated_tokens b)) (bq_prompt request)))
       (int (length (TokenizeForTinyLLM (bq_prompt request)))) (int (nat (tl_max_generated_tokens b))) prefill_micros decode_micros
       (int n) (tl_max_generated_tokens b) (tl_top_k b) (tl_temperature b))"

lemma length_completion [simp]: "length (completion F temperature top_k n prompt) = n"
  by (simp add: completion_def)

lemma TinyLLM_request_cases:
  assumes "TinyLLM_request F os b n request io = Some (out, io')"
  shows "out = Inl CancelledResult \<and> (\<exists>k. os_cancelled os k) \<or> (\<exists>text. out = Inr text \<and> tiny_output F b n request text)"
proof (cases "os_cancelled os (io_polls io)")
  case True
  with assms show ?thesis by (auto simp: TinyLLM_request_def is_cancelled_def)
next
  case False
  let ?ids = "TokenizeForTinyLLM (bq_prompt request)"
  let ?new = "completion F (tl_temperature b) (tl_top_k b) (nat (tl_max_generated_tokens b)) (bq_prompt request)"
  let ?io2 = "io\<lparr>io_polls := Suc (io_polls io), io_clock_reads := Suc (io_clock_reads io)\<rparr>"
  obtain states io3 where pre: "TinyLLMPrefill F os ?ids ?io2 = (states, io3)" by fastforce
  let ?io6 = "io3\<lparr>io_polls := Suc (io_polls io3), io_clock_reads := Suc (Suc (io_clock_reads io3))\<rparr>"
  have states: "states = states_of F ?ids \<or> states = [] \<and> (\<exists>k. os_cancelled os k)"
    using TinyLLMPrefill_spec [OF pre] by blast
  obtain decoded io7 where dec: "decode_loop F os (tl_temperature b) (tl_top_k b) (HashToken (bq_prompt request)) 0
      (nat (tl_max_generated_tokens b)) [] ?ids (states_of F ?ids) ?io6 = (decoded, io7)" by fastforce
  have decoded: "decoded = None \<and> (\<exists>k. os_cancelled os k) \<or> (\<exists>sts. decoded = Some (?new, ?ids @ ?new, sts))"
    using decode_loop_spec [OF refl TokenizeForTinyLLM_nonempty dec] by (auto simp: completion_def Let_def)
  show ?thesis
  proof (cases "os_cancelled os (io_polls io3) \<or> states = []")
    case True
    with assms False pre states show ?thesis by (auto simp: TinyLLM_request_def is_cancelled_def clock_now_def Let_def)
  next
    case not_cancelled: False
    with assms False pre states dec
    have run: "(case decoded of None \<Rightarrow> Some (Inl CancelledResult, io7)
       | Some (generated_ids, token_ids1, _) \<Rightarrow>
           Some (Inr (FormatTinyLLMOutput F (JoinGeneratedTokens generated_ids)
             (int (length token_ids1 - length generated_ids)) (int (length generated_ids))
             (micros (os_clock os (io_clock_reads io3) - os_clock os (io_clock_reads io)))
             (micros (os_clock os (io_clock_reads io7) - os_clock os (Suc (io_clock_reads io3)))) (int n)
             (tl_max_generated_tokens b) (tl_top_k b) (tl_temperature b)), io7\<lparr>io_clock_reads := Suc (io_clock_reads io7)\<rparr>)) = Some (out, io')"
      by (cases decoded) (simp_all add: TinyLLM_request_def is_cancelled_def clock_now_def case_prod_beta)
    from decoded show ?thesis
    proof
      assume "\<exists>sts. decoded = Some (?new, ?ids @ ?new, sts)"
      with run show ?thesis unfolding tiny_output_def by fastforce
    qed (use run in auto)
  qed
qed

text \<open>
  C13: The tiny decoder answers every request of a batch, in order, with the completion of its prompt, the
  reference sequence of exactly the configured number of tokens, or returns the cancelled result, and that only if
  the callback reported a cancellation.
\<close>

theorem TinyLLM_ProcessBatch_outputs:
  "\<exists>result io'. TinyLLM_ProcessBatch F os b requests io = Some (result, io') \<and>
     (br_code result = kOk \<and> list_all2 (tiny_output F b (length requests)) requests (br_outputs result) \<or>
      result = CancelledResult \<and> (\<exists>k. os_cancelled os k))"
proof (cases "os_cancelled os (io_polls io)")
  case True
  then show ?thesis by (auto simp: TinyLLM_ProcessBatch_def is_cancelled_def)
next
  case False
  let ?body = "TinyLLM_request F os b (length requests)"
  obtain result io' where r: "TinyLLM_ProcessBatch F os b requests io = Some (result, io')"
    using TinyLLM_returns [of F os b requests io] by fastforce
  with False obtain out where e: "each_request ?body requests [] (io\<lparr>io_polls := Suc (io_polls io)\<rparr>) = Some (out, io')" "result = batch_result out"
    by (auto simp: TinyLLM_ProcessBatch_def is_cancelled_def)
  have "br_code result = kOk \<and> list_all2 (tiny_output F b (length requests)) requests (br_outputs result) \<or>
      result = CancelledResult \<and> (\<exists>k. os_cancelled os k)"
    unfolding e(2) by (rule cancellable_batch [OF e(1)]) (auto dest: TinyLLM_request_cases)
  with r show ?thesis by blast
qed

lemma zip_results:
  assumes "Run config (map f requests) cancel polls = Some (run, polls')"
  shows "list_all (\<lambda>(request, sequence). result_for (cb_kv_block_tokens (ContinuousBatcher config)) (length (run_steps run)) (f request) sequence)
      (zip requests (run_results run))"
  using Run_result_count(1) [OF assms] by (auto simp: list_all2_iff list_all_iff zip_map1)

lemma Continuous_outputs_spec:
  assumes pos: "0 < ct_max_generated_tokens b"
  shows "\<exists>result io'. Continuous_ProcessBatch F os b requests io = Some (result, io') \<and>
     (br_code result = kOk \<and>
        (\<exists>run polls. Run (scheduler_config b) (map (sequence_request b) requests) (os_cancelled os) (Suc (io_polls io)) = Some (run, polls) \<and>
           list_all (\<lambda>sequence. rs_status sequence = kCompleted) (run_results run) \<and>
           list_all2 (continuous_output F b (length requests)) (zip requests (run_results run)) (br_outputs result) \<and>
           br_output_metadata result = map (BuildContinuousTinyLLMMetadata F run) (run_results run)) \<or>
      br_code result = kUnavailable \<and> br_message result \<in> rejections \<or>
      result = CancelledResult \<and> (\<exists>k. os_cancelled os k))"
proof -
  obtain result io' where r: "Continuous_ProcessBatch F os b requests io = Some (result, io')"
    using Continuous_returns [of F os b requests io] by fastforce
  then show ?thesis
  proof (cases rule: Continuous_cases)
    case (scheduled run polls io2)
    note len = Run_result_count(2) [OF scheduled(1)]
    note res = zip_results [OF scheduled(1)]
    from continuous_outputs_ok [OF scheduled(3) _ _ pos] show ?thesis
    proof (cases "br_code result")
      case kOk
      with continuous_outputs_ok [OF scheduled(3) _ _ pos]
      have ok: "list_all2 (continuous_output F b (length requests)) (zip requests (run_results run)) (br_outputs result)"
        "br_output_metadata result = map (\<lambda>(request, sequence). BuildContinuousTinyLLMMetadata F run sequence) (zip requests (run_results run))"
        "list_all (\<lambda>(request, sequence). rs_status sequence \<noteq> kRejected) (zip requests (run_results run))"
        by (auto simp: empty_result_def)
      have "map snd (zip requests (run_results run)) = run_results run" using len by simp
      then have "br_output_metadata result = map (BuildContinuousTinyLLMMetadata F run) (run_results run)"
        unfolding ok(2) by (metis (no_types, lifting) case_prod_beta map_cong map_map comp_apply)
      moreover have "list_all (\<lambda>sequence. rs_status sequence = kCompleted) (run_results run)"
        using ok(3) scheduled(2) len by (auto simp: list_all_length) (metis SequenceStatus.exhaust)
      ultimately show ?thesis using r kOk ok(1) scheduled(1) by auto
    next
      case kUnavailable
      with continuous_outputs_ok [OF scheduled(3) _ _ pos] res
      have "br_message result \<in> rejections"
        by (auto simp: empty_result_def list_all_iff result_for_def split: SequenceStatus.splits)
      with r kUnavailable show ?thesis by blast
    qed (use r continuous_outputs_ok [OF scheduled(3) _ _ pos] in \<open>auto simp: empty_result_def\<close>)
  qed (use r in blast)
qed

text \<open>
  C12: The continuous decoder answers every request of a batch, in order, with the same reference completion as the
  tiny decoder and the steps its sequence took in the schedule; or it is unavailable with one of the allocator's reasons;
  or it returns the cancelled result, and that only if the callback reported a cancellation.
\<close>

theorem Continuous_ProcessBatch_outputs:
  "let b = make_ContinuousTinyLLMBackend F max_tokens temperature top_k prefill decode blocks block_tokens prefix_tokens
   in \<exists>result io'. Continuous_ProcessBatch F os b requests io = Some (result, io') \<and>
     (br_code result = kOk \<and>
        (\<exists>run polls. Run (scheduler_config b) (map (sequence_request b) requests) (os_cancelled os) (Suc (io_polls io)) = Some (run, polls) \<and>
           list_all (\<lambda>sequence. rs_status sequence = kCompleted) (run_results run) \<and>
           list_all2 (continuous_output F b (length requests)) (zip requests (run_results run)) (br_outputs result) \<and>
           br_output_metadata result = map (BuildContinuousTinyLLMMetadata F run) (run_results run)) \<or>
      br_code result = kUnavailable \<and> br_message result \<in> rejections \<or>
      result = CancelledResult \<and> (\<exists>k. os_cancelled os k))"
  unfolding Let_def
  by (rule Continuous_outputs_spec) (simp add: make_ContinuousTinyLLMBackend_def clamp_int_def)

end
