(* ===== verification/Continuous_Fit.thy ===== *)
theory Continuous_Fit
  imports Batcher_Fit Local_Backends
begin

text \<open>
  The continuous decoder over a cache that is large enough. The keys its requests get are those of prefixes of one fixed
  length, so that the rule of one token count per key holds by itself and only the sizes remain as a condition.
\<close>

lemma shared_tokens_sequence_request:
  "shared_tokens (sequence_request b request) =
     (if rq_prefix_cache_key (sequence_request b request) = '''' then 0 else ct_prefix_cache_tokens b)"
  by (auto simp: shared_tokens_def sequence_request_def prompt_cacheable_def cacheable_def Let_def PrefixCacheKey_empty_iff)

lemma sequence_requests_one_count: "one_count_per_key (map (sequence_request b) requests)"
  by (auto simp: one_count_per_key_def list_all_iff shared_tokens_sequence_request)

lemma sequence_request_id [simp]: "rq_id (sequence_request b request) = bq_id request"
  by (simp add: sequence_request_def Let_def)

lemma not_rejected_served:
  assumes "continuous_outputs F os b n run pairs result io = (result', io')" and "\<And>k. \<not> os_cancelled os k"
    and "br_code result = kOk" and "br_message result = ''''" and "0 < ct_max_generated_tokens b"
    and "list_all (\<lambda>(request, sequence). rs_status sequence \<noteq> kRejected) pairs"
  shows "br_code result' = kOk"
  using continuous_outputs_ok [OF assms(1,3-5)] assms(2,6)
  by (auto simp: list_all_iff split: BackendStatusCode.splits)

lemma Continuous_serves:
  assumes go: "\<And>k. \<not> os_cancelled os k" and pos: "0 < ct_max_generated_tokens b" "0 < ct_kv_cache_blocks b"
    and ids: "distinct (map bq_id requests)" "list_all (\<lambda>request. bq_id request \<noteq> '''') requests"
    and room: "run_need (scheduler_config b) (map (sequence_request b) requests) \<le> ct_kv_cache_blocks b"
  obtains result io' where "Continuous_ProcessBatch F os b requests io = Some (result, io')" "br_code result = kOk"
proof -
  obtain result io' where r: "Continuous_ProcessBatch F os b requests io = Some (result, io')"
    using Continuous_returns [of F os b requests io] by fastforce
  have blocks: "cb_kv_cache_blocks (ContinuousBatcher (scheduler_config b)) = ct_kv_cache_blocks b"
    using pos(2) by (simp add: ContinuousBatcher_def scheduler_config_def ClampPositive_def)
  from r show ?thesis
  proof (cases rule: Continuous_cases)
    case cancelled
    with go show ?thesis by blast
  next
    case (scheduled run polls io2)
    obtain run' polls' where run: "Run (scheduler_config b) (map (sequence_request b) requests) (os_cancelled os) (Suc (io_polls io)) = Some (run', polls')"
      "list_all (\<lambda>res. rs_status res = kCompleted) (run_results run')"
    proof (rule Run_completes [of "os_cancelled os" "map (sequence_request b) requests" "scheduler_config b" "Suc (io_polls io)"])
      show "one_count_per_key (map (sequence_request b) requests)" by (rule sequence_requests_one_count)
    qed (use go ids room blocks in \<open>simp_all add: comp_def list_all_iff\<close>)
    with scheduled(1) have "list_all (\<lambda>(request, sequence). rs_status sequence \<noteq> kRejected) (zip requests (run_results run))"
      by (auto simp: list_all_iff dest!: set_zip_rightD)
    then have "br_code result = kOk"
      by (intro not_rejected_served [OF scheduled(3) go _ _ pos(1)]) (simp_all add: empty_result_def)
    with r show ?thesis by (rule that)
  qed
qed

text \<open>
  C10: The continuous decoder serves what fits. If the client does not cancel, the requests of a batch have distinct
  nonempty ids, and the blocks for all their prompts and for the tokens to generate are no more than the configured cache
  has, then the batch succeeds, and every request is answered with its reference completion.
\<close>

theorem Continuous_serves_what_fits:
  assumes "b = make_ContinuousTinyLLMBackend F max_tokens temperature top_k prefill decode blocks block_tokens prefix_tokens"
    and "\<And>k. \<not> os_cancelled os k" and "distinct (map bq_id requests)" and "list_all (\<lambda>request. bq_id request \<noteq> '''') requests"
    and "run_need (scheduler_config b) (map (sequence_request b) requests) \<le> ct_kv_cache_blocks b"
  shows "\<exists>result io' run polls. Continuous_ProcessBatch F os b requests io = Some (result, io') \<and> br_code result = kOk \<and>
    Run (scheduler_config b) (map (sequence_request b) requests) (os_cancelled os) (Suc (io_polls io)) = Some (run, polls) \<and>
    list_all (\<lambda>sequence. rs_status sequence = kCompleted) (run_results run) \<and>
    list_all2 (continuous_output F b (length requests)) (zip requests (run_results run)) (br_outputs result)"
proof -
  have pos: "0 < ct_max_generated_tokens b" "0 < ct_kv_cache_blocks b"
    by (simp_all add: assms(1) make_ContinuousTinyLLMBackend_def clamp_int_def)
  obtain result io' where r: "Continuous_ProcessBatch F os b requests io = Some (result, io')" "br_code result = kOk"
    by (rule Continuous_serves [of os b requests F io]) (use assms(2-5) pos in blast)+
  with assms(2) have "\<not> (br_code result = kUnavailable \<and> br_message result \<in> rejections \<or> result = CancelledResult \<and> (\<exists>k. os_cancelled os k))"
    by simp
  with r Continuous_outputs_spec [OF pos(1), of F os requests io] show ?thesis by (elim exE conjE disjE) auto
qed

definition roomy_backend :: "rat ContinuousTinyLLMBackend" where
  "roomy_backend = make_ContinuousTinyLLMBackend rat_ops 2 1 3 4 1 64 2 2"

definition roomy_requests :: "BackendRequest list" where
  "roomy_requests = [\<lparr>bq_id = ''a'', bq_prompt = ''to be'', bq_trace_id = ''''\<rparr>, \<lparr>bq_id = ''b'', bq_prompt = '''', bq_trace_id = ''''\<rparr>]"

definition calm_os :: os where
  "calm_os = \<lparr>os_cancelled = (\<lambda>_. False), os_clock = (\<lambda>n. int n), os_getaddrinfo = (\<lambda>_ _. None), os_socket = (\<lambda>_. False),
     os_connect = (\<lambda>_. \<lparr>cc_getfl = 0, cc_setfl = 0, cc_connect = 0, cc_in_progress = False, cc_poll = 0, cc_getsockopt = 0,
       cc_socket_error = 0\<rparr>), os_send = (\<lambda>_. 0), os_recv = (\<lambda>_. RecvEof)\<rparr>"

theorem Continuous_serves_what_fits_witness:
  "\<exists>result io'. Continuous_ProcessBatch rat_ops calm_os roomy_backend roomy_requests io_start = Some (result, io') \<and> br_code result = kOk"
proof -
  have "run_need (scheduler_config roomy_backend) (map (sequence_request roomy_backend) roomy_requests) \<le> ct_kv_cache_blocks roomy_backend"
    by code_simp
  moreover have "distinct (map bq_id roomy_requests)" "list_all (\<lambda>request. bq_id request \<noteq> '''') roomy_requests"
    by (simp_all add: roomy_requests_def)
  moreover have "\<not> os_cancelled calm_os k" for k by (simp add: calm_os_def)
  ultimately show ?thesis
    using Continuous_serves_what_fits [OF roomy_backend_def, of calm_os roomy_requests io_start] by blast
qed

end
