(* ===== verification/Llama_Http.thy ===== *)
theory Llama_Http
  imports Llama_Json Worker_Io
begin

text \<open>
  The HTTP client of the llama server backend: URL parsing, connecting, sending, receiving and the
  parsing of status line and headers, for whole responses (\<open>HttpPostJson\<close>) and for streamed bodies
  (\<open>HttpPostJsonStream\<close>). The receive loops retry interrupted calls for as long as they occur, so
  they are partial functions: \<^term>\<open>None\<close> is a loop that never ends.
\<close>

subsection \<open>URLs\<close>

record ParsedHttpUrl =
  url_valid :: bool
  url_host :: string
  url_port :: string
  url_path :: string

definition empty_url :: ParsedHttpUrl where
  "empty_url = \<lparr>url_valid = False, url_host = '''', url_port = '''', url_path = ''''\<rparr>"

definition ParseHttpUrl :: "string \<Rightarrow> ParsedHttpUrl" where
  "ParseHttpUrl raw_url =
     (if \<not> starts_with ''http://'' raw_url then empty_url
      else
        let rest = drop (length ''http://'') raw_url;
            authority = takeWhile (\<lambda>c. c \<noteq> CHR ''/'') rest;
            path = (if CHR ''/'' \<in> set rest then dropWhile (\<lambda>c. c \<noteq> CHR ''/'') rest else ''/'');
            parsed = empty_url\<lparr>url_path := path\<rparr>
        in if authority = '''' then parsed
           else
             let (host, port) =
                   (if CHR '':'' \<notin> set authority then (authority, ''80'')
                    else (rev (drop 1 (dropWhile (\<lambda>c. c \<noteq> CHR '':'') (rev authority))),
                          rev (takeWhile (\<lambda>c. c \<noteq> CHR '':'') (rev authority))))
             in parsed\<lparr>url_host := host, url_port := port,
                       url_valid := host \<noteq> '''' \<and> port \<noteq> '''' \<and> path \<noteq> ''''\<rparr>)"

definition EndpointForOutput :: "string \<Rightarrow> string" where
  "EndpointForOutput raw_url =
     (let parsed = ParseHttpUrl raw_url
      in if \<not> url_valid parsed then raw_url else url_host parsed @ '':'' @ url_port parsed @ url_path parsed)"

subsection \<open>Connecting and sending\<close>

record HttpResponse =
  hr_ok :: bool
  hr_status_code :: int
  hr_first_response_byte_micros :: int
  hr_body :: string
  hr_error :: string

definition empty_response :: HttpResponse where
  "empty_response = \<lparr>hr_ok = False, hr_status_code = 0, hr_first_response_byte_micros = -1, hr_body = '''', hr_error = ''''\<rparr>"

definition close_socket :: "io \<Rightarrow> io" where
  "close_socket io = io\<lparr>io_open_sockets := io_open_sockets io - 1\<rparr>"

definition freeaddrinfo :: "io \<Rightarrow> io" where
  "freeaddrinfo io = io\<lparr>io_addrinfos := io_addrinfos io - 1\<rparr>"

definition ConnectWithTimeout :: "connect_calls \<Rightarrow> bool" where
  "ConnectWithTimeout c =
     (if cc_getfl c < 0 then False
      else if cc_setfl c < 0 then False
      else if cc_connect c = 0 then True
      else if \<not> cc_in_progress c then False
      else if cc_poll c \<le> 0 then False
      else if cc_getsockopt c \<noteq> 0 \<or> cc_socket_error c \<noteq> 0 then False
      else True)"

datatype connect_outcome = ConnectCancelled | ConnectFailed | Connected

text \<open>The address loop: \<open>Connected\<close> leaves one more open socket.\<close>

fun connect_loop :: "'a os_scheme \<Rightarrow> nat list \<Rightarrow> io \<Rightarrow> connect_outcome \<times> io" where
  "connect_loop os [] io = (ConnectFailed, io)"
| "connect_loop os (address # rest) io =
     (case is_cancelled os io of
        (True, io1) \<Rightarrow> (ConnectCancelled, io1)
      | (False, io1) \<Rightarrow>
          if \<not> os_socket os address then connect_loop os rest io1
          else
            let io2 = io1\<lparr>io_open_sockets := io_open_sockets io1 + 1\<rparr>
            in if ConnectWithTimeout (os_connect os address) then (Connected, io2)
               else connect_loop os rest (close_socket io2))"

definition http_request_text :: "ParsedHttpUrl \<Rightarrow> string \<Rightarrow> string" where
  "http_request_text url body =
     ''POST '' @ url_path url @ '' HTTP/1.1'' @ [CHR 0x0D, CHR 0x0A] @
     ''Host: '' @ url_host url @ '':'' @ url_port url @ [CHR 0x0D, CHR 0x0A] @
     ''Content-Type: application/json'' @ [CHR 0x0D, CHR 0x0A] @
     ''Content-Length: '' @ to_string (int (length body)) @ [CHR 0x0D, CHR 0x0A] @
     ''Connection: close'' @ [CHR 0x0D, CHR 0x0A, CHR 0x0D, CHR 0x0A] @ body"

datatype send_outcome = SendCancelled | SendFailed | Sent

text \<open>The send loop, \<open>left\<close> bytes before the end; a positive result shorter than that continues.\<close>

function send_loop :: "'a os_scheme \<Rightarrow> nat \<Rightarrow> io \<Rightarrow> send_outcome \<times> io" where
  "send_loop os left io =
     (if left = 0 then (Sent, io)
      else case is_cancelled os io of
        (True, io1) \<Rightarrow> (SendCancelled, io1)
      | (False, io1) \<Rightarrow>
          let bytes = os_send os (io_sends io1); io2 = io1\<lparr>io_sends := Suc (io_sends io1)\<rparr>
          in if bytes \<le> 0 then (SendFailed, io2) else send_loop os (left - nat bytes) io2)"
  by pat_completeness auto
termination by (relation "measure (\<lambda>(os, left, io). left)") auto

declare send_loop.simps [simp del]

definition http_error :: "string \<Rightarrow> HttpResponse \<Rightarrow> HttpResponse" where
  "http_error message response = response\<lparr>hr_error := message\<rparr>"

text \<open>
  The part the two clients share, from resolving to the last byte sent: an early response, or the
  time it started with the socket open.
\<close>

definition http_open :: "'a os_scheme \<Rightarrow> ParsedHttpUrl \<Rightarrow> string \<Rightarrow> io \<Rightarrow> (HttpResponse + int) \<times> io" where
  "http_open os url body io0 =
     (let (started, io1) = clock_now os io0
      in case os_getaddrinfo os (url_host url) (url_port url) of
           None \<Rightarrow> (Inl (http_error (''getaddrinfo failed for '' @ url_host url @ '':'' @ url_port url) empty_response), io1)
         | Some addresses \<Rightarrow>
             (case connect_loop os addresses (io1\<lparr>io_addrinfos := io_addrinfos io1 + 1\<rparr>) of
                (ConnectCancelled, io2) \<Rightarrow> (Inl (http_error ''cancelled'' empty_response), freeaddrinfo io2)
              | (ConnectFailed, io2) \<Rightarrow>
                  (Inl (http_error (''failed to connect to llama server at '' @ url_host url @ '':'' @ url_port url)
                     empty_response), freeaddrinfo io2)
              | (Connected, io2) \<Rightarrow>
                  (case send_loop os (length (http_request_text url body)) (freeaddrinfo io2) of
                     (SendCancelled, io3) \<Rightarrow> (Inl (http_error ''cancelled'' empty_response), close_socket io3)
                   | (SendFailed, io3) \<Rightarrow>
                       (Inl (http_error ''failed to send request to llama server'' empty_response), close_socket io3)
                   | (Sent, io3) \<Rightarrow> (Inr started, io3))))"

subsection \<open>Receiving\<close>

definition first_byte :: "'a os_scheme \<Rightarrow> int \<Rightarrow> HttpResponse \<Rightarrow> io \<Rightarrow> HttpResponse \<times> io" where
  "first_byte os started response io =
     (if hr_first_response_byte_micros response < 0 then
        let (now, io1) = clock_now os io
        in (response\<lparr>hr_first_response_byte_micros := micros (now - started)\<rparr>, io1)
      else (response, io))"

definition recv_call :: "'a os_scheme \<Rightarrow> io \<Rightarrow> recv_result \<times> io" where
  "recv_call os io = (os_recv os (io_recvs io), io\<lparr>io_recvs := Suc (io_recvs io)\<rparr>)"

text \<open>
  One iteration of the receive loop of \<open>HttpPostJson\<close>. It leaves the loop with an early response, or
  with the response and all the bytes received.
\<close>

type_synonym recv_exit = "(HttpResponse + HttpResponse \<times> string) \<times> io"

definition recv_step ::
  "'a os_scheme \<Rightarrow> int \<Rightarrow> HttpResponse \<times> string \<times> io \<Rightarrow> recv_exit + HttpResponse \<times> string \<times> io" where
  "recv_step os started = (\<lambda>(response, raw, io0).
     let (cancelled, io1) = is_cancelled os io0
     in if cancelled then Inl (Inl (http_error ''cancelled'' response), close_socket io1)
        else
          let (received, io2) = recv_call os io1
          in case received of
               RecvData bytes \<Rightarrow>
                 let (response1, io3) = first_byte os started response io2; raw1 = raw @ bytes
                 in if int (length raw1) > 1024 * 1024
                    then Inl (Inl (http_error ''llama server response exceeded 1 MiB'' response1), close_socket io3)
                    else Inr (response1, raw1, io3)
             | RecvEof \<Rightarrow> Inl (Inr (response, raw), io2)
             | RecvInterrupted \<Rightarrow> Inr (response, raw, io2)
             | RecvError \<Rightarrow>
                 Inl (Inl (http_error ''failed to read response from llama server'' response), close_socket io2))"

definition recv_loop :: "'a os_scheme \<Rightarrow> int \<Rightarrow> HttpResponse \<Rightarrow> string \<Rightarrow> io \<Rightarrow> recv_exit option" where
  "recv_loop os started response raw io = iterate (recv_step os started) (response, raw, io)"

definition crlf :: string where
  "crlf = [CHR 0x0D, CHR 0x0A]"

text \<open>\<open>status_stream >> http_version >> response.status_code\<close>; a failed extraction leaves 0.\<close>

definition parse_status :: "string \<Rightarrow> int" where
  "parse_status line =
     (let s = dropWhile isspace line;
          http_version = takeWhile (\<lambda>c. \<not> isspace c) s;
          rest = dropWhile (\<lambda>c. \<not> isspace c) s
      in if http_version = '''' then 0
         else case strtol rest of
                None \<Rightarrow> 0
              | Some (value, _) \<Rightarrow> max (- (2 ^ 31)) (min (2 ^ 31 - 1) value))"

definition status_line :: "string \<Rightarrow> string" where
  "status_line raw = (case str_find crlf raw of None \<Rightarrow> raw | Some n \<Rightarrow> take n raw)"

definition status_ok :: "int \<Rightarrow> bool" where
  "status_ok status \<longleftrightarrow> 200 \<le> status \<and> status < 300"

definition http_status_error :: "HttpResponse \<Rightarrow> HttpResponse" where
  "http_status_error response =
     (if \<not> hr_ok response
      then http_error (''llama server returned HTTP '' @ to_string (hr_status_code response)) response
      else response)"

definition finish_response :: "HttpResponse \<Rightarrow> string \<Rightarrow> HttpResponse" where
  "finish_response response raw =
     (case str_find (crlf @ crlf) raw of
        None \<Rightarrow> http_error ''llama server response was missing HTTP headers'' response
      | Some header_end \<Rightarrow>
          http_status_error (response\<lparr>hr_status_code := parse_status (status_line raw),
            hr_body := drop (header_end + 4) raw, hr_ok := status_ok (parse_status (status_line raw))\<rparr>))"

definition HttpPostJson :: "'a os_scheme \<Rightarrow> ParsedHttpUrl \<Rightarrow> string \<Rightarrow> io \<Rightarrow> (HttpResponse \<times> io) option" where
  "HttpPostJson os url body io0 =
     (case http_open os url body io0 of
        (Inl response, io1) \<Rightarrow> Some (response, io1)
      | (Inr started, io1) \<Rightarrow>
          (case recv_loop os started empty_response '''' io1 of
             None \<Rightarrow> None
           | Some (Inl response, io2) \<Rightarrow> Some (response, io2)
           | Some (Inr (response, raw), io2) \<Rightarrow> Some (finish_response response raw, close_socket io2)))"

subsection \<open>Receiving a stream\<close>

text \<open>
  One \<open>recv\<close> with data: headers are collected in \<open>buffered\<close> until they are complete; after that the
  bytes go to \<open>on_body\<close>, or to the error body when the status is not a success. \<open>on_body\<close> is an
  operation on a state \<open>'s\<close>, which refuses with \<open>False\<close>. \<open>Inl\<close> is a return from the loop.
\<close>

record stream_recv =
  sr_response :: HttpResponse
  sr_headers_parsed :: bool
  sr_buffered :: string

definition stream_data ::
  "(string \<Rightarrow> 's \<Rightarrow> bool \<times> 's) \<Rightarrow> string \<Rightarrow> stream_recv \<Rightarrow> 's \<Rightarrow> (HttpResponse + stream_recv) \<times> 's" where
  "stream_data body_callback bytes r s =
     (let response = sr_response r
      in if \<not> sr_headers_parsed r then
           (let buffered = sr_buffered r @ bytes
            in case str_find (crlf @ crlf) buffered of
                 None \<Rightarrow>
                   if int (length buffered) > 64 * 1024
                   then (Inl (http_error ''llama server response headers exceeded 64 KiB'' response), s)
                   else (Inr (r\<lparr>sr_buffered := buffered\<rparr>), s)
               | Some header_end \<Rightarrow>
                   let status = parse_status (status_line buffered);
                       response1 = response\<lparr>hr_status_code := status, hr_ok := status_ok status\<rparr>;
                       piece = drop (header_end + 4) buffered;
                       r1 = \<lparr>sr_response = response1, sr_headers_parsed = True, sr_buffered = ''''\<rparr>
                   in if piece = '''' then (Inr r1, s)
                      else if hr_ok response1 then
                        (case body_callback piece s of
                           (True, s1) \<Rightarrow> (Inr r1, s1)
                         | (False, s1) \<Rightarrow> (Inl (http_error ''cancelled'' response1), s1))
                      else (Inr (r1\<lparr>sr_response := response1\<lparr>hr_body := hr_body response1 @ piece\<rparr>\<rparr>), s))
         else if hr_ok response then
           (case body_callback bytes s of
              (True, s1) \<Rightarrow> (Inr r, s1)
            | (False, s1) \<Rightarrow> (Inl (http_error ''cancelled'' response), s1))
         else
           let response1 = response\<lparr>hr_body := hr_body response @ bytes\<rparr>
           in if int (length (hr_body response1)) > 1024 * 1024
              then (Inl (http_error ''llama server response exceeded 1 MiB'' response1), s)
              else (Inr (r\<lparr>sr_response := response1\<rparr>), s))"

definition stream_step ::
  "'a os_scheme \<Rightarrow> (string \<Rightarrow> 's \<Rightarrow> bool \<times> 's) \<Rightarrow> int \<Rightarrow> stream_recv \<times> 's \<times> io \<Rightarrow>
     ((HttpResponse + stream_recv) \<times> 's \<times> io) + stream_recv \<times> 's \<times> io" where
  "stream_step os body_callback started = (\<lambda>(r, s, io0).
     let (cancelled, io1) = is_cancelled os io0
     in if cancelled then Inl (Inl (http_error ''cancelled'' (sr_response r)), s, close_socket io1)
        else
          let (received, io2) = recv_call os io1
          in case received of
               RecvData bytes \<Rightarrow>
                 (let (response1, io3) = first_byte os started (sr_response r) io2;
                      (outcome, s1) = stream_data body_callback bytes (r\<lparr>sr_response := response1\<rparr>) s
                  in case outcome of
                       Inl response2 \<Rightarrow> Inl (Inl response2, s1, close_socket io3)
                     | Inr r1 \<Rightarrow> Inr (r1, s1, io3))
             | RecvEof \<Rightarrow> Inl (Inr r, s, io2)
             | RecvInterrupted \<Rightarrow> Inr (r, s, io2)
             | RecvError \<Rightarrow>
                 Inl (Inl (http_error ''failed to read response from llama server'' (sr_response r)), s, close_socket io2))"

definition stream_loop ::
  "'a os_scheme \<Rightarrow> (string \<Rightarrow> 's \<Rightarrow> bool \<times> 's) \<Rightarrow> int \<Rightarrow> stream_recv \<Rightarrow> 's \<Rightarrow> io \<Rightarrow>
     ((HttpResponse + stream_recv) \<times> 's \<times> io) option" where
  "stream_loop os body_callback started r s io = iterate (stream_step os body_callback started) (r, s, io)"

definition HttpPostJsonStream ::
  "'a os_scheme \<Rightarrow> ParsedHttpUrl \<Rightarrow> string \<Rightarrow> (string \<Rightarrow> 's \<Rightarrow> bool \<times> 's) \<Rightarrow> 's \<Rightarrow> io \<Rightarrow> (HttpResponse \<times> 's \<times> io) option" where
  "HttpPostJsonStream os url body body_callback s0 io0 =
     (case http_open os url body io0 of
        (Inl response, io1) \<Rightarrow> Some (response, s0, io1)
      | (Inr started, io1) \<Rightarrow>
          (case stream_loop os body_callback started
                  \<lparr>sr_response = empty_response, sr_headers_parsed = False, sr_buffered = ''''\<rparr> s0 io1 of
             None \<Rightarrow> None
           | Some (Inl response, s1, io2) \<Rightarrow> Some (response, s1, io2)
           | Some (Inr r, s1, io2) \<Rightarrow>
               Some (if \<not> sr_headers_parsed r
                     then http_error ''llama server response was missing HTTP headers'' (sr_response r)
                     else http_status_error (sr_response r), s1, close_socket io2)))"

subsection \<open>URL round trip\<close>

text \<open>
  C37: \<open>ParseHttpUrl\<close> splits a URL built from a host, a port and a path back into them, for every
  nonempty host without slash, nonempty port without slash and colon, and path starting with a slash;
  without a port it is 80. The endpoint shown in outputs is the URL without its scheme.
\<close>

theorem ParseHttpUrl_roundtrip:
  assumes "host \<noteq> ''''" and "CHR ''/'' \<notin> set host" and "port \<noteq> ''''" and "CHR ''/'' \<notin> set port"
    and "CHR '':'' \<notin> set port"
  shows "ParseHttpUrl (''http://'' @ host @ '':'' @ port @ ''/'' @ path) =
      \<lparr>url_valid = True, url_host = host, url_port = port, url_path = ''/'' @ path\<rparr> \<and>
    EndpointForOutput (''http://'' @ host @ '':'' @ port @ ''/'' @ path) = host @ '':'' @ port @ ''/'' @ path \<and>
    (CHR '':'' \<notin> set host \<longrightarrow> ParseHttpUrl (''http://'' @ host) =
      \<lparr>url_valid = True, url_host = host, url_port = ''80'', url_path = ''/''\<rparr>)"
proof -
  let ?rest = "host @ '':'' @ port @ ''/'' @ path"
  have split: "takeWhile (\<lambda>c. c \<noteq> CHR ''/'') ?rest = host @ '':'' @ port"
    "dropWhile (\<lambda>c. c \<noteq> CHR ''/'') ?rest = ''/'' @ path"
    using assms by (auto simp: takeWhile_append dropWhile_append takeWhile_eq_all_conv dropWhile_eq_Nil_conv)
  have ports: "takeWhile (\<lambda>c. c \<noteq> CHR '':'') (rev (host @ '':'' @ port)) = rev port"
    "dropWhile (\<lambda>c. c \<noteq> CHR '':'') (rev (host @ '':'' @ port)) = CHR '':'' # rev host"
    using assms by (auto simp: takeWhile_append dropWhile_append takeWhile_eq_all_conv dropWhile_eq_Nil_conv)
  have url: "ParseHttpUrl (''http://'' @ ?rest) =
      \<lparr>url_valid = True, url_host = host, url_port = port, url_path = ''/'' @ path\<rparr>"
    unfolding ParseHttpUrl_def Let_def using assms
    by (simp add: starts_with_def empty_url_def split [simplified] ports [simplified])
  moreover have whole: "takeWhile (\<lambda>c. c \<noteq> CHR ''/'') host = host"
    using assms(2) by (auto simp: takeWhile_eq_all_conv)
  have "ParseHttpUrl (''http://'' @ host) = \<lparr>url_valid = True, url_host = host, url_port = ''80'', url_path = ''/''\<rparr>"
    if "CHR '':'' \<notin> set host"
    using assms that by (simp add: ParseHttpUrl_def starts_with_def empty_url_def Let_def whole)
  ultimately show ?thesis by (simp add: EndpointForOutput_def)
qed

theorem ParseHttpUrl_roundtrip_witness:
  "ParseHttpUrl ''http://127.0.0.1:8080/completion'' =
     \<lparr>url_valid = True, url_host = ''127.0.0.1'', url_port = ''8080'', url_path = ''/completion''\<rparr>"
  using ParseHttpUrl_roundtrip [of "''127.0.0.1''" "''8080''" "''completion''"] by simp

subsection \<open>Sockets are closed\<close>

definition same_resources :: "io \<Rightarrow> io \<Rightarrow> bool" where
  "same_resources io io' \<longleftrightarrow> io_open_sockets io' = io_open_sockets io \<and> io_addrinfos io' = io_addrinfos io"

lemma is_cancelled_frame:
  "is_cancelled os io = (b, io1) \<Longrightarrow> io_open_sockets io1 = io_open_sockets io \<and> io_addrinfos io1 = io_addrinfos io \<and>
     io_recvs io1 = io_recvs io \<and> io_polls io1 = Suc (io_polls io) \<and> io_clock_reads io1 = io_clock_reads io"
  by (auto simp: is_cancelled_def)

lemma clock_now_frame:
  "clock_now os io = (t, io1) \<Longrightarrow> io_open_sockets io1 = io_open_sockets io \<and> io_addrinfos io1 = io_addrinfos io \<and>
     io_recvs io1 = io_recvs io \<and> io_polls io1 = io_polls io"
  by (auto simp: clock_now_def)

lemma connect_loop_sockets:
  assumes "connect_loop os addresses io = (outcome, io')"
  shows "io_open_sockets io' = io_open_sockets io + (if outcome = Connected then 1 else 0) \<and>
    io_addrinfos io' = io_addrinfos io \<and> io_recvs io' = io_recvs io"
  using assms
proof (induction os addresses io rule: connect_loop.induct)
  case (2 os address rest io)
  obtain c io1 where c: "is_cancelled os io = (c, io1)" by fastforce
  show ?case
    using 2 c is_cancelled_frame [OF c]
    by (auto simp: close_socket_def Let_def split: if_splits bool.splits)
qed simp

lemma send_loop_sockets:
  assumes "send_loop os left io = (outcome, io')"
  shows "io_open_sockets io' = io_open_sockets io \<and> io_addrinfos io' = io_addrinfos io \<and> io_recvs io' = io_recvs io"
  using assms
proof (induction os left io rule: send_loop.induct)
  case (1 os left io)
  obtain c io1 where c: "is_cancelled os io = (c, io1)" by fastforce
  from "1.prems" have run: "(if left = 0 then (Sent, io)
      else case is_cancelled os io of
        (True, io1) \<Rightarrow> (SendCancelled, io1)
      | (False, io1) \<Rightarrow>
          let bytes = os_send os (io_sends io1); io2 = io1\<lparr>io_sends := Suc (io_sends io1)\<rparr>
          in if bytes \<le> 0 then (SendFailed, io2) else send_loop os (left - nat bytes) io2) = (outcome, io')"
    by (subst (asm) send_loop.simps)
  show ?case
  proof (cases "left = 0 \<or> c \<or> os_send os (io_sends io1) \<le> 0")
    case True
    with run c is_cancelled_frame [OF c] show ?thesis by (cases c) (auto simp: Let_def split: if_splits)
  next
    case False
    then have "send_loop os (left - nat (os_send os (io_sends io1))) (io1\<lparr>io_sends := Suc (io_sends io1)\<rparr>) = (outcome, io')"
      using run c by (simp add: Let_def)
    from 1(1) [OF _ c [symmetric] _ refl refl _ this] False is_cancelled_frame [OF c] show ?thesis by simp
  qed
qed

lemma http_open_sockets:
  assumes "http_open os url body io = (outcome, io')"
  shows "io_open_sockets io' = io_open_sockets io + (case outcome of Inl _ \<Rightarrow> 0 | Inr _ \<Rightarrow> 1) \<and>
    io_addrinfos io' = io_addrinfos io \<and> io_recvs io' = io_recvs io"
proof -
  obtain t io1 where t: "clock_now os io = (t, io1)" by fastforce
  show ?thesis
  proof (cases "os_getaddrinfo os (url_host url) (url_port url)")
    case None
    with assms t clock_now_frame [OF t] show ?thesis by (auto simp: http_open_def)
  next
    case (Some addresses)
    obtain out io2 where c: "connect_loop os addresses (io1\<lparr>io_addrinfos := io_addrinfos io1 + 1\<rparr>) = (out, io2)" by fastforce
    obtain sent io3 where s: "send_loop os (length (http_request_text url body)) (freeaddrinfo io2) = (sent, io3)" by fastforce
    from assms t Some c s clock_now_frame [OF t] connect_loop_sockets [OF c] send_loop_sockets [OF s] show ?thesis
      by (cases out; cases sent) (auto simp: http_open_def freeaddrinfo_def close_socket_def)
  qed
qed

lemma recv_call_frame:
  "recv_call os io = (r, io1) \<Longrightarrow> io_open_sockets io1 = io_open_sockets io \<and> io_addrinfos io1 = io_addrinfos io \<and>
     io_recvs io1 = Suc (io_recvs io) \<and> r = os_recv os (io_recvs io)"
  by (auto simp: recv_call_def)

lemma first_byte_frame:
  assumes "first_byte os started response io = (response1, io1)"
  shows "io_open_sockets io1 = io_open_sockets io \<and> io_addrinfos io1 = io_addrinfos io \<and> io_recvs io1 = io_recvs io \<and>
    hr_ok response1 = hr_ok response \<and> hr_error response1 = hr_error response \<and>
    hr_status_code response1 = hr_status_code response \<and> hr_body response1 = hr_body response"
  using assms by (cases "clock_now os io") (auto simp: first_byte_def Let_def split: if_splits dest: clock_now_frame)

definition fresh :: "HttpResponse \<Rightarrow> bool" where
  "fresh response \<longleftrightarrow> \<not> hr_ok response \<and> hr_error response = ''''"

lemma http_error_simps [simp]:
  "hr_ok (http_error m response) = hr_ok response" "hr_error (http_error m response) = m"
  "hr_status_code (http_error m response) = hr_status_code response"
  by (simp_all add: http_error_def)

lemma recv_step_cases:
  assumes "recv_step os started (response, raw, io0) = out"
  obtains (stop) response1 io1 m where "out = Inl (Inl (http_error m response1), close_socket io1)" "m \<noteq> ''''"
      "io_open_sockets io1 = io_open_sockets io0" "io_addrinfos io1 = io_addrinfos io0"
      "hr_ok response1 = hr_ok response"
  | (eof) io1 where "out = Inl (Inr (response, raw), io1)" "os_recv os (io_recvs io0) = RecvEof"
      "io_open_sockets io1 = io_open_sockets io0" "io_addrinfos io1 = io_addrinfos io0"
  | (more) response1 raw1 io1 where "out = Inr (response1, raw1, io1)" "io_recvs io1 = Suc (io_recvs io0)"
      "os_recv os (io_recvs io0) \<noteq> RecvEof" "os_recv os (io_recvs io0) \<noteq> RecvError"
      "io_open_sockets io1 = io_open_sockets io0" "io_addrinfos io1 = io_addrinfos io0"
      "fresh response1 = fresh response"
proof -
  obtain c io1 where c: "is_cancelled os io0 = (c, io1)" by fastforce
  obtain r io2 where r: "recv_call os io1 = (r, io2)" by fastforce
  obtain response1 io3 where f: "first_byte os started response io2 = (response1, io3)" by fastforce
  note frames = is_cancelled_frame [OF c] recv_call_frame [OF r] first_byte_frame [OF f]
  show thesis
  proof (cases c)
    case True
    with assms c frames show ?thesis by (intro stop [of "''cancelled''" response io1]) (auto simp: recv_step_def)
  next
    case False
    show ?thesis
    proof (cases r)
      case (RecvData bytes)
      then have out: "out = (if int (length (raw @ bytes)) > 1024 * 1024
          then Inl (Inl (http_error ''llama server response exceeded 1 MiB'' response1), close_socket io3)
          else Inr (response1, raw @ bytes, io3))"
        using False assms c r f by (auto simp: recv_step_def)
      show ?thesis
      proof (cases "int (length (raw @ bytes)) > 1024 * 1024")
        case True
        with out frames show ?thesis by (intro stop [of "''llama server response exceeded 1 MiB''" response1 io3]) simp_all
      next
        case False
        with out have "out = Inr (response1, raw @ bytes, io3)" by (simp only: if_False)
        with RecvData frames show ?thesis
          by (intro more [of response1 "raw @ bytes" io3]) (auto simp: fresh_def)
      qed
    next
      case RecvEof
      then have "out = Inl (Inr (response, raw), io2)" using False assms c r by (simp add: recv_step_def)
      with RecvEof frames show ?thesis by (intro eof [of io2]) auto
    next
      case RecvInterrupted
      then have "out = Inr (response, raw, io2)" using False assms c r by (simp add: recv_step_def)
      with RecvInterrupted frames show ?thesis by (intro more [of response raw io2]) auto
    next
      case RecvError
      then have "out = Inl (Inl (http_error ''failed to read response from llama server'' response), close_socket io2)"
        using False assms c r by (simp add: recv_step_def)
      with frames show ?thesis by (intro stop [of "''failed to read response from llama server''" response io2]) simp_all
    qed
  qed
qed

lemma recv_loop_spec:
  assumes "recv_loop os started response raw io = Some (out, io')" and "fresh response"
  shows "io_addrinfos io' = io_addrinfos io \<and>
    (case out of
       Inl resp \<Rightarrow> io_open_sockets io' = io_open_sockets io - 1 \<and> \<not> hr_ok resp \<and> hr_error resp \<noteq> ''''
     | Inr (resp, raw') \<Rightarrow> io_open_sockets io' = io_open_sockets io \<and> fresh resp)"
proof -
  define I :: "HttpResponse \<times> string \<times> io \<Rightarrow> bool" where "I = (\<lambda>(resp, raw, i). io_addrinfos i = io_addrinfos io \<and> io_open_sockets i = io_open_sockets io \<and> fresh resp)"
  define Q :: "recv_exit \<Rightarrow> bool" where "Q = (\<lambda>(out, io'). io_addrinfos io' = io_addrinfos io \<and>
    (case out of
       Inl resp \<Rightarrow> io_open_sockets io' = io_open_sockets io - 1 \<and> \<not> hr_ok resp \<and> hr_error resp \<noteq> ''''
     | Inr (resp, raw') \<Rightarrow> io_open_sockets io' = io_open_sockets io \<and> fresh resp))"
  have "Q (out, io')"
  proof (rule iterate_invariant [where I = I and Q = Q])
    show "iterate (recv_step os started) (response, raw, io) = Some (out, io')" using assms(1) by (simp add: recv_loop_def)
    show "I (response, raw, io)" using assms(2) by (simp add: I_def)
    show "I s'" if "I s" "recv_step os started s = Inr s'" for s s'
    proof -
      obtain resp raw1 i where s: "s = (resp, raw1, i)" by (cases s)
      from that(2) [unfolded s] show ?thesis
        by (cases rule: recv_step_cases) (use that(1) s in \<open>auto simp: I_def\<close>)
    qed
    show "Q r" if "I s" "recv_step os started s = Inl r" for s r
    proof -
      obtain resp raw1 i where s: "s = (resp, raw1, i)" by (cases s)
      from that(2) [unfolded s] show ?thesis
        by (cases rule: recv_step_cases) (use that(1) s in \<open>auto simp: I_def Q_def fresh_def close_socket_def\<close>)
    qed
  qed
  then show ?thesis by (simp add: Q_def)
qed

lemma finish_response_spec:
  assumes "fresh response"
  shows "if hr_ok (finish_response response raw)
    then hr_error (finish_response response raw) = '''' \<and> status_ok (hr_status_code (finish_response response raw))
    else hr_error (finish_response response raw) \<noteq> ''''"
  using assms by (auto simp: finish_response_def http_status_error_def fresh_def split: option.splits)

lemma http_open_error:
  "http_open os url body io = (Inl resp, io') \<Longrightarrow> \<not> hr_ok resp \<and> hr_error resp \<noteq> ''''"
  by (auto simp: http_open_def Let_def empty_response_def split: prod.splits option.splits connect_outcome.splits send_outcome.splits)

lemma HttpPostJson_spec:
  assumes "HttpPostJson os url body io = Some (resp, io')"
  shows "io_open_sockets io' = io_open_sockets io \<and> io_addrinfos io' = io_addrinfos io \<and>
    (if hr_ok resp then hr_error resp = '''' \<and> 200 \<le> hr_status_code resp \<and> hr_status_code resp < 300
     else hr_error resp \<noteq> '''')"
proof -
  obtain out io1 where op: "http_open os url body io = (out, io1)" by fastforce
  note op_s = http_open_sockets [OF op]
  show ?thesis
  proof (cases out)
    case (Inl early)
    with assms op op_s http_open_error [of os url body io early io1] show ?thesis
      by (auto simp: HttpPostJson_def)
  next
    case (Inr started)
    then obtain out2 io2 where lp: "recv_loop os started empty_response '''' io1 = Some (out2, io2)"
      using assms op by (auto simp: HttpPostJson_def split: option.splits)
    have fr: "fresh empty_response" by (simp add: fresh_def empty_response_def)
    note spec = recv_loop_spec [OF lp fr]
    show ?thesis
    proof (cases out2)
      case (Inl early)
      with assms op \<open>out = Inr started\<close> lp op_s spec show ?thesis by (auto simp: HttpPostJson_def)
    next
      case (Inr rr)
      obtain resp1 raw where rr: "rr = (resp1, raw)" by fastforce
      with Inr assms op \<open>out = Inr started\<close> lp have "resp = finish_response resp1 raw" "io' = close_socket io2"
        by (auto simp: HttpPostJson_def)
      with Inr rr op_s spec \<open>out = Inr started\<close> finish_response_spec [of resp1 raw] show ?thesis
        by (auto simp: close_socket_def status_ok_def split: if_splits)
    qed
  qed
qed

text \<open>
  C28: Whatever the resolver, the sockets and the cancellation callback do, when \<open>HttpPostJson\<close>
  returns it has closed every socket it opened and freed the resolver's result; its response is a
  success with a status from 200 to 299 and no error, or a failure with an error text.
\<close>

theorem HttpPostJson_safe:
  assumes "HttpPostJson os url body io = Some (resp, io')"
  shows "io_open_sockets io' = io_open_sockets io \<and> io_addrinfos io' = io_addrinfos io \<and>
    (if hr_ok resp then hr_error resp = '''' \<and> 200 \<le> hr_status_code resp \<and> hr_status_code resp < 300
     else hr_error resp \<noteq> '''')"
  using assms by (rule HttpPostJson_spec)

text \<open>A resolver with one address whose connection works, and a server that answers in two pieces.\<close>

definition demo_os :: os where
  "demo_os = \<lparr>os_cancelled = (\<lambda>_. False), os_clock = (\<lambda>n. 1000 * int n), os_getaddrinfo = (\<lambda>_ _. Some [0]),
     os_socket = (\<lambda>_. True),
     os_connect = (\<lambda>_. \<lparr>cc_getfl = 0, cc_setfl = 0, cc_connect = 0, cc_in_progress = False, cc_poll = 0,
       cc_getsockopt = 0, cc_socket_error = 0\<rparr>),
     os_send = (\<lambda>_. 100),
     os_recv = (\<lambda>n. if n = 0 then RecvData (''HTTP/1.1 200 OK'' @ crlf @ crlf) else if n = 1 then RecvData ''body'' else RecvEof)\<rparr>"

lemma demo_post:
  "map_option fst (HttpPostJson demo_os (ParseHttpUrl ''http://h:1/'') ''{}'' io_start) =
     Some \<lparr>hr_ok = True, hr_status_code = 200, hr_first_response_byte_micros = 1, hr_body = ''body'', hr_error = ''''\<rparr>"
  by code_simp

theorem HttpPostJson_safe_witness:
  "\<exists>resp io'. HttpPostJson demo_os (ParseHttpUrl ''http://h:1/'') ''{}'' io_start = Some (resp, io') \<and> io_open_sockets io' = 0"
proof -
  obtain resp io' where "HttpPostJson demo_os (ParseHttpUrl ''http://h:1/'') ''{}'' io_start = Some (resp, io')"
    using demo_post by (cases "HttpPostJson demo_os (ParseHttpUrl ''http://h:1/'') ''{}'' io_start") auto
  with HttpPostJson_safe [OF this] show ?thesis by (simp add: io_start_def)
qed

subsection \<open>The receive loop ends when the connection does\<close>

text \<open>
  If the connection ends or fails at some later \<open>recv\<close>, \<open>HttpPostJson\<close> returns, however many
  pieces and interruptions come before.
\<close>

theorem HttpPostJson_returns:
  assumes "os_recv os n = RecvEof \<or> os_recv os n = RecvError" and "io_recvs io \<le> n"
  shows "\<exists>resp io'. HttpPostJson os url body io = Some (resp, io')"
proof -
  have loop: "\<exists>r. recv_loop os started response raw io1 = Some r" if "io_recvs io1 \<le> n" for started response raw io1
    unfolding recv_loop_def
  proof (rule iterate_returns [where I = "\<lambda>(_, _, i). io_recvs i \<le> n" and m = "\<lambda>(_, _, i). Suc n - io_recvs i"])
    show "case (response, raw, io1) of (_, _, i) \<Rightarrow> io_recvs i \<le> n" using that by simp
    fix s s' :: "HttpResponse \<times> string \<times> io"
    assume s: "case s of (_, _, i) \<Rightarrow> io_recvs i \<le> n" and step: "recv_step os started s = Inr s'"
    obtain resp raw1 i where eq: "s = (resp, raw1, i)" by (cases s)
    from step [unfolded eq] show "(case s' of (_, _, i) \<Rightarrow> io_recvs i \<le> n) \<and>
        (case s' of (_, _, i) \<Rightarrow> Suc n - io_recvs i) < (case s of (_, _, i) \<Rightarrow> Suc n - io_recvs i)"
    proof (cases rule: recv_step_cases)
      case (more response1 raw2 i1)
      then have "io_recvs i \<noteq> n" using assms(1) by auto
      with more s eq show ?thesis by auto
    qed simp_all
  qed
  obtain out io1 where op: "http_open os url body io = (out, io1)" by fastforce
  with http_open_sockets [OF op] assms(2) have "io_recvs io1 \<le> n" by simp
  note loop1 = loop [OF this]
  show ?thesis
  proof (cases out)
    case (Inl early)
    with op show ?thesis by (simp add: HttpPostJson_def)
  next
    case (Inr started)
    obtain out2 io2 where "recv_loop os started empty_response '''' io1 = Some (out2, io2)"
      using loop1 [of started empty_response "''''"] by auto
    with op Inr show ?thesis by (cases out2) (auto simp: HttpPostJson_def)
  qed
qed

theorem HttpPostJson_returns_witness:
  "\<exists>resp io'. HttpPostJson demo_os (ParseHttpUrl ''http://h:1/'') ''{}'' io_start = Some (resp, io')"
  using HttpPostJson_returns [of demo_os 2 io_start] by (simp add: demo_os_def io_start_def)

end
