(* ===== verification/Http_Stream.thy ===== *)
theory Http_Stream
  imports Llama_Http
begin

text \<open>
  What \<open>HttpPostJsonStream\<close> guarantees to its caller: every socket is closed, a response without error is a success,
  and the body callback is called on its own results only, until it refuses. The callback is arbitrary; \<open>keeps\<close> is an
  invariant it keeps when it accepts and \<open>breaks\<close> what holds after it refused.
\<close>

definition stream_fresh :: "stream_recv \<Rightarrow> bool" where
  "stream_fresh r \<longleftrightarrow> hr_error (sr_response r) = '''' \<and>
     (hr_ok (sr_response r) \<longleftrightarrow> sr_headers_parsed r \<and> status_ok (hr_status_code (sr_response r)))"

lemma stream_data_callback:
  assumes "stream_data cb bytes r s = (out, s1)"
  shows "s1 = s \<or> (\<exists>piece. cb piece s = (True, s1)) \<or>
    (\<exists>piece response. cb piece s = (False, s1) \<and> out = Inl response \<and> hr_error response = ''cancelled'')"
  using assms
  by (auto simp: stream_data_def Let_def split: if_splits option.splits prod.splits bool.splits)

lemma stream_data_response:
  assumes "stream_data cb bytes r s = (out, s1)" and "stream_fresh r"
  shows "case out of Inl response \<Rightarrow> hr_error response \<noteq> '''' | Inr r1 \<Rightarrow> stream_fresh r1"
  using assms
  by (auto simp: stream_data_def stream_fresh_def Let_def split: if_splits option.splits prod.splits bool.splits)

locale body_callback =
  fixes cb :: "string \<Rightarrow> 's \<Rightarrow> bool \<times> 's" and keeps :: "'s \<Rightarrow> bool" and breaks :: "'s \<Rightarrow> bool"
  assumes accepts: "keeps s \<Longrightarrow> cb piece s = (True, s1) \<Longrightarrow> keeps s1"
    and refuses: "keeps s \<Longrightarrow> cb piece s = (False, s1) \<Longrightarrow> breaks s1"
begin

definition looping :: "io \<Rightarrow> stream_recv \<times> 's \<times> io \<Rightarrow> bool" where
  "looping io = (\<lambda>(r, s, i). stream_fresh r \<and> keeps s \<and> io_addrinfos i = io_addrinfos io \<and> io_open_sockets i = io_open_sockets io)"

definition stopped :: "io \<Rightarrow> (HttpResponse + stream_recv) \<times> 's \<times> io \<Rightarrow> bool" where
  "stopped io = (\<lambda>(out, s, i). io_addrinfos i = io_addrinfos io \<and>
     (case out of
        Inl response \<Rightarrow> io_open_sockets i = io_open_sockets io - 1 \<and> hr_error response \<noteq> '''' \<and>
          (keeps s \<or> breaks s \<and> hr_error response = ''cancelled'')
      | Inr r \<Rightarrow> io_open_sockets i = io_open_sockets io \<and> stream_fresh r \<and> keeps s))"

lemma stream_step_spec:
  assumes "looping io (r, s, i)"
  shows "case stream_step os cb started (r, s, i) of Inr x \<Rightarrow> looping io x | Inl y \<Rightarrow> stopped io y"
proof -
  obtain c i1 where c: "is_cancelled os i = (c, i1)" by fastforce
  obtain x i2 where x: "recv_call os i1 = (x, i2)" by fastforce
  obtain response1 i3 where f: "first_byte os started (sr_response r) i2 = (response1, i3)" by fastforce
  have frames: "io_open_sockets i1 = io_open_sockets i" "io_addrinfos i1 = io_addrinfos i"
    "io_open_sockets i2 = io_open_sockets i" "io_addrinfos i2 = io_addrinfos i"
    "io_open_sockets i3 = io_open_sockets i" "io_addrinfos i3 = io_addrinfos i"
    "hr_error response1 = hr_error (sr_response r)" "hr_ok response1 = hr_ok (sr_response r)"
    "hr_status_code response1 = hr_status_code (sr_response r)"
    using is_cancelled_frame [OF c] recv_call_frame [OF x] first_byte_frame [OF f] by auto
  show ?thesis
  proof (cases "c \<or> (\<nexists>bytes. x = RecvData bytes)")
    case True
    with assms c x frames show ?thesis
      by (cases x) (auto simp: stream_step_def looping_def stopped_def close_socket_def)
  next
    case False
    then obtain bytes where b: "x = RecvData bytes" by blast
    obtain out s1 where d: "stream_data cb bytes (r\<lparr>sr_response := response1\<rparr>) s = (out, s1)" by fastforce
    have "stream_fresh (r\<lparr>sr_response := response1\<rparr>)" using assms frames by (simp add: looping_def stream_fresh_def)
    note resp = stream_data_response [OF d this]
    have "keeps s" using assms by (simp add: looping_def)
    with stream_data_callback [OF d] accepts refuses
    have "keeps s1 \<or> breaks s1 \<and> (\<exists>response. out = Inl response \<and> hr_error response = ''cancelled'')" by blast
    with False b c x f d resp assms frames show ?thesis
      by (cases out) (auto simp: stream_step_def looping_def stopped_def close_socket_def)
  qed
qed

lemma stream_loop_spec:
  assumes "stream_loop os cb started r s io = Some out" and "stream_fresh r" and "keeps s"
  shows "stopped io out"
  using assms(1) [unfolded stream_loop_def]
proof (rule iterate_invariant [where I = "looping io"])
  fix x y
  assume "looping io x"
  then show "stream_step os cb started x = Inr y \<Longrightarrow> looping io y"
    using stream_step_spec [of io "fst x" "fst (snd x)" "snd (snd x)" os started] by simp
next
  fix x y
  assume "looping io x"
  then show "stream_step os cb started x = Inl y \<Longrightarrow> stopped io y"
    using stream_step_spec [of io "fst x" "fst (snd x)" "snd (snd x)" os started] by simp
qed (use assms(2,3) in \<open>simp add: looping_def\<close>)

lemma HttpPostJsonStream_spec:
  assumes "HttpPostJsonStream os url body cb s io = Some (response, s', io')" and "keeps s"
  shows "io_open_sockets io' = io_open_sockets io \<and> io_addrinfos io' = io_addrinfos io \<and>
    (keeps s' \<or> breaks s' \<and> hr_error response = ''cancelled'') \<and>
    (hr_error response = '''' \<longrightarrow> hr_ok response \<and> 200 \<le> hr_status_code response \<and> hr_status_code response < 300)"
proof -
  obtain out io1 where op: "http_open os url body io = (out, io1)" by fastforce
  note op_s = http_open_sockets [OF op]
  show ?thesis
  proof (cases out)
    case (Inl early)
    with assms op op_s http_open_error [of os url body io early io1] show ?thesis
      by (auto simp: HttpPostJsonStream_def)
  next
    case (Inr started)
    let ?r0 = "\<lparr>sr_response = empty_response, sr_headers_parsed = False, sr_buffered = ''''\<rparr>"
    obtain out2 s2 io2 where lp: "stream_loop os cb started ?r0 s io1 = Some (out2, s2, io2)"
      using assms(1) op Inr by (auto simp: HttpPostJsonStream_def split: option.splits)
    have "stopped io1 (out2, s2, io2)"
      by (rule stream_loop_spec [OF lp _ assms(2)]) (simp add: stream_fresh_def empty_response_def)
    then have st: "io_addrinfos io2 = io_addrinfos io1" "case out2 of
        Inl resp \<Rightarrow> io_open_sockets io2 = io_open_sockets io1 - 1 \<and> hr_error resp \<noteq> '''' \<and> (keeps s2 \<or> breaks s2 \<and> hr_error resp = ''cancelled'')
      | Inr r \<Rightarrow> io_open_sockets io2 = io_open_sockets io1 \<and> stream_fresh r \<and> keeps s2"
      by (auto simp: stopped_def)
    show ?thesis
    proof (cases out2)
      case (Inl resp)
      then have "response = resp" "s' = s2" "io' = io2"
        using assms(1) op \<open>out = Inr started\<close> lp by (auto simp: HttpPostJsonStream_def)
      with Inl st op_s \<open>out = Inr started\<close> show ?thesis by simp
    next
      case (Inr r)
      have "response = (if \<not> sr_headers_parsed r then http_error ''llama server response was missing HTTP headers'' (sr_response r)
          else http_status_error (sr_response r))" "s' = s2" "io' = close_socket io2"
        using assms(1) op \<open>out = Inr started\<close> lp Inr by (auto simp: HttpPostJsonStream_def)
      with Inr st op_s \<open>out = Inr started\<close> show ?thesis
        by (simp add: close_socket_def stream_fresh_def http_status_error_def status_ok_def)
    qed
  qed
qed

end

text \<open>Every callback keeps the trivial invariant.\<close>

interpretation any_callback: body_callback cb "\<lambda>_. True" "\<lambda>_. True" for cb
  by unfold_locales simp_all

text \<open>
  Whatever the resolver, the sockets, the cancellation callback and the body callback do, when
  \<open>HttpPostJsonStream\<close> returns it has closed every socket it opened and freed the resolver's result, and a response
  without an error is a success with a status from 200 to 299.
\<close>

theorem HttpPostJsonStream_safe:
  assumes "HttpPostJsonStream os url body cb s io = Some (response, s', io')"
  shows "io_open_sockets io' = io_open_sockets io \<and> io_addrinfos io' = io_addrinfos io \<and>
    (hr_error response = '''' \<longrightarrow> hr_ok response \<and> 200 \<le> hr_status_code response \<and> hr_status_code response < 300)"
  using any_callback.HttpPostJsonStream_spec [OF assms] by simp

lemma demo_stream:
  "map_option (\<lambda>(response, s, io). (hr_ok response, s))
     (HttpPostJsonStream demo_os (ParseHttpUrl ''http://h:1/'') ''{}'' (\<lambda>piece s. (True, s @ piece)) '''' io_start) = Some (True, ''body'')"
  by code_simp

theorem HttpPostJsonStream_safe_witness:
  "\<exists>response s' io'. HttpPostJsonStream demo_os (ParseHttpUrl ''http://h:1/'') ''{}'' (\<lambda>piece s. (True, s @ piece)) '''' io_start =
     Some (response, s', io') \<and> io_open_sockets io' = 0"
proof -
  obtain response s' io' where
    "HttpPostJsonStream demo_os (ParseHttpUrl ''http://h:1/'') ''{}'' (\<lambda>piece s. (True, s @ piece)) '''' io_start = Some (response, s', io')"
    using demo_stream by (cases "HttpPostJsonStream demo_os (ParseHttpUrl ''http://h:1/'') ''{}'' (\<lambda>piece s. (True, s @ piece)) '''' io_start") auto
  with HttpPostJsonStream_safe [OF this] show ?thesis by (simp add: io_start_def)
qed

end
