(* ===== verification/Http_Equiv.thy ===== *)
theory Http_Equiv
  imports Http_Stream
begin

text \<open>
  The two HTTP clients agree: for a server that lets \<open>HttpPostJson\<close> succeed, \<open>HttpPostJsonStream\<close> makes the same
  calls, and the pieces it hands to an accepting callback are the body \<open>HttpPostJson\<close> returns, cut somehow. The only
  exception is its own limit on the length of the headers.
\<close>

subsection \<open>Searching in growing texts\<close>

lemma str_find_length: "str_find key s = Some h \<Longrightarrow> h + length key \<le> length s"
proof (induction s arbitrary: h)
  case (Cons c cs)
  show ?case
  proof (cases "take (length key) (c # cs) = key")
    case True
    with Cons.prems have "h = 0" by simp
    with arg_cong [OF True, of length] show ?thesis by simp
  next
    case False
    with Cons.prems obtain h' where "str_find key cs = Some h'" "h = Suc h'" by auto
    with Cons.IH [of h'] show ?thesis by simp
  qed
qed (auto split: if_splits)

lemma str_find_append:
  assumes "str_find key s = Some h"
  shows "str_find key (s @ t) = Some h"
  using assms
proof (induction s arbitrary: h)
  case Nil
  then show ?case by (cases t) (auto split: if_splits)
next
  case (Cons c cs)
  have "length key \<le> length (c # cs)" using str_find_length [OF Cons.prems] by simp
  then have eq: "take (length key) ((c # cs) @ t) = take (length key) (c # cs)" by (simp del: append_Cons take_Suc_Cons)
  show ?case
  proof (cases "take (length key) (c # cs) = key")
    case True
    with eq Cons.prems show ?thesis by simp
  next
    case False
    with Cons.prems obtain h' where "str_find key cs = Some h'" "h = Suc h'" by auto
    with Cons.IH [of h'] eq False show ?thesis by simp
  qed
qed

lemma str_find_prefix_key: "str_find (k1 @ k2) s = Some h \<Longrightarrow> \<exists>n. str_find k1 s = Some n"
proof (induction s arbitrary: h)
  case (Cons c cs)
  show ?case
  proof (cases "take (length (k1 @ k2)) (c # cs) = k1 @ k2")
    case True
    then have "take (length k1) (c # cs) = k1"
      by (metis append_eq_conv_conj length_append le_add1 min.absorb1 take_take)
    then show ?thesis by simp
  next
    case False
    with Cons.prems obtain h' where "str_find (k1 @ k2) cs = Some h'" by auto
    with Cons.IH show ?thesis by auto
  qed
qed (auto split: if_splits)

lemma status_line_append:
  assumes "str_find (crlf @ crlf) raw = Some h"
  shows "status_line (raw @ rest) = status_line raw"
proof -
  obtain n where n: "str_find crlf raw = Some n" using str_find_prefix_key [OF assms] ..
  then have "n \<le> length raw" using str_find_length by fastforce
  with n str_find_append [OF n, of rest] show ?thesis by (simp add: status_line_def)
qed

subsection \<open>The loops in step\<close>

fun feed :: "(string \<Rightarrow> 's \<Rightarrow> bool \<times> 's) \<Rightarrow> string list \<Rightarrow> 's \<Rightarrow> bool \<times> 's" where
  "feed cb [] s = (True, s)"
| "feed cb (piece # pieces) s = (case cb piece s of (True, s1) \<Rightarrow> feed cb pieces s1 | (False, s1) \<Rightarrow> (False, s1))"

lemma feed_snoc:
  assumes "\<And>piece s. fst (cb piece s)"
  shows "feed cb (pieces @ [piece]) s = cb piece (snd (feed cb pieces s))"
proof (induction pieces arbitrary: s)
  case Nil
  then show ?case using assms [of piece s] by (cases "cb piece s") (auto split: bool.splits)
next
  case (Cons p ps)
  then show ?case using assms [of p s] by (cases "cb p s") auto
qed

text \<open>A state of the collecting loop and a state of the streaming loop after the same calls.\<close>

definition in_step :: "(string \<Rightarrow> 's \<Rightarrow> bool \<times> 's) \<Rightarrow> 's \<Rightarrow> HttpResponse \<times> string \<times> io \<Rightarrow> stream_recv \<times> 's \<times> io \<Rightarrow> bool" where
  "in_step cb s0 = (\<lambda>(response, raw, io) (r, s, io').
     io' = io \<and> stream_fresh r \<and> hr_first_response_byte_micros (sr_response r) = hr_first_response_byte_micros response \<and>
     (if sr_headers_parsed r
      then \<exists>h pieces. str_find (crlf @ crlf) raw = Some h \<and> hr_status_code (sr_response r) = parse_status (status_line raw) \<and>
        status_ok (parse_status (status_line raw)) \<and> concat pieces = drop (h + 4) raw \<and> s = snd (feed cb pieces s0)
      else str_find (crlf @ crlf) raw = None \<and> sr_buffered r = raw \<and> s = s0))"

lemma recv_loop_extends:
  assumes "iterate (recv_step os started) (response, raw, io) = Some (Inr (response', raw'), io')"
  shows "\<exists>rest. raw' = raw @ rest"
proof -
  have "case (Inr (response', raw') :: HttpResponse + HttpResponse \<times> string, io') of
      (Inr (_, final), _) \<Rightarrow> \<exists>rest. final = raw @ rest | _ \<Rightarrow> True"
    using assms
  proof (rule iterate_invariant [where I = "\<lambda>(_, now, _). \<exists>rest. now = raw @ rest"])
    show "case (response, raw, io) of (_, now, _) \<Rightarrow> \<exists>rest. now = raw @ rest" by simp
  qed (auto simp: recv_step_def Let_def split: prod.splits if_splits recv_result.splits sum.splits)
  then show ?thesis by simp
qed

lemma first_byte_same:
  assumes "hr_first_response_byte_micros r1 = hr_first_response_byte_micros r2"
  shows "snd (first_byte os started r1 io) = snd (first_byte os started r2 io)"
    and "hr_first_response_byte_micros (fst (first_byte os started r1 io)) = hr_first_response_byte_micros (fst (first_byte os started r2 io))"
  using assms by (auto simp: first_byte_def Let_def split: prod.splits)

lemma crlf_length [simp]: "length crlf = 2"
  by (simp add: crlf_def)

text \<open>The streaming loop stops with the limit on headers, or at the end of a body that was all fed to the callback.\<close>

definition streamed_body :: "(string \<Rightarrow> 's \<Rightarrow> bool \<times> 's) \<Rightarrow> 's \<Rightarrow> HttpResponse \<Rightarrow> string \<Rightarrow> io \<Rightarrow> (HttpResponse + stream_recv) \<times> 's \<times> io \<Rightarrow> bool" where
  "streamed_body cb s0 response raw io = (\<lambda>(out, s, io').
     (\<exists>early. out = Inl early \<and> \<not> hr_ok early \<and> hr_error early = ''llama server response headers exceeded 64 KiB'') \<or>
     (\<exists>r h pieces. out = Inr r \<and> io' = io \<and> stream_fresh r \<and> hr_ok (sr_response r) \<and>
        hr_first_response_byte_micros (sr_response r) = hr_first_response_byte_micros response \<and>
        str_find (crlf @ crlf) raw = Some h \<and> concat pieces = drop (h + 4) raw \<and> s = snd (feed cb pieces s0)))"

lemma stream_data_in_step:
  assumes step: "in_step cb s0 (response, raw, i) (r, s, i)" and cb: "\<And>piece s. fst (cb piece s)"
    and ok: "\<And>h. str_find (crlf @ crlf) (raw @ bytes) = Some h \<Longrightarrow> status_ok (parse_status (status_line (raw @ bytes)))"
    and r1: "stream_fresh (r\<lparr>sr_response := response2\<rparr>)"
      "hr_first_response_byte_micros response2 = hr_first_response_byte_micros response1"
      "hr_status_code response2 = hr_status_code (sr_response r)"
  shows "case stream_data cb bytes (r\<lparr>sr_response := response2\<rparr>) s of
      (Inr r', s') \<Rightarrow> in_step cb s0 (response1, raw @ bytes, i') (r', s', i')
    | (Inl early, s') \<Rightarrow> \<not> hr_ok early \<and> hr_error early = ''llama server response headers exceeded 64 KiB''"
proof (cases "sr_headers_parsed r")
  case True
  with step obtain h pieces where h: "str_find (crlf @ crlf) raw = Some h"
    "hr_status_code (sr_response r) = parse_status (status_line raw)" "status_ok (parse_status (status_line raw))"
    "concat pieces = drop (h + 4) raw" "s = snd (feed cb pieces s0)"
    by (auto simp: in_step_def)
  obtain s1 where s1: "cb bytes s = (True, s1)" using cb [of bytes s] by (cases "cb bytes s") auto
  have "h + 4 \<le> length raw" using str_find_length [OF h(1)] by simp
  then have "concat (pieces @ [bytes]) = drop (h + 4) (raw @ bytes)" using h(4) by simp
  moreover have "s1 = snd (feed cb (pieces @ [bytes]) s0)" using feed_snoc [of cb pieces bytes s0] cb s1 h(5) by simp
  moreover have "hr_ok response2" using True r1 h(2,3) by (simp add: stream_fresh_def)
  ultimately show ?thesis
    using True s1 r1 h status_line_append [OF h(1), of bytes] str_find_append [OF h(1), of bytes]
    by (auto simp: stream_data_def in_step_def intro!: exI [of _ "pieces @ [bytes]"])
next
  case False
  with step have raw: "sr_buffered r = raw" "s = s0" by (auto simp: in_step_def)
  show ?thesis
  proof (cases "str_find (crlf @ crlf) (raw @ bytes)")
    case None
    with False raw r1 show ?thesis by (simp add: stream_data_def in_step_def stream_fresh_def)
  next
    case (Some h)
    define piece where "piece = drop (h + 4) (raw @ bytes)"
    obtain s1 where s1: "cb piece s0 = (True, s1)" using cb [of piece s0] by (cases "cb piece s0") auto
    have ex: "\<exists>pieces. concat pieces = piece \<and> (if piece = '''' then s0 else s1) = snd (feed cb pieces s0)"
    proof (cases "piece = ''''")
      case True
      then show ?thesis by (intro exI [of _ "[]"]) simp
    next
      case False
      then show ?thesis using s1 by (intro exI [of _ "[piece]"]) simp
    qed
    let ?r = "\<lparr>sr_response = response2\<lparr>hr_status_code := parse_status (status_line (raw @ bytes)), hr_ok := True\<rparr>,
      sr_headers_parsed = True, sr_buffered = ''''\<rparr>"
    have "stream_data cb bytes (r\<lparr>sr_response := response2\<rparr>) s = (Inr ?r, if piece = '''' then s0 else s1)"
      using False raw Some s1 ok [OF Some] by (simp add: stream_data_def Let_def piece_def [symmetric] del: drop_append drop_eq_Nil)
    moreover have "in_step cb s0 (response1, raw @ bytes, i') (?r, if piece = '''' then s0 else s1, i')"
      using Some ex r1 ok [OF Some] by (simp add: in_step_def stream_fresh_def piece_def [symmetric] del: drop_append)
    ultimately show ?thesis by simp
  qed
qed

lemma streams_in_step:
  assumes loop: "iterate (recv_step os started) (response, raw, io) = Some (Inr (response', raw'), io')"
    and good: "str_find (crlf @ crlf) raw' = Some hf" "status_ok (parse_status (status_line raw'))"
    and cb: "\<And>piece s. fst (cb piece s)"
    and start: "in_step cb s0 (response, raw, io) (r, s, io)"
  shows "\<exists>q. iterate (stream_step os cb started) (r, s, io) = Some q \<and> streamed_body cb s0 response' raw' io' q"
proof (rule iterate_simulation [where R = "in_step cb s0", OF loop start])
  fix a t a'
  assume rel: "in_step cb s0 a t" and step: "recv_step os started a = Inr a'"
    and rest: "iterate (recv_step os started) a' = Some (Inr (response', raw'), io')"
  obtain resp now i r2 s2 where a: "a = (resp, now, i)" and t: "t = (r2, s2, i)"
    using rel by (cases a; cases t) (auto simp: in_step_def)
  obtain i1 where c: "is_cancelled os i = (False, i1)" using step a by (cases "is_cancelled os i") (auto simp: recv_step_def split: if_splits)
  obtain x i2 where x: "recv_call os i1 = (x, i2)" by fastforce
  obtain resp1 i3 where f: "first_byte os started resp i2 = (resp1, i3)" by fastforce
  obtain resp2 j3 where f2: "first_byte os started (sr_response r2) i2 = (resp2, j3)" by fastforce
  have same: "j3 = i3" "hr_first_response_byte_micros resp2 = hr_first_response_byte_micros resp1"
    using first_byte_same [of resp "sr_response r2" os started i2] rel f f2 by (auto simp: a t in_step_def)
  have fresh2: "stream_fresh (r2\<lparr>sr_response := resp2\<rparr>)" "hr_status_code resp2 = hr_status_code (sr_response r2)"
    using first_byte_frame [OF f2] rel by (auto simp: t a in_step_def stream_fresh_def)
  show "(\<exists>t'. stream_step os cb started t = Inr t' \<and> in_step cb s0 a' t') \<or>
      (\<exists>q. stream_step os cb started t = Inl q \<and> streamed_body cb s0 response' raw' io' q)"
  proof (cases x)
    case (RecvData bytes)
    then have a': "a' = (resp1, now @ bytes, i3)"
      using step a c x f by (auto simp: recv_step_def split: if_splits)
    obtain tail where tail: "raw' = (now @ bytes) @ tail" using recv_loop_extends rest a' by blast
    have "status_ok (parse_status (status_line (now @ bytes)))" if "str_find (crlf @ crlf) (now @ bytes) = Some h" for h
      using status_line_append [OF that, of tail] good(2) tail by simp
    note data = stream_data_in_step [where i' = i3, OF rel [unfolded a t] cb this fresh2(1) same(2) fresh2(2)]
    obtain out s3 where d: "stream_data cb bytes (r2\<lparr>sr_response := resp2\<rparr>) s2 = (out, s3)" by fastforce
    with RecvData c x f2 same(1) data show ?thesis
      by (cases out) (auto simp: stream_step_def t a' streamed_body_def)
  next
    case RecvInterrupted
    then have "a' = (resp, now, i2)" using step a c x by (simp add: recv_step_def)
    with RecvInterrupted c x rel show ?thesis by (auto simp: stream_step_def t a in_step_def)
  qed (use step a c x in \<open>simp_all add: recv_step_def\<close>)
next
  fix a t
  assume rel: "in_step cb s0 a t" and stop: "recv_step os started a = Inl (Inr (response', raw'), io')"
  obtain resp now i r2 s2 where a: "a = (resp, now, i)" and t: "t = (r2, s2, i)"
    using rel by (cases a; cases t) (auto simp: in_step_def)
  obtain i1 where c: "is_cancelled os i = (False, i1)" using stop a by (cases "is_cancelled os i") (auto simp: recv_step_def split: if_splits)
  obtain x i2 where x: "recv_call os i1 = (x, i2)" by fastforce
  have "x = RecvEof" using stop a c x by (auto simp: recv_step_def Let_def split: recv_result.splits prod.splits if_splits)
  then have eq: "resp = response'" "now = raw'" "i2 = io'" "stream_step os cb started t = Inl (Inr r2, s2, i2)"
    using stop a c x by (auto simp: recv_step_def stream_step_def t)
  moreover have "streamed_body cb s0 response' raw' io' (Inr r2, s2, i2)"
    using rel good eq by (auto simp: streamed_body_def in_step_def a t stream_fresh_def split: if_splits)
  ultimately show "\<exists>q. stream_step os cb started t = Inl q \<and> streamed_body cb s0 response' raw' io' q" by blast
qed

lemma HttpPostJsonStream_same_body:
  assumes post: "HttpPostJson os url body io = Some (response, io')" and ok: "hr_ok response" and cb: "\<And>piece s. fst (cb piece s)"
  obtains (headers) response1 s1 io1 where "HttpPostJsonStream os url body cb s0 io = Some (response1, s1, io1)"
      and "\<not> hr_ok response1" and "hr_error response1 = ''llama server response headers exceeded 64 KiB''"
  | (same) response1 pieces where "HttpPostJsonStream os url body cb s0 io = Some (response1, snd (feed cb pieces s0), io')"
      and "hr_ok response1" and "hr_error response1 = ''''" and "concat pieces = hr_body response"
      and "hr_first_response_byte_micros response1 = hr_first_response_byte_micros response"
proof -
  obtain out io1 where op: "http_open os url body io = (out, io1)" by fastforce
  obtain started where started: "out = Inr started"
    using post ok op http_open_error [of os url body io] by (cases out) (auto simp: HttpPostJson_def)
  obtain out2 io2 where lp: "recv_loop os started empty_response '''' io1 = Some (out2, io2)"
    using post op started by (auto simp: HttpPostJson_def split: option.splits)
  have fresh: "fresh empty_response" by (simp add: fresh_def empty_response_def)
  obtain resp raw where out2: "out2 = Inr (resp, raw)"
    using recv_loop_spec [OF lp fresh] post ok op started lp by (cases out2) (auto simp: HttpPostJson_def)
  have resp: "response = finish_response resp raw" "io' = close_socket io2" "fresh resp"
    using recv_loop_spec [OF lp fresh] post op started lp out2 by (auto simp: HttpPostJson_def)
  obtain h where h: "str_find (crlf @ crlf) raw = Some h" "status_ok (parse_status (status_line raw))"
    "hr_body response = drop (h + 4) raw" "hr_first_response_byte_micros response = hr_first_response_byte_micros resp"
    using resp(1,3) ok by (auto simp: finish_response_def http_status_error_def fresh_def http_error_def split: option.splits if_splits)
  let ?r0 = "\<lparr>sr_response = empty_response, sr_headers_parsed = False, sr_buffered = ''''\<rparr>"
  have "in_step cb s0 (empty_response, '''', io1) (?r0, s0, io1)"
    by (simp add: in_step_def stream_fresh_def empty_response_def crlf_def)
  from streams_in_step [OF lp [unfolded recv_loop_def out2] h(1,2) cb this]
  obtain q where q: "stream_loop os cb started ?r0 s0 io1 = Some q" "streamed_body cb s0 resp raw io2 q"
    by (auto simp: stream_loop_def)
  obtain out3 s3 io3 where q3: "q = (out3, s3, io3)" by (cases q)
  show ?thesis
  proof (cases out3)
    case (Inl early)
    with q q3 op started show ?thesis by (intro headers) (auto simp: HttpPostJsonStream_def streamed_body_def)
  next
    case (Inr r)
    with q(2) q3 h obtain pieces where p: "io3 = io2" "stream_fresh r" "hr_ok (sr_response r)"
      "hr_first_response_byte_micros (sr_response r) = hr_first_response_byte_micros resp"
      "concat pieces = drop (h + 4) raw" "s3 = snd (feed cb pieces s0)" by (auto simp: streamed_body_def)
    show ?thesis
    proof (rule same)
      show "HttpPostJsonStream os url body cb s0 io = Some (sr_response r, snd (feed cb pieces s0), io')"
        using op started q(1) q3 Inr p resp(2) by (simp add: HttpPostJsonStream_def stream_fresh_def http_status_error_def)
    qed (use p h in \<open>auto simp: stream_fresh_def\<close>)
  qed
qed

subsection \<open>Headers within the limit\<close>

text \<open>What the calls of \<open>recv\<close> from the \<open>n\<close>-th up to before the \<open>m\<close>-th deliver.\<close>

definition received :: "'a os_scheme \<Rightarrow> nat \<Rightarrow> nat \<Rightarrow> string" where
  "received os n m = concat (map (\<lambda>k. case os_recv os k of RecvData bytes \<Rightarrow> bytes | _ \<Rightarrow> '''') [n..<m])"

text \<open>A server that sends no more than 64 KiB before the end of its headers, from the \<open>n\<close>-th \<open>recv\<close> on.\<close>

definition headers_fit :: "'a os_scheme \<Rightarrow> nat \<Rightarrow> bool" where
  "headers_fit os n \<longleftrightarrow> (\<forall>m. str_find (crlf @ crlf) (received os n m) = None \<longrightarrow> length (received os n m) \<le> 64 * 1024)"

lemma received_Suc:
  "n \<le> m \<Longrightarrow> received os n (Suc m) = received os n m @ (case os_recv os m of RecvData bytes \<Rightarrow> bytes | _ \<Rightarrow> '''')"
  by (simp add: received_def)

definition buffers_received :: "'a os_scheme \<Rightarrow> nat \<Rightarrow> stream_recv \<times> 's \<times> io \<Rightarrow> bool" where
  "buffers_received os n = (\<lambda>(r, s, i). n \<le> io_recvs i \<and> hr_error (sr_response r) = '''' \<and>
     (sr_headers_parsed r \<or> sr_buffered r = received os n (io_recvs i)))"

lemma stream_data_fits:
  assumes "stream_data cb bytes r s = (out, s1)" and "hr_error (sr_response r) = ''''"
    and "sr_headers_parsed r \<or> sr_buffered r @ bytes = all" and "str_find (crlf @ crlf) all = None \<longrightarrow> length all \<le> 64 * 1024"
  shows "case out of Inl early \<Rightarrow> hr_error early \<noteq> ''llama server response headers exceeded 64 KiB''
    | Inr r1 \<Rightarrow> hr_error (sr_response r1) = '''' \<and> (sr_headers_parsed r1 \<or> sr_buffered r1 = all)"
  using assms
  by (auto simp: stream_data_def http_error_def Let_def split: if_splits option.splits prod.splits bool.splits)

lemma stream_step_fits:
  assumes fit: "headers_fit os n" and inv: "buffers_received os n (r, s, i)"
  shows "case stream_step os cb started (r, s, i) of Inr x \<Rightarrow> buffers_received os n x
    | Inl (Inl early, _) \<Rightarrow> hr_error early \<noteq> ''llama server response headers exceeded 64 KiB''
    | Inl (Inr r1, _) \<Rightarrow> hr_error (sr_response r1) = ''''"
proof -
  obtain c i1 where c: "is_cancelled os i = (c, i1)" by fastforce
  obtain x i2 where x: "recv_call os i1 = (x, i2)" by fastforce
  obtain response1 i3 where f: "first_byte os started (sr_response r) i2 = (response1, i3)" by fastforce
  have frames: "io_recvs i1 = io_recvs i" "io_recvs i2 = Suc (io_recvs i)" "io_recvs i3 = Suc (io_recvs i)"
    "x = os_recv os (io_recvs i)" "hr_error response1 = hr_error (sr_response r)"
    using is_cancelled_frame [OF c] recv_call_frame [OF x] first_byte_frame [OF f] by auto
  have n: "n \<le> io_recvs i" using inv by (simp add: buffers_received_def)
  show ?thesis
  proof (cases "c \<or> (\<nexists>bytes. x = RecvData bytes)")
    case True
    have "received os n (Suc (io_recvs i)) = received os n (io_recvs i)" if "\<nexists>bytes. x = RecvData bytes"
      using received_Suc [OF n, of os] that frames(4) by (auto split: recv_result.splits)
    with True inv c x frames(1,2) show ?thesis
      by (cases x) (auto simp: stream_step_def buffers_received_def http_error_def)
  next
    case False
    then obtain bytes where b: "x = RecvData bytes" by blast
    obtain out s1 where d: "stream_data cb bytes (r\<lparr>sr_response := response1\<rparr>) s = (out, s1)" by fastforce
    have all: "sr_headers_parsed r \<or> sr_buffered r @ bytes = received os n (Suc (io_recvs i))"
      using received_Suc [OF n, of os] b frames(4) inv by (auto simp: buffers_received_def split: recv_result.splits)
    have "case out of Inl early \<Rightarrow> hr_error early \<noteq> ''llama server response headers exceeded 64 KiB''
      | Inr r1 \<Rightarrow> hr_error (sr_response r1) = '''' \<and> (sr_headers_parsed r1 \<or> sr_buffered r1 = received os n (Suc (io_recvs i)))"
    proof (rule stream_data_fits [OF d])
      show "str_find (crlf @ crlf) (received os n (Suc (io_recvs i))) = None \<longrightarrow> length (received os n (Suc (io_recvs i))) \<le> 64 * 1024"
        using fit unfolding headers_fit_def by blast
    qed (use all inv frames(5) in \<open>simp_all add: buffers_received_def\<close>)
    with False b c x f d n frames show ?thesis
      by (cases out) (auto simp: stream_step_def buffers_received_def)
  qed
qed

lemma HttpPostJsonStream_headers_fit:
  assumes run: "HttpPostJsonStream os url body cb s io = Some (response, s', io')" and fit: "headers_fit os (io_recvs io)"
  shows "hr_error response \<noteq> ''llama server response headers exceeded 64 KiB''"
proof -
  obtain out io1 where op: "http_open os url body io = (out, io1)" by fastforce
  show ?thesis
  proof (cases out)
    case (Inl early)
    with run op show ?thesis
      by (auto simp: HttpPostJsonStream_def http_open_def http_error_def Let_def
          split: prod.splits option.splits connect_outcome.splits send_outcome.splits)
  next
    case (Inr started)
    let ?r0 = "\<lparr>sr_response = empty_response, sr_headers_parsed = False, sr_buffered = ''''\<rparr>"
    obtain out2 s2 io2 where lp: "stream_loop os cb started ?r0 s io1 = Some (out2, s2, io2)"
      using run op Inr by (auto simp: HttpPostJsonStream_def split: option.splits)
    have "case (out2, s2, io2) of (Inl early, _) \<Rightarrow> hr_error early \<noteq> ''llama server response headers exceeded 64 KiB''
        | (Inr r1, _) \<Rightarrow> hr_error (sr_response r1) = ''''"
      using lp [unfolded stream_loop_def]
    proof (rule iterate_invariant [where I = "buffers_received os (io_recvs io)"])
      show "buffers_received os (io_recvs io) (?r0, s, io1)"
        using http_open_sockets [OF op] by (simp add: buffers_received_def empty_response_def received_def)
    next
      fix x y
      assume "buffers_received os (io_recvs io) x" "stream_step os cb started x = Inr y"
      then show "buffers_received os (io_recvs io) y"
        using stream_step_fits [OF fit, of "fst x" "fst (snd x)" "snd (snd x)" cb started] by simp
    next
      fix x y
      assume "buffers_received os (io_recvs io) x" "stream_step os cb started x = Inl y"
      then show "case y of (Inl early, _) \<Rightarrow> hr_error early \<noteq> ''llama server response headers exceeded 64 KiB''
          | (Inr r1, _) \<Rightarrow> hr_error (sr_response r1) = ''''"
        using stream_step_fits [OF fit, of "fst x" "fst (snd x)" "snd (snd x)" cb started] by simp
    qed
    with run op Inr lp show ?thesis
      by (auto simp: HttpPostJsonStream_def http_error_def http_status_error_def split: sum.splits if_splits)
  qed
qed

subsection \<open>A failing connection\<close>

text \<open>What happens before the first \<open>recv\<close> does not depend on its answers.\<close>

lemma connect_loop_recv: "connect_loop (os\<lparr>os_recv := f\<rparr>) addresses io = connect_loop os addresses io"
proof (induction addresses arbitrary: io)
  case (Cons address rest)
  then show ?case by (cases "os_cancelled os (io_polls io)") (simp_all add: is_cancelled_def Let_def)
qed simp

lemma send_loop_recv: "send_loop (os\<lparr>os_recv := f\<rparr>) n io = send_loop os n io"
proof (induction os n io rule: send_loop.induct)
  case (1 os n io)
  then show ?case
    by (subst (1 2) send_loop.simps; cases "os_cancelled os (io_polls io)") (auto simp: is_cancelled_def Let_def)
qed

lemma http_open_recv: "http_open (os\<lparr>os_recv := f\<rparr>) url body io = http_open os url body io"
  unfolding http_open_def connect_loop_recv send_loop_recv clock_now_def by simp

lemma first_byte_recv: "first_byte (os\<lparr>os_recv := f\<rparr>) started response io = first_byte os started response io"
  by (simp add: first_byte_def clock_now_def)

text \<open>The loop of the stream when a \<open>recv\<close> ends the response, and when the same call fails.\<close>

definition ended_or_failed :: "(HttpResponse + stream_recv) \<times> 's \<times> io \<Rightarrow> (HttpResponse + stream_recv) \<times> 's \<times> io \<Rightarrow> bool" where
  "ended_or_failed eof q \<longleftrightarrow> q = eof \<or> (\<exists>r s i. eof = (Inr r, s, i) \<and>
     q = (Inl (http_error ''failed to read response from llama server'' (sr_response r)), s, close_socket i))"

lemma stream_step_fails:
  "case stream_step (os\<lparr>os_recv := (os_recv os)(n := RecvEof)\<rparr>) cb started x of
     Inr y \<Rightarrow> stream_step (os\<lparr>os_recv := (os_recv os)(n := RecvError)\<rparr>) cb started x = Inr y
   | Inl eof \<Rightarrow> \<exists>q. stream_step (os\<lparr>os_recv := (os_recv os)(n := RecvError)\<rparr>) cb started x = Inl q \<and> ended_or_failed eof q"
proof -
  obtain r s i where x: "x = (r, s, i)" by (cases x)
  show ?thesis
  proof (cases "io_recvs i = n")
    case True
    then show ?thesis
      by (auto simp: x stream_step_def is_cancelled_def recv_call_def ended_or_failed_def)
  next
    case False
    have "stream_step (os\<lparr>os_recv := (os_recv os)(n := a)\<rparr>) cb started x = stream_step os cb started x" for a
      unfolding x stream_step_def is_cancelled_def recv_call_def first_byte_recv using False by simp
    then show ?thesis by (simp add: ended_or_failed_def split: sum.splits)
  qed
qed

lemma stream_loop_fails:
  assumes "stream_loop (os\<lparr>os_recv := (os_recv os)(n := RecvEof)\<rparr>) cb started r s io = Some eof"
  shows "\<exists>q. stream_loop (os\<lparr>os_recv := (os_recv os)(n := RecvError)\<rparr>) cb started r s io = Some q \<and> ended_or_failed eof q"
  unfolding stream_loop_def
proof (rule iterate_simulation [where R = "(=)", OF assms [unfolded stream_loop_def] refl])
  fix x y y'
  assume "x = y" "stream_step (os\<lparr>os_recv := (os_recv os)(n := RecvEof)\<rparr>) cb started x = Inr y'"
  then show "(\<exists>t'. stream_step (os\<lparr>os_recv := (os_recv os)(n := RecvError)\<rparr>) cb started y = Inr t' \<and> y' = t') \<or>
      (\<exists>q. stream_step (os\<lparr>os_recv := (os_recv os)(n := RecvError)\<rparr>) cb started y = Inl q \<and> ended_or_failed eof q)"
    using stream_step_fails [of os n cb started x] by (cases y') simp
next
  fix x y
  assume "x = y" "stream_step (os\<lparr>os_recv := (os_recv os)(n := RecvEof)\<rparr>) cb started x = Inl eof"
  then show "\<exists>q. stream_step (os\<lparr>os_recv := (os_recv os)(n := RecvError)\<rparr>) cb started y = Inl q \<and> ended_or_failed eof q"
    using stream_step_fails [of os n cb started x] by simp
qed

lemma HttpPostJsonStream_fails:
  assumes eof: "HttpPostJsonStream (os\<lparr>os_recv := (os_recv os)(n := RecvEof)\<rparr>) url body cb s io = Some (response, s', io')"
    and ok: "hr_ok response"
  obtains error where
    "HttpPostJsonStream (os\<lparr>os_recv := (os_recv os)(n := RecvError)\<rparr>) url body cb s io = Some (response\<lparr>hr_error := error\<rparr>, s', io')"
    and "error = hr_error response \<or> error = ''failed to read response from llama server'' \<and> hr_error response \<noteq> ''cancelled''"
proof -
  let ?r0 = "\<lparr>sr_response = empty_response, sr_headers_parsed = False, sr_buffered = ''''\<rparr>"
  obtain out io1 where op: "http_open os url body io = (out, io1)" by fastforce
  show ?thesis
  proof (cases out)
    case (Inl early)
    with eof op ok http_open_error [of os url body io early io1] show ?thesis
      by (simp add: HttpPostJsonStream_def http_open_recv)
  next
    case (Inr started)
    obtain res where lp: "stream_loop (os\<lparr>os_recv := (os_recv os)(n := RecvEof)\<rparr>) cb started ?r0 s io1 = Some res"
      using eof op Inr by (auto simp: HttpPostJsonStream_def http_open_recv split: option.splits)
    obtain q where q: "stream_loop (os\<lparr>os_recv := (os_recv os)(n := RecvError)\<rparr>) cb started ?r0 s io1 = Some q" "ended_or_failed res q"
      using stream_loop_fails [OF lp] by blast
    show ?thesis
    proof (cases "q = res")
      case True
      with eof op Inr lp q(1) show ?thesis by (intro that [of "hr_error response"]) (simp_all add: HttpPostJsonStream_def http_open_recv)
    next
      case False
      with q(2) obtain r s1 i where r: "res = (Inr r, s1, i)"
        "q = (Inl (http_error ''failed to read response from llama server'' (sr_response r)), s1, close_socket i)"
        by (auto simp: ended_or_failed_def)
      have "any_callback.stopped io1 (Inr r, s1, i)"
        by (rule any_callback.stream_loop_spec [OF lp [unfolded r(1)]]) (simp_all add: stream_fresh_def empty_response_def)
      then have "stream_fresh r" by (simp add: any_callback.stopped_def)
      moreover have "response = (if \<not> sr_headers_parsed r then http_error ''llama server response was missing HTTP headers'' (sr_response r)
          else http_status_error (sr_response r))" "s' = s1" "io' = close_socket i"
        using eof op Inr lp r(1) by (auto simp: HttpPostJsonStream_def http_open_recv)
      ultimately have "response = sr_response r" "hr_error response = ''''" "s' = s1" "io' = close_socket i"
        using ok by (auto simp: stream_fresh_def http_error_def http_status_error_def split: if_splits)
      with op Inr q(1) r(2) show ?thesis
        by (intro that [of "''failed to read response from llama server''"])
          (simp_all add: HttpPostJsonStream_def http_open_recv http_error_def)
    qed
  qed
qed

end
