(* ===== verification/Process.thy ===== *)
theory Process
  imports Float_Ops Worker_Io
begin

text \<open>
  The child process of \<open>LlamaCppBackend\<close>: \<open>RunProcess\<close> and its helpers, seen from the parent. The code between
  \<open>fork\<close> and \<open>execvp\<close> runs in the child; what the child writes and how it ends are the answers to \<open>read\<close> and
  \<open>waitpid\<close>. The read and wait loops repeat for as long as the system calls ask for it, so they are partial:
  \<^term>\<open>None\<close> is a call that never returns.
\<close>

subsection \<open>Data\<close>

record ProcessResult =
  pr_exit_code :: int
  pr_timed_out :: bool
  pr_cancelled :: bool
  pr_launch_failed :: bool
  pr_output :: string
  pr_error :: string

definition empty_process :: ProcessResult where
  "empty_process = \<lparr>pr_exit_code = -1, pr_timed_out = False, pr_cancelled = False, pr_launch_failed = False,
     pr_output = '''', pr_error = ''''\<rparr>"

definition kMaxCapturedOutputBytes :: nat where
  "kMaxCapturedOutputBytes = 16 * 1024"

subsection \<open>Reading\<close>

definition AppendWithLimit :: "string \<Rightarrow> string \<Rightarrow> nat \<Rightarrow> string" where
  "AppendWithLimit output data limit =
     (if length output \<ge> limit then output
      else output @ take (min (length data) (limit - length output)) data)"

definition read_call :: "'a host_scheme \<Rightarrow> io \<Rightarrow> read_result \<times> io" where
  "read_call os io = (os_read os (io_reads io), io\<lparr>io_reads := Suc (io_reads io)\<rparr>)"

definition read_step :: "'a host_scheme \<Rightarrow> nat \<Rightarrow> string \<times> io \<Rightarrow> (string \<times> io) + (string \<times> io)" where
  "read_step os limit = (\<lambda>(output, io).
     case read_call os io of
       (ReadData bytes, io1) \<Rightarrow> Inr (AppendWithLimit output bytes limit, io1)
     | (ReadEof, io1) \<Rightarrow> Inl (output, io1)
     | (ReadInterrupted, io1) \<Rightarrow> Inr (output, io1)
     | (ReadWouldBlock, io1) \<Rightarrow> Inl (output, io1)
     | (ReadFailed, io1) \<Rightarrow> Inl (output, io1))"

definition ReadAvailable :: "'a host_scheme \<Rightarrow> string \<Rightarrow> nat \<Rightarrow> io \<Rightarrow> (string \<times> io) option" where
  "ReadAvailable os output limit io = iterate (read_step os limit) (output, io)"

subsection \<open>Stopping\<close>

definition SignalProcessGroup :: "int \<Rightarrow> io \<Rightarrow> io" where
  "SignalProcessGroup signal_number io = io\<lparr>io_signals := io_signals io @ [signal_number]\<rparr>"

text \<open>\<open>waitpid\<close> with the option \<open>WNOHANG\<close>.\<close>

definition waitpid :: "'a host_scheme \<Rightarrow> io \<Rightarrow> wait_result \<times> io" where
  "waitpid os io =
     (let r = os_waitpid os (io_waits io)
      in (r, io\<lparr>io_waits := Suc (io_waits io),
                io_children := (case r of WaitReaped _ \<Rightarrow> io_children io - 1 | _ \<Rightarrow> io_children io)\<rparr>))"

text \<open>\<open>waitpid\<close> with the options 0.\<close>

definition waitpid_blocking :: "'a host_scheme \<Rightarrow> io \<Rightarrow> blocking_wait_result \<times> io" where
  "waitpid_blocking os io =
     (let r = os_waitpid_blocking os (io_blocking_waits io)
      in (r, io\<lparr>io_blocking_waits := Suc (io_blocking_waits io),
                io_children := (case r of BlockingReaped _ \<Rightarrow> io_children io - 1 | _ \<Rightarrow> io_children io)\<rparr>))"

text \<open>The attempts left after \<open>SIGTERM\<close>: \<open>Inl\<close> is a return with the status, \<open>Inr\<close> the end of the loop.\<close>

fun stop_attempts :: "'a host_scheme \<Rightarrow> nat \<Rightarrow> wait_status \<Rightarrow> io \<Rightarrow> (wait_status + unit) \<times> io" where
  "stop_attempts os 0 status io = (Inr (), io)"
| "stop_attempts os (Suc left) status io =
     (case waitpid os io of
        (WaitReaped status1, io1) \<Rightarrow> (Inl status1, io1)
      | (WaitFailed _, io1) \<Rightarrow> (Inl status, io1)
      | (_, io1) \<Rightarrow> stop_attempts os left status (sleep_ms 10 io1))"

definition final_wait_step :: "'a host_scheme \<Rightarrow> wait_status \<Rightarrow> io \<Rightarrow> (wait_status \<times> io) + io" where
  "final_wait_step os status io =
     (case waitpid_blocking os io of
        (BlockingReaped status1, io1) \<Rightarrow> Inl (status1, io1)
      | (BlockingInterrupted, io1) \<Rightarrow> Inr io1
      | (BlockingFailed, io1) \<Rightarrow> Inl (status, io1))"

definition SIGTERM :: int where "SIGTERM = 15"

definition SIGKILL :: int where "SIGKILL = 9"

definition StopProcess :: "'a host_scheme \<Rightarrow> wait_status \<Rightarrow> io \<Rightarrow> (wait_status \<times> io) option" where
  "StopProcess os status io =
     (case stop_attempts os 30 status (SignalProcessGroup SIGTERM io) of
        (Inl status1, io1) \<Rightarrow> Some (status1, io1)
      | (Inr _, io1) \<Rightarrow> iterate (final_wait_step os status) (SignalProcessGroup SIGKILL io1))"

subsection \<open>Running\<close>

datatype process_end = ChildExited wait_status | ChildLost string | ChildCancelled | ChildTimedOut

text \<open>
  One iteration of the supervising loop. The outcome \<open>Inl None\<close> is a \<open>ReadAvailable\<close> that never returns. The
  \<open>poll\<close> at its end only waits; its result is ignored.
\<close>

definition supervise_step ::
  "'a host_scheme \<Rightarrow> int \<Rightarrow> string \<times> io \<Rightarrow> (process_end \<times> string \<times> io) option + (string \<times> io)" where
  "supervise_step os deadline = (\<lambda>(output, io).
     case ReadAvailable os output kMaxCapturedOutputBytes io of
       None \<Rightarrow> Inl None
     | Some (output1, io1) \<Rightarrow>
         (case waitpid os io1 of
            (WaitReaped status, io2) \<Rightarrow> Inl (Some (ChildExited status, output1, io2))
          | (WaitFailed message, io2) \<Rightarrow> Inl (Some (ChildLost message, output1, io2))
          | (_, io2) \<Rightarrow>
              (let (cancelled, io3) = is_cancelled os io2
               in if cancelled then Inl (Some (ChildCancelled, output1, io3))
                  else
                    let (now, io4) = clock_now os io3
                    in if now \<ge> deadline then Inl (Some (ChildTimedOut, output1, io4)) else Inr (output1, io4))))"

definition supervise :: "'a host_scheme \<Rightarrow> int \<Rightarrow> string \<Rightarrow> io \<Rightarrow> (process_end \<times> string \<times> io) option" where
  "supervise os deadline output io = Option.bind (iterate (supervise_step os deadline) (output, io)) (\<lambda>r. r)"

definition process_outcome :: "process_end \<Rightarrow> ProcessResult \<Rightarrow> ProcessResult" where
  "process_outcome outcome result = (case outcome of
     ChildExited _ \<Rightarrow> result
   | ChildLost message \<Rightarrow> result\<lparr>pr_launch_failed := True, pr_error := ''waitpid failed: '' @ message\<rparr>
   | ChildCancelled \<Rightarrow> result\<lparr>pr_cancelled := True\<rparr>
   | ChildTimedOut \<Rightarrow> result\<lparr>pr_timed_out := True\<rparr>)"

definition exit_code_of :: "wait_status \<Rightarrow> int" where
  "exit_code_of status = (case status of Exited exit_code \<Rightarrow> exit_code | Signaled signal_number \<Rightarrow> 128 + signal_number)"

text \<open>
  After the loop: the variable \<open>status\<close> starts as 0, which reads as a normal exit with code 0.
\<close>

definition finish_process :: "'a host_scheme \<Rightarrow> process_end \<Rightarrow> string \<Rightarrow> io \<Rightarrow> (ProcessResult \<times> io) option" where
  "finish_process os outcome output io =
     (case (case outcome of ChildExited status \<Rightarrow> Some (status, io) | _ \<Rightarrow> StopProcess os (Exited 0) io) of
        None \<Rightarrow> None
      | Some (status, io1) \<Rightarrow>
          (case ReadAvailable os output kMaxCapturedOutputBytes io1 of
             None \<Rightarrow> None
           | Some (output1, io2) \<Rightarrow>
               Some ((process_outcome outcome empty_process)\<lparr>pr_exit_code := exit_code_of status,
                       pr_output := TrimWhitespace output1\<rparr>,
                     io2\<lparr>io_open_pipes := io_open_pipes io2 - 1\<rparr>)))"

definition launch_error :: "string \<Rightarrow> ProcessResult" where
  "launch_error message = empty_process\<lparr>pr_launch_failed := True, pr_error := message\<rparr>"

text \<open>The parent after \<open>fork\<close>: it closes its copy of the writing end and watches the child until the deadline.\<close>

definition watch_child :: "'a host_scheme \<Rightarrow> int \<Rightarrow> io \<Rightarrow> (ProcessResult \<times> io) option" where
  "watch_child os timeout_ms io =
     (let io1 = io\<lparr>io_open_pipes := io_open_pipes io - 1\<rparr>; (now, io2) = clock_now os io1
      in case supervise os (now + timeout_ms * 1000000) '''' io2 of
           None \<Rightarrow> None
         | Some (outcome, output, io3) \<Rightarrow> finish_process os outcome output io3)"

definition RunProcess :: "'a host_scheme \<Rightarrow> string list \<Rightarrow> int \<Rightarrow> io \<Rightarrow> (ProcessResult \<times> io) option" where
  "RunProcess os args timeout_ms io =
     (if args = [] then Some (launch_error ''empty command'', io)
      else
        let spawn = io_spawns io; io1 = io\<lparr>io_spawns := Suc spawn\<rparr>
        in case os_pipe os spawn of
             Some message \<Rightarrow> Some (launch_error (''pipe failed: '' @ message), io1)
           | None \<Rightarrow>
               (let io2 = io1\<lparr>io_open_pipes := io_open_pipes io1 + 2\<rparr>
                in case os_fork os spawn of
                     Some message \<Rightarrow>
                       Some (launch_error (''fork failed: '' @ message), io2\<lparr>io_open_pipes := io_open_pipes io2 - 2\<rparr>)
                   | None \<Rightarrow> watch_child os timeout_ms (io2\<lparr>io_children := io_children io2 + 1\<rparr>)))"

subsection \<open>What the calls leave unchanged\<close>

lemma length_AppendWithLimit: "length output \<le> limit \<Longrightarrow> length (AppendWithLimit output data limit) \<le> limit"
  by (auto simp: AppendWithLimit_def)

lemma ReadAvailable_frame:
  assumes "ReadAvailable os output limit io = Some (output', io')" and "length output \<le> limit"
  shows "length output' \<le> limit \<and> (\<exists>n. io' = io\<lparr>io_reads := n\<rparr>)"
proof -
  have "case (output', io') of (out, i) \<Rightarrow> length out \<le> limit \<and> (\<exists>n. i = io\<lparr>io_reads := n\<rparr>)"
  proof (rule iterate_invariant [OF assms(1) [unfolded ReadAvailable_def],
        where I = "\<lambda>(out, i). length out \<le> limit \<and> (\<exists>n. i = io\<lparr>io_reads := n\<rparr>)"])
    show "case (output, io) of (out, i) \<Rightarrow> length out \<le> limit \<and> (\<exists>n. i = io\<lparr>io_reads := n\<rparr>)"
      using assms(2) by (auto intro: exI [of _ "io_reads io"])
  qed (auto simp: read_step_def read_call_def length_AppendWithLimit split: read_result.splits)
  then show ?thesis by simp
qed

text \<open>
  Between \<open>io0\<close> and \<open>io\<close> a child was waited for, so that \<open>c\<close> are left, or it is left because the last \<open>waitpid\<close>
  made, polling or blocking, failed.
\<close>

definition reaped_or_lost :: "'a host_scheme \<Rightarrow> io \<Rightarrow> nat \<Rightarrow> io \<Rightarrow> bool" where
  "reaped_or_lost os io0 c io \<longleftrightarrow> io_children io = c \<or>
     io_children io = Suc c \<and>
     (io_waits io0 < io_waits io \<and> (\<exists>message. os_waitpid os (io_waits io - 1) = WaitFailed message) \<or>
      io_blocking_waits io0 < io_blocking_waits io \<and> os_waitpid_blocking os (io_blocking_waits io - 1) = BlockingFailed)"

lemma reaped_or_lost_frame [simp]:
  "reaped_or_lost os io0 c (io_reads_update f io) = reaped_or_lost os io0 c io"
  "reaped_or_lost os io0 c (io_open_pipes_update g io) = reaped_or_lost os io0 c io"
  by (simp_all add: reaped_or_lost_def)

lemma reaped_or_lost_earlier:
  "reaped_or_lost os io1 c io \<Longrightarrow> io_waits io0 \<le> io_waits io1 \<Longrightarrow> io_blocking_waits io0 \<le> io_blocking_waits io1 \<Longrightarrow>
   reaped_or_lost os io0 c io"
  by (auto simp: reaped_or_lost_def)

lemma waitpid_frame:
  assumes "waitpid os io = (r, io')"
  shows "io' = io\<lparr>io_waits := Suc (io_waits io), io_children := (case r of WaitReaped _ \<Rightarrow> io_children io - 1 | _ \<Rightarrow> io_children io)\<rparr>"
    "os_waitpid os (io_waits io) = r"
  using assms by (auto simp: waitpid_def Let_def)

lemma waitpid_blocking_frame:
  assumes "waitpid_blocking os io = (r, io')"
  shows "io' = io\<lparr>io_blocking_waits := Suc (io_blocking_waits io),
      io_children := (case r of BlockingReaped _ \<Rightarrow> io_children io - 1 | _ \<Rightarrow> io_children io)\<rparr>"
    "os_waitpid_blocking os (io_blocking_waits io) = r"
  using assms by (auto simp: waitpid_blocking_def Let_def)

text \<open>Nothing but signals, sleeping and waiting happens between the two states.\<close>

definition only_waited :: "io \<Rightarrow> io \<Rightarrow> bool" where
  "only_waited io io' \<longleftrightarrow> io_open_pipes io' = io_open_pipes io \<and> io_polls io' = io_polls io \<and>
     io_clock_reads io' = io_clock_reads io \<and> io_waits io \<le> io_waits io' \<and> io_blocking_waits io \<le> io_blocking_waits io'"

lemma only_waited_refl [simp]: "only_waited io io"
  by (simp add: only_waited_def)

lemma only_waited_trans: "only_waited a b \<Longrightarrow> only_waited b c \<Longrightarrow> only_waited a c"
  by (simp add: only_waited_def)

lemma stop_frame [simp]:
  "only_waited io (sleep_ms ms io') = only_waited io io'" "only_waited (SignalProcessGroup sig io) io' = only_waited io io'"
  "io_children (sleep_ms ms io) = io_children io" "io_children (SignalProcessGroup sig io) = io_children io"
  "io_waits (sleep_ms ms io) = io_waits io" "io_waits (SignalProcessGroup sig io) = io_waits io"
  "io_blocking_waits (sleep_ms ms io) = io_blocking_waits io" "io_blocking_waits (SignalProcessGroup sig io) = io_blocking_waits io"
  "reaped_or_lost os (SignalProcessGroup sig io) c io' = reaped_or_lost os io c io'"
  by (simp_all add: sleep_ms_def SignalProcessGroup_def only_waited_def reaped_or_lost_def)

lemma stop_attempts_frame:
  assumes "stop_attempts os n status io = (out, io')" and "io_children io = Suc c"
  shows "only_waited io io' \<and> (case out of Inl _ \<Rightarrow> reaped_or_lost os io c io' | Inr _ \<Rightarrow> io_children io' = Suc c)"
  using assms
proof (induction n arbitrary: io)
  case 0
  then show ?case by auto
next
  case (Suc n)
  obtain r io1 where w: "waitpid os io = (r, io1)" by fastforce
  note f = waitpid_frame [OF w]
  have one: "only_waited io (sleep_ms 10 io1)" by (simp add: f(1) only_waited_def sleep_ms_def)
  show ?case
  proof (cases "r = WaitRunning \<or> r = WaitInterrupted")
    case True
    then have "stop_attempts os n status (sleep_ms 10 io1) = (out, io')" "io_children (sleep_ms 10 io1) = Suc c"
      using Suc.prems w f by auto
    note IH = Suc.IH [OF this]
    moreover have "reaped_or_lost os (sleep_ms 10 io1) c io' \<Longrightarrow> reaped_or_lost os io c io'"
      by (erule reaped_or_lost_earlier) (simp_all add: f(1))
    ultimately show ?thesis using only_waited_trans [OF one] by (cases out) simp_all
  next
    case False
    with Suc.prems w f show ?thesis
      by (cases r) (auto simp: reaped_or_lost_def only_waited_def)
  qed
qed

lemma final_wait_frame:
  assumes "iterate (final_wait_step os status) io = Some (status', io')" and "io_children io = Suc c"
  shows "only_waited io io' \<and> reaped_or_lost os io c io'"
proof -
  have "case (status', io') of (_, i) \<Rightarrow> only_waited io i \<and> reaped_or_lost os io c i"
    using assms(1)
  proof (rule iterate_invariant [where I = "\<lambda>i. io_children i = Suc c \<and> only_waited io i"])
    fix i :: io and r
    assume i: "io_children i = Suc c \<and> only_waited io i" and "final_wait_step os status i = Inl r"
    then show "case r of (_, i) \<Rightarrow> only_waited io i \<and> reaped_or_lost os io c i"
      using waitpid_blocking_frame [of os i "fst (waitpid_blocking os i)" "snd (waitpid_blocking os i)"]
      by (auto simp: final_wait_step_def reaped_or_lost_def only_waited_def split: prod.splits blocking_wait_result.splits)
  next
    fix i i' :: io
    assume i: "io_children i = Suc c \<and> only_waited io i" and "final_wait_step os status i = Inr i'"
    then show "io_children i' = Suc c \<and> only_waited io i'"
      using waitpid_blocking_frame [of os i "fst (waitpid_blocking os i)" "snd (waitpid_blocking os i)"]
      by (auto simp: final_wait_step_def only_waited_def split: prod.splits blocking_wait_result.splits)
  qed (simp add: assms(2))
  then show ?thesis by simp
qed

lemma StopProcess_frame:
  assumes "StopProcess os status io = Some (status', io')" and "io_children io = Suc c"
  shows "only_waited io io' \<and> reaped_or_lost os io c io'"
proof -
  obtain out io1 where s: "stop_attempts os 30 status (SignalProcessGroup SIGTERM io) = (out, io1)" by fastforce
  have f: "only_waited io io1" "case out of Inl _ \<Rightarrow> reaped_or_lost os io c io1 | Inr _ \<Rightarrow> io_children io1 = Suc c"
    using stop_attempts_frame [OF s, of c] assms(2) by (auto split: sum.splits)
  show ?thesis
  proof (cases out)
    case (Inl st)
    then have "io' = io1" using assms(1) s by (simp add: StopProcess_def)
    with Inl f show ?thesis by simp
  next
    case (Inr u)
    then have w: "iterate (final_wait_step os status) (SignalProcessGroup SIGKILL io1) = Some (status', io')"
      using assms(1) s by (simp add: StopProcess_def)
    have k: "only_waited io1 io'" "reaped_or_lost os io1 c io'"
      using final_wait_frame [OF w, of c] Inr f by simp_all
    with f(1) show ?thesis using only_waited_trans [OF f(1) k(1)] reaped_or_lost_earlier [OF k(2)] by (simp add: only_waited_def)
  qed
qed

text \<open>
  How the supervising loop is left, with \<open>io0\<close> before it and one child more than \<open>c\<close>: what the outcome says is the answer
  of the last call of its kind.
\<close>

definition outcome_ok :: "'a host_scheme \<Rightarrow> int \<Rightarrow> io \<Rightarrow> nat \<Rightarrow> nat \<Rightarrow> process_end \<Rightarrow> string \<Rightarrow> io \<Rightarrow> bool" where
  "outcome_ok os deadline io0 c pipes outcome output io \<longleftrightarrow>
     length output \<le> kMaxCapturedOutputBytes \<and> io_open_pipes io = pipes \<and>
     io_waits io0 \<le> io_waits io \<and> io_blocking_waits io0 \<le> io_blocking_waits io \<and>
     io_children io = (case outcome of ChildExited _ \<Rightarrow> c | _ \<Rightarrow> Suc c) \<and>
     (case outcome of
        ChildExited status \<Rightarrow> io_waits io0 < io_waits io \<and> os_waitpid os (io_waits io - 1) = WaitReaped status
      | ChildCancelled \<Rightarrow> io_polls io0 < io_polls io \<and> os_cancelled os (io_polls io - 1)
      | ChildTimedOut \<Rightarrow> io_clock_reads io0 < io_clock_reads io \<and> deadline \<le> os_clock os (io_clock_reads io - 1)
      | ChildLost message \<Rightarrow> io_waits io0 < io_waits io \<and> os_waitpid os (io_waits io - 1) = WaitFailed message)"

definition supervising :: "io \<Rightarrow> nat \<Rightarrow> nat \<Rightarrow> string \<times> io \<Rightarrow> bool" where
  "supervising io0 c pipes = (\<lambda>(output, io). length output \<le> kMaxCapturedOutputBytes \<and> io_children io = Suc c \<and>
     io_open_pipes io = pipes \<and> io_waits io0 \<le> io_waits io \<and> io_blocking_waits io0 \<le> io_blocking_waits io \<and>
     io_polls io0 \<le> io_polls io \<and> io_clock_reads io0 \<le> io_clock_reads io)"

lemma supervise_step_frame:
  assumes "supervising io0 c pipes (output, io)"
  shows "case supervise_step os deadline (output, io) of
      Inr s \<Rightarrow> supervising io0 c pipes s
    | Inl None \<Rightarrow> True
    | Inl (Some (outcome, output', io')) \<Rightarrow> outcome_ok os deadline io0 c pipes outcome output' io'"
proof (cases "ReadAvailable os output kMaxCapturedOutputBytes io")
  case None
  then show ?thesis by (auto simp: supervise_step_def)
next
  case (Some p)
  obtain output1 io1 where p: "p = (output1, io1)" by fastforce
  with Some have "ReadAvailable os output kMaxCapturedOutputBytes io = Some (output1, io1)" by simp
  from ReadAvailable_frame [OF this] assms
  obtain n where io1: "io1 = io\<lparr>io_reads := n\<rparr>" "length output1 \<le> kMaxCapturedOutputBytes"
    by (auto simp: supervising_def)
  obtain r io2 where w: "waitpid os io1 = (r, io2)" by fastforce
  note f = waitpid_frame [OF w]
  from assms Some p io1 w f show ?thesis
    by (cases r)
      (auto simp: supervise_step_def supervising_def outcome_ok_def is_cancelled_def clock_now_def Let_def)
qed

lemma supervise_frame:
  assumes "supervise os deadline output io = Some (outcome, output', io')" and "supervising io0 c pipes (output, io)"
  shows "outcome_ok os deadline io0 c pipes outcome output' io'"
proof -
  have it: "iterate (supervise_step os deadline) (output, io) = Some (Some (outcome, output', io'))"
    using assms(1) by (simp add: supervise_def bind_eq_Some_conv)
  have "case Some (outcome, output', io') of None \<Rightarrow> True | Some (oc, out, i) \<Rightarrow> outcome_ok os deadline io0 c pipes oc out i"
    using it
  proof (rule iterate_invariant [where I = "supervising io0 c pipes"])
    fix s r
    assume "supervising io0 c pipes s" and "supervise_step os deadline s = Inl r"
    then show "case r of None \<Rightarrow> True | Some (oc, out, i) \<Rightarrow> outcome_ok os deadline io0 c pipes oc out i"
      using supervise_step_frame [of io0 c pipes "fst s" "snd s" os deadline] by simp
  next
    fix s s'
    assume "supervising io0 c pipes s" and "supervise_step os deadline s = Inr s'"
    then show "supervising io0 c pipes s'"
      using supervise_step_frame [of io0 c pipes "fst s" "snd s" os deadline] by simp
  qed (rule assms(2))
  then show ?thesis by simp
qed

lemma length_TrimWhitespace: "length (TrimWhitespace s) \<le> length s"
  unfolding TrimWhitespace_eq trim_right_def
  using length_dropWhile_le [of isspace s] length_dropWhile_le [of isspace "rev (dropWhile isspace s)"] by simp

lemma finish_process_frame:
  assumes "finish_process os outcome output io = Some (result, io')"
    and "outcome_ok os deadline io0 c (Suc pipes) outcome output io"
  shows "io_open_pipes io' = pipes \<and> reaped_or_lost os io0 c io' \<and> length (pr_output result) \<le> kMaxCapturedOutputBytes \<and>
    io_polls io' = io_polls io \<and> io_clock_reads io' = io_clock_reads io \<and>
    (case outcome of
       ChildExited status \<Rightarrow> pr_exit_code result = exit_code_of status \<and> io_waits io' = io_waits io \<and> io_children io' = io_children io
     | _ \<Rightarrow> True)"
proof -
  let ?stop = "case outcome of ChildExited status \<Rightarrow> Some (status, io) | _ \<Rightarrow> StopProcess os (Exited 0) io"
  obtain status io1 where st: "?stop = Some (status, io1)"
    using assms(1) by (auto simp: finish_process_def split: option.splits)
  obtain output1 io2 where rd: "ReadAvailable os output kMaxCapturedOutputBytes io1 = Some (output1, io2)"
    using assms(1) st by (auto simp: finish_process_def split: option.splits)
  have io1: "only_waited io io1 \<and> reaped_or_lost os io0 c io1"
  proof (cases "\<exists>s. outcome = ChildExited s")
    case True
    with st assms(2) show ?thesis by (auto simp: outcome_ok_def reaped_or_lost_def)
  next
    case False
    with st have "StopProcess os (Exited 0) io = Some (status, io1)" by (auto split: process_end.splits)
    from StopProcess_frame [OF this, of c] False assms(2) show ?thesis
      by (auto simp: outcome_ok_def split: process_end.splits intro: reaped_or_lost_earlier)
  qed
  have "length output1 \<le> kMaxCapturedOutputBytes \<and> (\<exists>n. io2 = io1\<lparr>io_reads := n\<rparr>)"
    using ReadAvailable_frame [OF rd] assms(2) by (simp add: outcome_ok_def)
  moreover have "result = (process_outcome outcome empty_process)\<lparr>pr_exit_code := exit_code_of status, pr_output := TrimWhitespace output1\<rparr>"
    "io' = io2\<lparr>io_open_pipes := io_open_pipes io2 - 1\<rparr>"
    using assms(1) st rd by (auto simp: finish_process_def)
  moreover have "case outcome of ChildExited s \<Rightarrow> status = s \<and> io1 = io | _ \<Rightarrow> True" using st by (cases outcome) simp_all
  moreover have "io_open_pipes io = Suc pipes" using assms(2) by (simp add: outcome_ok_def)
  ultimately show ?thesis
    using io1 length_TrimWhitespace [of output1] by (cases outcome) (auto simp: only_waited_def)
qed

lemma finish_process_flags:
  assumes "finish_process os outcome output io = Some (result, io')"
  shows "pr_cancelled result = (outcome = ChildCancelled) \<and> pr_timed_out result = (outcome = ChildTimedOut) \<and>
    pr_launch_failed result = (\<exists>message. outcome = ChildLost message)"
  using assms by (auto simp: finish_process_def process_outcome_def empty_process_def split: option.splits process_end.splits)

lemma RunProcess_launched:
  assumes "args \<noteq> []" and "os_pipe os (io_spawns io) = None" and "os_fork os (io_spawns io) = None"
  shows "RunProcess os args timeout_ms io =
    Option.bind (supervise os (os_clock os (io_clock_reads io) + timeout_ms * 1000000) ''''
        (io\<lparr>io_spawns := Suc (io_spawns io), io_children := Suc (io_children io),
           io_open_pipes := Suc (io_open_pipes io), io_clock_reads := Suc (io_clock_reads io)\<rparr>))
      (\<lambda>(outcome, out, io5). finish_process os outcome out io5)"
  using assms by (auto simp: RunProcess_def watch_child_def clock_now_def Let_def split: Option.bind_splits option.splits)

lemma RunProcess_not_launched:
  assumes "args = [] \<or> os_pipe os (io_spawns io) \<noteq> None \<or> os_fork os (io_spawns io) \<noteq> None"
  shows "\<exists>message io'. RunProcess os args timeout_ms io = Some (launch_error message, io') \<and>
    io_open_pipes io' = io_open_pipes io \<and> io_children io' = io_children io"
  using assms by (cases "args = []"; cases "os_pipe os (io_spawns io)") (auto simp: RunProcess_def)

text \<open>What a result says about the calls between \<open>io\<close> and \<open>io'\<close>.\<close>

definition flags_truthful :: "'a host_scheme \<Rightarrow> int \<Rightarrow> io \<Rightarrow> ProcessResult \<Rightarrow> io \<Rightarrow> bool" where
  "flags_truthful os timeout_ms io result io' \<longleftrightarrow>
     (pr_cancelled result \<longrightarrow> \<not> pr_timed_out result \<and> \<not> pr_launch_failed result \<and>
        io_polls io < io_polls io' \<and> os_cancelled os (io_polls io' - 1)) \<and>
     (pr_timed_out result \<longrightarrow> \<not> pr_launch_failed result \<and> io_clock_reads io < io_clock_reads io' - 1 \<and>
        os_clock os (io_clock_reads io) + timeout_ms * 1000000 \<le> os_clock os (io_clock_reads io' - 1)) \<and>
     (\<not> pr_cancelled result \<and> \<not> pr_timed_out result \<and> \<not> pr_launch_failed result \<longrightarrow>
        io_waits io < io_waits io' \<and> io_children io' = io_children io \<and>
        (\<exists>status. os_waitpid os (io_waits io' - 1) = WaitReaped status \<and> pr_exit_code result = exit_code_of status))"

lemma RunProcess_spec:
  assumes "RunProcess os args timeout_ms io = Some (result, io')"
  shows "io_open_pipes io' = io_open_pipes io \<and> reaped_or_lost os io (io_children io) io' \<and>
    length (pr_output result) \<le> kMaxCapturedOutputBytes \<and> flags_truthful os timeout_ms io result io'"
proof (cases "args = [] \<or> os_pipe os (io_spawns io) \<noteq> None \<or> os_fork os (io_spawns io) \<noteq> None")
  case True
  then obtain message io1 where "RunProcess os args timeout_ms io = Some (launch_error message, io1)"
    "io_open_pipes io1 = io_open_pipes io" "io_children io1 = io_children io"
    using RunProcess_not_launched by blast
  then show ?thesis
    using assms by (auto simp: launch_error_def empty_process_def reaped_or_lost_def flags_truthful_def)
next
  case False
  define deadline where "deadline = os_clock os (io_clock_reads io) + timeout_ms * 1000000"
  define io4 where "io4 = io\<lparr>io_spawns := Suc (io_spawns io), io_children := Suc (io_children io),
    io_open_pipes := Suc (io_open_pipes io), io_clock_reads := Suc (io_clock_reads io)\<rparr>"
  have "Option.bind (supervise os deadline '''' io4) (\<lambda>(outcome, out, io5). finish_process os outcome out io5) = Some (result, io')"
    using assms False RunProcess_launched [of args os io timeout_ms] by (simp add: deadline_def io4_def)
  then obtain outcome out io5 where sup: "supervise os deadline '''' io4 = Some (outcome, out, io5)"
    and fin: "finish_process os outcome out io5 = Some (result, io')"
    by (auto simp: bind_eq_Some_conv)
  have ok: "outcome_ok os deadline io4 (io_children io) (Suc (io_open_pipes io)) outcome out io5"
    by (rule supervise_frame [OF sup]) (simp add: supervising_def io4_def)
  note fr = finish_process_frame [OF fin ok]
  have "reaped_or_lost os io (io_children io) io'"
    using fr reaped_or_lost_earlier [of os io4 "io_children io" io' io] by (simp add: io4_def)
  moreover have "flags_truthful os timeout_ms io result io'"
    using fr finish_process_flags [OF fin] ok unfolding flags_truthful_def
    by (cases outcome) (auto simp: outcome_ok_def deadline_def io4_def)
  ultimately show ?thesis using fr by simp
qed

subsection \<open>Theorems\<close>


text \<open>A host whose first child writes a line and exits, and whose clock ticks once per second.\<close>

definition demo_host :: host where
  "demo_host = \<lparr>os_cancelled = (\<lambda>_. False), os_clock = (\<lambda>n. 1000000000 * int n), os_getaddrinfo = (\<lambda>_ _. None),
     os_socket = (\<lambda>_. False),
     os_connect = (\<lambda>_. \<lparr>cc_getfl = 0, cc_setfl = 0, cc_connect = 0, cc_in_progress = False, cc_poll = 0,
       cc_getsockopt = 0, cc_socket_error = 0\<rparr>),
     os_send = (\<lambda>_. 0), os_recv = (\<lambda>_. RecvEof), os_exists = (\<lambda>_. True), os_regular_file = (\<lambda>_. True), os_executable = (\<lambda>_. True),
     os_pipe = (\<lambda>_. None), os_fork = (\<lambda>_. None),
     os_read = (\<lambda>n. if n = 0 then ReadData '' hello '' else if n = 1 then ReadWouldBlock else ReadEof),
     os_waitpid = (\<lambda>n. if n = 0 then WaitRunning else WaitReaped (Exited 0)),
     os_waitpid_blocking = (\<lambda>_. BlockingReaped (Exited 0))\<rparr>"

lemma demo_run:
  "map_option fst (RunProcess demo_host [''echo''] 5000 io_start) =
     Some (empty_process\<lparr>pr_exit_code := 0, pr_output := ''hello''\<rparr>)"
  by code_simp


subsection \<open>Returning\<close>

definition stops_reading :: "read_result \<Rightarrow> bool" where
  "stops_reading r \<longleftrightarrow> r \<in> {ReadEof, ReadWouldBlock, ReadFailed}"

lemma ReadAvailable_returns:
  assumes "stops_reading (os_read os m)" and "io_reads io \<le> m"
  shows "\<exists>output' n. ReadAvailable os output limit io = Some (output', io\<lparr>io_reads := n\<rparr>)"
proof -
  have "\<exists>r. iterate (read_step os limit) (output, io) = Some r"
  proof (rule iterate_returns [where I = "\<lambda>(_, i). io_reads i \<le> m" and m = "\<lambda>(_, i). Suc m - io_reads i"])
    fix s s' :: "string \<times> io"
    assume s: "case s of (_, i) \<Rightarrow> io_reads i \<le> m" and step: "read_step os limit s = Inr s'"
    obtain out i where eq: "s = (out, i)" by fastforce
    have "\<not> stops_reading (os_read os (io_reads i))"
      using step eq by (auto simp: read_step_def read_call_def stops_reading_def)
    then have "io_reads i \<noteq> m" using assms(1) by auto
    moreover have "io_reads (snd s') = Suc (io_reads i)"
      using step eq by (auto simp: read_step_def read_call_def split: read_result.splits)
    ultimately show "(case s' of (_, i) \<Rightarrow> io_reads i \<le> m) \<and>
        (case s' of (_, i) \<Rightarrow> Suc m - io_reads i) < (case s of (_, i) \<Rightarrow> Suc m - io_reads i)"
      using s eq by (auto simp: case_prod_beta)
  qed (use assms(2) in simp)
  then obtain output' io' where r: "ReadAvailable os output limit io = Some (output', io')"
    by (auto simp: ReadAvailable_def)
  have "case (output', io') of (_, i) \<Rightarrow> \<exists>n. i = io\<lparr>io_reads := n\<rparr>"
    using r [unfolded ReadAvailable_def]
  proof (rule iterate_invariant [where I = "\<lambda>(_, i). \<exists>n. i = io\<lparr>io_reads := n\<rparr>"])
    show "case (output, io) of (_, i) \<Rightarrow> \<exists>n. i = io\<lparr>io_reads := n\<rparr>" by (auto intro: exI [of _ "io_reads io"])
  qed (auto simp: read_step_def read_call_def split: read_result.splits)
  with r show ?thesis by auto
qed

lemma final_wait_returns:
  assumes "os_waitpid_blocking os m \<noteq> BlockingInterrupted" and "io_blocking_waits io \<le> m"
  shows "\<exists>r. iterate (final_wait_step os status) io = Some r"
proof (rule iterate_returns [where I = "\<lambda>i. io_blocking_waits i \<le> m" and m = "\<lambda>i. Suc m - io_blocking_waits i"])
  fix i i' :: io
  assume i: "io_blocking_waits i \<le> m" and step: "final_wait_step os status i = Inr i'"
  have "os_waitpid_blocking os (io_blocking_waits i) = BlockingInterrupted" "io_blocking_waits i' = Suc (io_blocking_waits i)"
    using step by (auto simp: final_wait_step_def waitpid_blocking_def Let_def split: blocking_wait_result.splits)
  with assms(1) i show "io_blocking_waits i' \<le> m \<and> Suc m - io_blocking_waits i' < Suc m - io_blocking_waits i"
    by (cases "io_blocking_waits i = m") auto
qed (rule assms(2))

text \<open>
  The calls that end the waiting: reads that do not deliver data come again and again, a blocking \<open>waitpid\<close> returns (a
  killed child ends) and is not interrupted for ever, and the clock passes every instant and stays past it.
\<close>

definition host_progresses :: "'a host_scheme \<Rightarrow> bool" where
  "host_progresses os \<longleftrightarrow>
     (\<forall>n. \<exists>m \<ge> n. stops_reading (os_read os m)) \<and> (\<forall>n. \<exists>m \<ge> n. os_waitpid_blocking os m \<noteq> BlockingInterrupted) \<and>
     (\<forall>t. \<exists>n. \<forall>m \<ge> n. t \<le> os_clock os m)"

lemma ReadAvailable_progress:
  assumes "host_progresses os"
  shows "\<exists>output' n. ReadAvailable os output limit io = Some (output', io\<lparr>io_reads := n\<rparr>)"
  using assms ReadAvailable_returns [of os] unfolding host_progresses_def by metis

lemma StopProcess_returns:
  assumes "host_progresses os"
  shows "\<exists>r. StopProcess os status io = Some r"
proof -
  obtain out io1 where s: "stop_attempts os 30 status (SignalProcessGroup SIGTERM io) = (out, io1)" by fastforce
  obtain m where "io_blocking_waits io1 \<le> m" "os_waitpid_blocking os m \<noteq> BlockingInterrupted"
    using assms unfolding host_progresses_def by blast
  then have "\<exists>r. iterate (final_wait_step os status) (SignalProcessGroup SIGKILL io1) = Some r"
    by (intro final_wait_returns [of os m]) simp_all
  with s show ?thesis by (cases out) (auto simp: StopProcess_def)
qed

lemma supervise_returns:
  assumes "host_progresses os"
  shows "\<exists>r. supervise os deadline output io = Some r"
proof -
  obtain n where n: "\<And>m. n \<le> m \<Longrightarrow> deadline \<le> os_clock os m"
    using assms unfolding host_progresses_def by blast
  have inr: "io_clock_reads (snd s') = Suc (io_clock_reads (snd s)) \<and> io_clock_reads (snd s) < n"
    if step: "supervise_step os deadline s = Inr s'" for s s'
  proof -
    obtain out i where eq: "s = (out, i)" by fastforce
    obtain output1 k where "ReadAvailable os out kMaxCapturedOutputBytes i = Some (output1, i\<lparr>io_reads := k\<rparr>)"
      using ReadAvailable_progress [OF assms] by blast
    with step eq have "os_clock os (io_clock_reads i) < deadline \<and> io_clock_reads (snd s') = Suc (io_clock_reads i)"
      by (auto simp: supervise_step_def waitpid_def is_cancelled_def clock_now_def Let_def
          split: wait_result.splits if_splits)
    with n [of "io_clock_reads i"] eq show ?thesis by (auto simp: not_le [symmetric])
  qed
  have "\<exists>r. iterate (supervise_step os deadline) (output, io) = Some r"
  proof (rule iterate_returns [where I = "\<lambda>_. True" and m = "\<lambda>s. n - io_clock_reads (snd s)"])
    fix s s'
    assume "supervise_step os deadline s = Inr s'"
    from inr [OF this] show "True \<and> n - io_clock_reads (snd s') < n - io_clock_reads (snd s)" by auto
  qed simp
  then obtain r where r: "iterate (supervise_step os deadline) (output, io) = Some r" by blast
  have "r \<noteq> None"
    using r
  proof (rule iterate_invariant [where I = "\<lambda>_. True"])
    fix s r
    assume "supervise_step os deadline s = Inl r"
    moreover obtain out i where eq: "s = (out, i)" by fastforce
    moreover obtain output1 k where "ReadAvailable os out kMaxCapturedOutputBytes i = Some (output1, i\<lparr>io_reads := k\<rparr>)"
      using ReadAvailable_progress [OF assms] by blast
    ultimately show "r \<noteq> None"
      by (auto simp: supervise_step_def Let_def split: prod.splits wait_result.splits if_splits)
  qed simp_all
  with r show ?thesis by (auto simp: supervise_def)
qed

lemma RunProcess_total:
  assumes "host_progresses os"
  shows "\<exists>result io'. RunProcess os args timeout_ms io = Some (result, io')"
proof -
  have fin: "finish_process os outcome out i \<noteq> None" for outcome out i
  proof -
    let ?stop = "case outcome of ChildExited status \<Rightarrow> Some (status, i) | _ \<Rightarrow> StopProcess os (Exited 0) i"
    obtain status i1 where "?stop = Some (status, i1)"
      using StopProcess_returns [OF assms, of "Exited 0" i] by (cases outcome) auto
    moreover obtain out1 k where "ReadAvailable os out kMaxCapturedOutputBytes i1 = Some (out1, i1\<lparr>io_reads := k\<rparr>)"
      using ReadAvailable_progress [OF assms] by blast
    ultimately show ?thesis by (simp add: finish_process_def)
  qed
  show ?thesis
  proof (cases "args = [] \<or> os_pipe os (io_spawns io) \<noteq> None \<or> os_fork os (io_spawns io) \<noteq> None")
    case True
    then show ?thesis using RunProcess_not_launched by blast
  next
    case False
    then have run: "RunProcess os args timeout_ms io =
        Option.bind (supervise os (os_clock os (io_clock_reads io) + timeout_ms * 1000000) ''''
            (io\<lparr>io_spawns := Suc (io_spawns io), io_children := Suc (io_children io),
               io_open_pipes := Suc (io_open_pipes io), io_clock_reads := Suc (io_clock_reads io)\<rparr>))
          (\<lambda>(outcome, out, io5). finish_process os outcome out io5)" (is "_ = Option.bind (supervise os ?d _ ?io) _")
      by (intro RunProcess_launched) auto
    obtain outcome out io5 where "supervise os ?d '''' ?io = Some (outcome, out, io5)"
      using supervise_returns [OF assms] by (metis surj_pair)
    with run fin [of outcome out io5] show ?thesis by auto
  qed
qed

lemma demo_host_progresses: "host_progresses demo_host"
proof -
  have "\<exists>n. \<forall>m \<ge> n. t \<le> os_clock demo_host m" for t
    by (rule exI [of _ "nat t"]) (auto simp: demo_host_def nat_le_iff)
  moreover have "\<exists>m \<ge> n. stops_reading (os_read demo_host m)" "\<exists>m \<ge> n. os_waitpid_blocking demo_host m \<noteq> BlockingInterrupted" for n
    by (rule exI [of _ "Suc (Suc n)"], simp add: demo_host_def stops_reading_def)+
  ultimately show ?thesis unfolding host_progresses_def by blast
qed

text \<open>
  C25: \<open>RunProcess\<close> returns, whatever the child does, if reads stop delivering data now and then, the clock
  passes the deadline and \<open>waitpid\<close> is not interrupted for ever.
\<close>

theorem RunProcess_returns:
  assumes "host_progresses os"
  shows "\<exists>result io'. RunProcess os args timeout_ms io = Some (result, io')"
  using assms by (rule RunProcess_total)

theorem RunProcess_returns_witness:
  "\<exists>result io'. RunProcess demo_host [''llama-cli'', ''-p'', ''x''] 100 io_start = Some (result, io')"
  by (rule RunProcess_returns) (rule demo_host_progresses)

text \<open>
  C26: The exception: a child that always has output ready is never stopped. \<open>ReadAvailable\<close> keeps reading
  (and discarding) as long as data arrives, so that neither the cancellation callback nor the deadline is
  looked at and \<open>RunProcess\<close> does not return.
\<close>

theorem RunProcess_flooded:
  assumes "\<And>n. \<exists>bytes. os_read os n = ReadData bytes" and "args \<noteq> []"
    and "os_pipe os (io_spawns io) = None" and "os_fork os (io_spawns io) = None"
  shows "RunProcess os args timeout_ms io = None"
proof -
  have read: "ReadAvailable os out limit i = None" for out limit i
  proof (rule ccontr)
    assume "ReadAvailable os out limit i \<noteq> None"
    then obtain r where "iterate (read_step os limit) (out, i) = Some r" by (auto simp: ReadAvailable_def)
    then show False
    proof (rule iterate_invariant [where I = "\<lambda>_. True"])
      fix s r
      assume "read_step os limit s = Inl r"
      moreover obtain bytes where "os_read os (io_reads (snd s)) = ReadData bytes" using assms(1) by blast
      ultimately show False by (auto simp: read_step_def read_call_def split: prod.splits)
    qed simp_all
  qed
  have "supervise os deadline out i = None" for deadline out i
    unfolding supervise_def by (subst iterate.simps) (simp add: supervise_step_def read)
  then show ?thesis using RunProcess_launched [OF assms(2-4)] by simp
qed

theorem RunProcess_flooded_witness:
  "RunProcess (demo_host\<lparr>os_read := (\<lambda>_. ReadData ''x''), os_cancelled := (\<lambda>_. True)\<rparr>) [''yes''] 100 io_start = None"
  by (rule RunProcess_flooded) (simp_all add: demo_host_def)

end
