(* ===== verification/Llama_Backends.thy ===== *)
theory Llama_Backends
  imports Backend_Api Env_Config Process Http_Stream
begin

text \<open>
  The two llama.cpp backends: \<open>LlamaCppBackend\<close> runs the command line program once per request, and
  \<open>LlamaServerBackend\<close> posts each request to a server, either waiting for the whole answer (\<open>ProcessBatch\<close>) or
  passing the tokens on as they arrive (\<open>ProcessStream\<close>).
\<close>

subsection \<open>The command line backend\<close>

definition IsExecutableFile :: "'a host_scheme \<Rightarrow> string \<Rightarrow> bool" where
  "IsExecutableFile os path = (if \<not> os_regular_file os path then False else os_executable os path)"

text \<open>\<open>std::filesystem::path::filename\<close>: what follows the last slash.\<close>

definition Basename :: "string \<Rightarrow> string" where
  "Basename path = (if path = '''' then '''' else rev (takeWhile (\<lambda>c. c \<noteq> CHR ''/'') (rev path)))"

definition BuildLlamaCppCommand ::
  "'f float_ops \<Rightarrow> string \<Rightarrow> string \<Rightarrow> string \<Rightarrow> int \<Rightarrow> int \<Rightarrow> int \<Rightarrow> 'f \<Rightarrow> string list" where
  "BuildLlamaCppCommand F binary_path model_path prompt max_tokens context_size threads temperature =
     (let args = [binary_path, ''-m'', model_path, ''-p'', prompt, ''-n'', to_string max_tokens, ''-c'',
            to_string context_size, ''--temp'', FloatToString F temperature, ''--no-display-prompt'', ''--no-show-timings'']
      in if threads > 0 then args @ [''-t'', to_string threads] else args)"

definition FormatLlamaCppOutput ::
  "'f float_ops \<Rightarrow> string \<Rightarrow> string \<Rightarrow> int \<Rightarrow> int \<Rightarrow> int \<Rightarrow> int \<Rightarrow> int \<Rightarrow> int \<Rightarrow> int \<Rightarrow> 'f \<Rightarrow> string" where
  "FormatLlamaCppOutput F generated model_path prompt_chars generated_chars duration_micros batch_size max_tokens
     context_size threads temperature =
     ''LlamaCpp(backend=llama_cpp, generated='' @ [CHR 0x27] @ EscapeSingleQuoted generated @ [CHR 0x27] @
     '', prompt_chars='' @ to_string prompt_chars @ '', generated_chars='' @ to_string generated_chars @
     '', duration_micros='' @ to_string duration_micros @ '', batch_size='' @ to_string batch_size @
     '', model='' @ [CHR 0x27] @ EscapeSingleQuoted (Basename model_path) @ [CHR 0x27] @
     '', max_tokens='' @ to_string max_tokens @ '', ctx_size='' @ to_string context_size @
     '', threads='' @ to_string threads @ '', temperature='' @ f_fixed F 3 temperature @ '')''"

record 'f LlamaCppBackend =
  lc_binary_path :: string
  lc_model_path :: string
  lc_max_tokens :: int
  lc_context_size :: int
  lc_threads :: int
  lc_temperature :: 'f
  lc_timeout_ms :: int

definition make_LlamaCppBackend ::
  "'f float_ops \<Rightarrow> string \<Rightarrow> string \<Rightarrow> int \<Rightarrow> int \<Rightarrow> int \<Rightarrow> 'f \<Rightarrow> int \<Rightarrow> 'f LlamaCppBackend" where
  "make_LlamaCppBackend F binary_path model_path max_tokens context_size threads temperature timeout_ms =
     \<lparr>lc_binary_path = binary_path, lc_model_path = model_path, lc_max_tokens = clamp_int max_tokens 1 4096,
      lc_context_size = clamp_int context_size 128 262144, lc_threads = clamp_int threads 0 1024,
      lc_temperature = f_clamp F temperature (f_lit F 0) (f_lit F 2),
      lc_timeout_ms = clamp_int timeout_ms 100 (10 * 60 * 1000)\<rparr>"

text \<open>The tests of a finished process, in the order of the code.\<close>

definition llama_cpp_failure :: "'f LlamaCppBackend \<Rightarrow> ProcessResult \<Rightarrow> BackendResult option" where
  "llama_cpp_failure b process =
     (if pr_cancelled process then Some CancelledResult
      else if pr_timed_out process
      then Some (UnavailableResult (''llama.cpp command timed out after '' @ to_string (lc_timeout_ms b) @ ''ms''))
      else if pr_launch_failed process
      then Some (UnavailableResult (''failed to launch llama.cpp command: '' @ pr_error process))
      else if pr_exit_code process \<noteq> 0
      then Some (UnavailableResult (''llama.cpp command exited with code '' @ to_string (pr_exit_code process) @
        (if pr_output process \<noteq> '''' then '': '' @ CollapseWhitespace (pr_output process) else '''')))
      else None)"

definition LlamaCpp_request ::
  "'f float_ops \<Rightarrow> 'a host_scheme \<Rightarrow> 'f LlamaCppBackend \<Rightarrow> nat \<Rightarrow> BackendRequest \<Rightarrow> io \<Rightarrow> ((BackendResult + string) \<times> io) option" where
  "LlamaCpp_request F os b batch_size request io0 =
     (let (cancelled, io1) = is_cancelled os io0
      in if cancelled then Some (Inl CancelledResult, io1)
         else
           let command = BuildLlamaCppCommand F (lc_binary_path b) (lc_model_path b) (bq_prompt request) (lc_max_tokens b)
                 (lc_context_size b) (lc_threads b) (lc_temperature b);
               (started, io2) = clock_now os io1
           in case RunProcess os command (lc_timeout_ms b) io2 of
                None \<Rightarrow> None
              | Some (process, io3) \<Rightarrow>
                  let (ended, io4) = clock_now os io3
                  in case llama_cpp_failure b process of
                       Some failure \<Rightarrow> Some (Inl failure, io4)
                     | None \<Rightarrow>
                         let generated = CollapseWhitespace (pr_output process)
                         in Some (Inr (FormatLlamaCppOutput F generated (lc_model_path b) (int (length (bq_prompt request)))
                              (int (length generated)) (micros (ended - started)) (int batch_size) (lc_max_tokens b)
                              (lc_context_size b) (lc_threads b) (lc_temperature b)), io4))"

definition LlamaCpp_ProcessBatch ::
  "'f float_ops \<Rightarrow> 'a host_scheme \<Rightarrow> 'f LlamaCppBackend \<Rightarrow> BackendRequest list \<Rightarrow> io \<Rightarrow> (BackendResult \<times> io) option" where
  "LlamaCpp_ProcessBatch F os b requests io0 =
     (let (cancelled, io1) = is_cancelled os io0
      in if cancelled then Some (CancelledResult, io1)
         else if lc_model_path b = ''''
         then Some (UnavailableResult ''LAMINAR_LLAMA_CPP_MODEL is required for llama_cpp backend'', io1)
         else if \<not> os_exists os (lc_model_path b)
         then Some (UnavailableResult (''llama.cpp model not found at '' @ lc_model_path b), io1)
         else if ContainsPathSeparator (lc_binary_path b) \<and> \<not> IsExecutableFile os (lc_binary_path b)
         then Some (UnavailableResult (''llama.cpp binary is not executable at '' @ lc_binary_path b), io1)
         else map_option (map_prod batch_result id)
           (each_request (LlamaCpp_request F os b (length requests)) requests [] io1))"

subsection \<open>The server backend\<close>

record 'f LlamaServerBackend =
  ls_server_url :: string
  ls_max_tokens :: int
  ls_temperature :: 'f
  ls_timeout_ms :: int
  ls_cache_prompt :: bool
  ls_stream :: bool
  ls_timings_per_token :: bool

definition make_LlamaServerBackend ::
  "'f float_ops \<Rightarrow> string \<Rightarrow> int \<Rightarrow> 'f \<Rightarrow> int \<Rightarrow> bool \<Rightarrow> bool \<Rightarrow> bool \<Rightarrow> 'f LlamaServerBackend" where
  "make_LlamaServerBackend F server_url max_tokens temperature timeout_ms cache_prompt stream timings_per_token =
     \<lparr>ls_server_url = server_url, ls_max_tokens = clamp_int max_tokens 1 4096,
      ls_temperature = f_clamp F temperature (f_lit F 0) (f_lit F 2),
      ls_timeout_ms = clamp_int timeout_ms 100 (10 * 60 * 1000), ls_cache_prompt = cache_prompt,
      ls_stream = stream, ls_timings_per_token = timings_per_token\<rparr>"

definition BuildLlamaServerMetadata ::
  "bool \<Rightarrow> bool \<Rightarrow> bool \<Rightarrow> LlamaServerCompletion \<Rightarrow> nat \<Rightarrow> nat \<Rightarrow> int \<Rightarrow> metadata" where
  "BuildLlamaServerMetadata stream cache_prompt timings_per_token completion prompt_chars generated_chars ttft_micros =
     make_map
       [(''stream'', BoolToJson stream), (''cache_prompt'', BoolToJson cache_prompt),
        (''timings_per_token'', BoolToJson timings_per_token),
        (''stream_chunks'', to_string (co_stream_chunks completion)), (''ttft_micros'', to_string ttft_micros),
        (''tokens_predicted'', to_string (co_tokens_predicted completion)),
        (''tokens_evaluated'', to_string (co_tokens_evaluated completion)),
        (''prompt_chars'', to_string (int prompt_chars)), (''generated_chars'', to_string (int generated_chars))]"

definition FormatLlamaServerOutput ::
  "'f float_ops \<Rightarrow> string \<Rightarrow> string \<Rightarrow> int \<Rightarrow> int \<Rightarrow> int \<Rightarrow> int \<Rightarrow> int \<Rightarrow> 'f \<Rightarrow> bool \<Rightarrow> bool \<Rightarrow> bool \<Rightarrow> int \<Rightarrow> int \<Rightarrow>
     int \<Rightarrow> int \<Rightarrow> string" where
  "FormatLlamaServerOutput F generated endpoint prompt_chars generated_chars duration_micros batch_size max_tokens
     temperature cache_prompt stream timings_per_token stream_chunks ttft_micros tokens_predicted tokens_evaluated =
     ''LlamaServer(backend=llama_server, generated='' @ [CHR 0x27] @ EscapeSingleQuoted generated @ [CHR 0x27] @
     '', prompt_chars='' @ to_string prompt_chars @ '', generated_chars='' @ to_string generated_chars @
     '', duration_micros='' @ to_string duration_micros @ '', batch_size='' @ to_string batch_size @
     '', endpoint='' @ [CHR 0x27] @ EscapeSingleQuoted endpoint @ [CHR 0x27] @
     '', max_tokens='' @ to_string max_tokens @ '', temperature='' @ f_fixed F 3 temperature @
     '', cache_prompt='' @ BoolToJson cache_prompt @ '', stream='' @ BoolToJson stream @
     '', timings_per_token='' @ BoolToJson timings_per_token @ '', stream_chunks='' @ to_string stream_chunks @
     '', ttft_micros='' @ to_string ttft_micros @ '', tokens_predicted='' @ to_string tokens_predicted @
     '', tokens_evaluated='' @ to_string tokens_evaluated @ '')''"

text \<open>The result for a response that is not a success.\<close>

definition llama_server_failure :: "HttpResponse \<Rightarrow> BackendResult" where
  "llama_server_failure response =
     UnavailableResult ((if hr_error response = '''' then ''llama server request failed'' else hr_error response) @
       (if hr_body response \<noteq> '''' then '': '' @ CollapseWhitespace (hr_body response) else ''''))"

text \<open>Output and metadata of a completion with text, for a given \<open>stream\<close> flag and batch size.\<close>

definition llama_server_output ::
  "'f float_ops \<Rightarrow> 'f LlamaServerBackend \<Rightarrow> bool \<Rightarrow> nat \<Rightarrow> BackendRequest \<Rightarrow> LlamaServerCompletion \<Rightarrow> int \<Rightarrow> int \<Rightarrow>
     string \<times> metadata" where
  "llama_server_output F b stream batch_size request completion duration_micros ttft_micros =
     (let generated = CollapseWhitespace (co_content completion)
      in (FormatLlamaServerOutput F generated (EndpointForOutput (ls_server_url b)) (int (length (bq_prompt request)))
            (int (length generated)) duration_micros (int batch_size) (ls_max_tokens b) (ls_temperature b)
            (ls_cache_prompt b) stream (ls_timings_per_token b) (co_stream_chunks completion) ttft_micros
            (co_tokens_predicted completion) (co_tokens_evaluated completion),
          BuildLlamaServerMetadata stream (ls_cache_prompt b) (ls_timings_per_token b) completion
            (length (bq_prompt request)) (length generated) ttft_micros))"

definition LlamaServer_request ::
  "'f float_ops \<Rightarrow> 'a os_scheme \<Rightarrow> 'f LlamaServerBackend \<Rightarrow> ParsedHttpUrl \<Rightarrow> nat \<Rightarrow> BackendRequest \<Rightarrow> io \<Rightarrow>
     ((BackendResult + string \<times> metadata) \<times> io) option" where
  "LlamaServer_request F os b url batch_size request io0 =
     (let (cancelled, io1) = is_cancelled os io0
      in if cancelled then Some (Inl CancelledResult, io1)
         else
           let body = BuildLlamaServerRequestBody F (bq_prompt request) (ls_max_tokens b) (ls_temperature b)
                 (ls_cache_prompt b) (ls_stream b) (ls_timings_per_token b);
               (started, io2) = clock_now os io1
           in case HttpPostJson os url body io2 of
                None \<Rightarrow> None
              | Some (response, io3) \<Rightarrow>
                  let (ended, io4) = clock_now os io3; (cancelled1, io5) = is_cancelled os io4
                  in if cancelled1 \<or> hr_error response = ''cancelled'' then Some (Inl CancelledResult, io5)
                     else if \<not> hr_ok response then Some (Inl (llama_server_failure response), io5)
                     else
                       let completion = ParseLlamaServerCompletion (hr_body response) (ls_stream b)
                       in if co_content completion = ''''
                          then Some (Inl (UnavailableResult ''llama server response did not include a content field''), io5)
                          else Some (Inr (llama_server_output F b (ls_stream b) batch_size request completion
                            (micros (ended - started)) (hr_first_response_byte_micros response)), io5))"

definition LlamaServer_ProcessBatch ::
  "'f float_ops \<Rightarrow> 'a os_scheme \<Rightarrow> 'f LlamaServerBackend \<Rightarrow> BackendRequest list \<Rightarrow> io \<Rightarrow> (BackendResult \<times> io) option" where
  "LlamaServer_ProcessBatch F os b requests io0 =
     (let (cancelled, io1) = is_cancelled os io0
      in if cancelled then Some (CancelledResult, io1)
         else
           let parsed_url = ParseHttpUrl (ls_server_url b)
           in if \<not> url_valid parsed_url
              then Some (UnavailableResult ''LAMINAR_LLAMA_SERVER_URL must be an http:// URL'', io1)
              else map_option (map_prod batch_result_meta id)
                (each_request (LlamaServer_request F os b parsed_url (length requests)) requests [] io1))"

text \<open>
  \<open>LlamaServerBackend::ProcessStream\<close>. The variables its closures capture are the \<open>stream_state\<close>; the number of
  events so far numbers the calls of \<open>emit\<close>. First what happens after the response, then the whole operation.
\<close>

definition finish_stream ::
  "'f float_ops \<Rightarrow> 'f LlamaServerBackend \<Rightarrow> BackendRequest \<Rightarrow> (nat \<Rightarrow> bool) \<Rightarrow> int \<Rightarrow> bool \<Rightarrow> HttpResponse \<Rightarrow> stream_state \<Rightarrow>
     BackendResult \<times> BackendStreamEvent list" where
  "finish_stream F b request emit duration_micros cancelled response s =
     (if cancelled \<or> hr_error response = ''cancelled'' then (CancelledResult, sm_events s)
      else if \<not> hr_ok response then (llama_server_failure response, sm_events s)
      else case flush_pending emit s of
        (False, s1) \<Rightarrow> (CancelledResult, sm_events s1)
      | (True, s1) \<Rightarrow>
          let completion = sm_completion s1
          in if co_content completion = ''''
             then (UnavailableResult ''llama server response did not include a content field'', sm_events s1)
             else
               let (out, md) = llama_server_output F b True 1 request completion duration_micros
                     (hr_first_response_byte_micros response);
                   events = sm_events s1 @ [done_event out md]
               in if \<not> emit (length (sm_events s1)) then (CancelledResult, events)
                  else (empty_result\<lparr>br_outputs := [out], br_output_metadata := [md]\<rparr>, events))"

definition LlamaServer_ProcessStream ::
  "'f float_ops \<Rightarrow> 'a os_scheme \<Rightarrow> 'f LlamaServerBackend \<Rightarrow> BackendRequest \<Rightarrow> (nat \<Rightarrow> bool) \<Rightarrow> io \<Rightarrow>
     (BackendResult \<times> BackendStreamEvent list \<times> io) option" where
  "LlamaServer_ProcessStream F os b request emit io0 =
     (if \<not> ls_stream b then ProcessStream (LlamaServer_ProcessBatch F os b) request emit io0
      else
        let (cancelled, io1) = is_cancelled os io0
        in if cancelled then Some (CancelledResult, [], io1)
           else
             let parsed_url = ParseHttpUrl (ls_server_url b)
             in if \<not> url_valid parsed_url
                then Some (UnavailableResult ''LAMINAR_LLAMA_SERVER_URL must be an http:// URL'', [], io1)
                else
                  let body = BuildLlamaServerRequestBody F (bq_prompt request) (ls_max_tokens b) (ls_temperature b)
                        (ls_cache_prompt b) True (ls_timings_per_token b);
                      (started, io2) = clock_now os io1
                  in case HttpPostJsonStream os parsed_url body (on_body emit) stream_start io2 of
                       None \<Rightarrow> None
                     | Some (response, s, io3) \<Rightarrow>
                         let (ended, io4) = clock_now os io3; (cancelled1, io5) = is_cancelled os io4;
                             (result, events) = finish_stream F b request emit (micros (ended - started)) cancelled1 response s
                         in Some (result, events, io5))"

subsection \<open>The contract\<close>

lemma llama_cpp_failure_ok: "llama_cpp_failure b process = Some failure \<Longrightarrow> result_ok requests failure"
  by (auto simp: llama_cpp_failure_def split: if_splits)

lemma LlamaCpp_request_early:
  "LlamaCpp_request F os b n request io = Some (Inl early, io') \<Longrightarrow> result_ok requests early"
  by (auto simp: LlamaCpp_request_def Let_def split: prod.splits if_splits option.splits intro: llama_cpp_failure_ok)

interpretation llama_cpp: inference_backend "LlamaCpp_ProcessBatch F os b" for F os b
proof unfold_locales
  fix requests io result io'
  assume "LlamaCpp_ProcessBatch F os b requests io = Some (result, io')"
  then show "result_ok requests result"
    using batch_result_ok [where body = "LlamaCpp_request F os b (length requests)" and requests = requests]
    by (fastforce simp: LlamaCpp_ProcessBatch_def Let_def dest: LlamaCpp_request_early split: prod.splits if_splits)
qed

lemma LlamaServer_request_early:
  "LlamaServer_request F os b url n request io = Some (Inl early, io') \<Longrightarrow> result_ok requests early"
  by (auto simp: LlamaServer_request_def llama_server_failure_def Let_def split: prod.splits if_splits option.splits)

interpretation llama_server: inference_backend "LlamaServer_ProcessBatch F os b" for F os b
proof unfold_locales
  fix requests io result io'
  assume "LlamaServer_ProcessBatch F os b requests io = Some (result, io')"
  then show "result_ok requests result"
    using batch_result_meta_ok [where body = "LlamaServer_request F os b (ParseHttpUrl (ls_server_url b)) (length requests)" and requests = requests]
    by (fastforce simp: LlamaServer_ProcessBatch_def Let_def dest: LlamaServer_request_early split: prod.splits if_splits)
qed

text \<open>
  The stream: as long as \<open>on_body\<close> accepts, every event so far is a token event that \<open>emit\<close> accepted; when it
  refuses, they are still token events and only the last one was refused.
\<close>

definition token_events :: "stream_state \<Rightarrow> bool" where
  "token_events s \<longleftrightarrow> list_all (\<lambda>ev. ev_event_type ev = ''token'') (sm_events s)"

definition accepted :: "(nat \<Rightarrow> bool) \<Rightarrow> stream_state \<Rightarrow> bool" where
  "accepted emit s \<longleftrightarrow> token_events s \<and> (\<forall>k < length (sm_events s). emit k)"

definition refused :: "(nat \<Rightarrow> bool) \<Rightarrow> stream_state \<Rightarrow> bool" where
  "refused emit s \<longleftrightarrow> token_events s \<and> (\<forall>k. Suc k < length (sm_events s) \<longrightarrow> emit k)"

lemma accepted_pending [simp]: "accepted emit (sm_pending_update f s) = accepted emit s"
  by (simp add: accepted_def token_events_def)

lemma consume_line_accepted:
  assumes "consume_line emit line s = (ok, s1)" and "accepted emit s"
  shows "if ok then accepted emit s1 else refused emit s1"
  using assms
  by (auto simp: consume_line_def Let_def accepted_def refused_def token_events_def token_event_def less_Suc_eq split: if_splits)

lemma drain_accepted:
  assumes "drain emit acc t s = (ok, s1)" and "accepted emit s"
  shows "if ok then accepted emit s1 else refused emit s1"
  using assms
proof (induction t arbitrary: acc s)
  case (Cons c cs)
  obtain ok' s' where cl: "consume_line emit acc (s\<lparr>sm_pending := cs\<rparr>) = (ok', s')" by fastforce
  have cl': "if ok' then accepted emit s' else refused emit s'" using consume_line_accepted [OF cl] Cons.prems(2) by simp
  show ?case
  proof (cases "c = CHR 0x0A \<and> \<not> ok'")
    case True
    with Cons.prems(1) cl cl' show ?thesis by simp
  next
    case False
    with Cons cl cl' show ?thesis by (cases "c = CHR 0x0A") auto
  qed
qed auto

interpretation token_stream: body_callback "on_body emit" "accepted emit" "refused emit" for emit
  by unfold_locales (auto simp: on_body_def dest: drain_accepted)

lemma flush_accepted:
  assumes "flush_pending emit s = (ok, s1)" and "accepted emit s"
  shows "if ok then accepted emit s1 else refused emit s1"
  using assms consume_line_accepted by (auto simp: flush_pending_def split: if_splits)

lemma accepted_start: "accepted emit stream_start"
  by (simp add: accepted_def token_events_def stream_start_def)

lemma LlamaServer_ProcessStream_cases:
  assumes "LlamaServer_ProcessStream F os b request emit io = Some (result, events, io')" and "ls_stream b"
  obtains (cancelled) "result = CancelledResult" and "events = []"
  | (no_url) message where "result = UnavailableResult message" and "events = []"
  | (posted) body io2 response s io3 duration cancelled where
      "HttpPostJsonStream os (ParseHttpUrl (ls_server_url b)) body (on_body emit) stream_start io2 = Some (response, s, io3)"
      and "(result, events) = finish_stream F b request emit duration cancelled response s"
proof -
  obtain c io1 where c: "is_cancelled os io = (c, io1)" by fastforce
  obtain t io2 where t: "clock_now os io1 = (t, io2)" by fastforce
  let ?body = "BuildLlamaServerRequestBody F (bq_prompt request) (ls_max_tokens b) (ls_temperature b) (ls_cache_prompt b) True (ls_timings_per_token b)"
  show ?thesis
  proof (cases "c \<or> \<not> url_valid (ParseHttpUrl (ls_server_url b))")
    case True
    with assms c show ?thesis by (auto simp: LlamaServer_ProcessStream_def Let_def split: if_splits intro: cancelled no_url)
  next
    case False
    with assms c t obtain response s io3 where
      p: "HttpPostJsonStream os (ParseHttpUrl (ls_server_url b)) ?body (on_body emit) stream_start io2 = Some (response, s, io3)"
      by (auto simp: LlamaServer_ProcessStream_def Let_def split: option.splits)
    obtain e io4 where e: "clock_now os io3 = (e, io4)" by fastforce
    obtain c1 io5 where c1: "is_cancelled os io4 = (c1, io5)" by fastforce
    show ?thesis
      using False assms c t p e c1
      by (intro posted [OF p, of "micros (e - t)" c1]) (auto simp: LlamaServer_ProcessStream_def case_prod_beta)
  qed
qed

lemma finish_stream_ok:
  assumes "(result, events) = finish_stream F b request emit duration cancelled response s"
    and "accepted emit s \<or> refused emit s \<and> hr_error response = ''cancelled''"
  shows "stream_ok emit result events"
proof (cases "cancelled \<or> hr_error response = ''cancelled'' \<or> \<not> hr_ok response")
  case True
  with assms show ?thesis
    by (auto simp: finish_stream_def stream_ok_def llama_server_failure_def accepted_def refused_def token_events_def list_all_length split: if_splits)
next
  case False
  then have acc: "accepted emit s" using assms(2) by blast
  obtain ok s1 where f: "flush_pending emit s = (ok, s1)" by fastforce
  have "if ok then accepted emit s1 else refused emit s1" using flush_accepted [OF f acc] .
  with False assms(1) f show ?thesis
    by (auto simp: finish_stream_def stream_ok_def accepted_def refused_def token_events_def empty_result_def less_Suc_eq nth_append list_all_length Let_def
        split: if_splits prod.splits bool.splits)
qed

interpretation llama_server_stream: streaming_backend "LlamaServer_ProcessStream F os b" for F os b
proof unfold_locales
  fix request emit io result events io'
  assume r: "LlamaServer_ProcessStream F os b request emit io = Some (result, events, io')"
  show "stream_ok emit result events"
  proof (cases "ls_stream b")
    case False
    with r show ?thesis
      using llama_server.default_stream_ok by (auto simp: LlamaServer_ProcessStream_def)
  next
    case True
    from r True show ?thesis
    proof (cases rule: LlamaServer_ProcessStream_cases)
      case (posted body io2 response s io3 duration cancelled)
      from token_stream.HttpPostJsonStream_spec [OF posted(1) accepted_start] posted(2) show ?thesis
        by (auto intro: finish_stream_ok)
    qed (auto simp: stream_ok_def)
  qed
qed

end
