(* ===== verification/Llama_Theorems.thy ===== *)
theory Llama_Theorems
  imports Llama_Backends Http_Equiv
begin

text \<open>
  The theorems of the llama.cpp backends: streaming agrees with waiting for the whole answer, a connection lost in the
  middle of a stream is reported as a success, and nothing the backends open stays open.
\<close>

subsection \<open>Streaming and waiting\<close>

lemma feed_on_pieces: "feed (on_body emit) pieces s = on_pieces emit pieces s"
  by (induction pieces arbitrary: s) (auto split: prod.splits bool.splits)

lemma on_body_accepts: "(\<And>k. emit k) \<Longrightarrow> fst (on_body emit piece s)"
  unfolding on_body_def by (rule drain_accepting(1))

text \<open>What a request of \<open>ProcessBatch\<close> did when it produced an output.\<close>

lemma LlamaServer_request_success:
  assumes "LlamaServer_request F os b url n request io0 = Some (Inr (out, md), io5)"
  obtains io1 started io2 response io3 ended io4 where
    "is_cancelled os io0 = (False, io1)" and "clock_now os io1 = (started, io2)"
    and "HttpPostJson os url (BuildLlamaServerRequestBody F (bq_prompt request) (ls_max_tokens b) (ls_temperature b)
                 (ls_cache_prompt b) (ls_stream b) (ls_timings_per_token b)) io2 = Some (response, io3)"
    and "clock_now os io3 = (ended, io4)" and "is_cancelled os io4 = (False, io5)" and "hr_ok response"
    and "co_content (ParseLlamaServerCompletion (hr_body response) (ls_stream b)) \<noteq> ''''"
    and "(out, md) = llama_server_output F b (ls_stream b) n request (ParseLlamaServerCompletion (hr_body response) (ls_stream b))
           (micros (ended - started)) (hr_first_response_byte_micros response)"
proof -
  obtain c io1 where c: "is_cancelled os io0 = (c, io1)" by fastforce
  obtain t io2 where t: "clock_now os io1 = (t, io2)" by fastforce
  let ?body = "BuildLlamaServerRequestBody F (bq_prompt request) (ls_max_tokens b) (ls_temperature b)
                 (ls_cache_prompt b) (ls_stream b) (ls_timings_per_token b)"
  have "\<not> c" using assms c by (auto simp: LlamaServer_request_def)
  with assms c t obtain response io3 where p: "HttpPostJson os url ?body io2 = Some (response, io3)"
    by (auto simp: LlamaServer_request_def Let_def split: option.splits)
  obtain e io4 where e: "clock_now os io3 = (e, io4)" by fastforce
  obtain c1 io5' where c1: "is_cancelled os io4 = (c1, io5')" by fastforce
  show ?thesis
    by (rule that [of io1 t io2 response io3 e io4])
      (use assms \<open>\<not> c\<close> c t p e c1 in \<open>auto simp: LlamaServer_request_def Let_def split: if_splits\<close>)
qed

text \<open>
  C11: Streaming a request from a llama server gives the result that waiting for the whole answer gives, with the
  same calls: if the request succeeds as part of a batch of one, the client accepts every event and the server sends no
  more than 64 KiB before the end of its headers (the stream's own limit), \<open>ProcessStream\<close> returns the same output and
  metadata, after token events and one \<open>done\<close> event.
\<close>

theorem LlamaServer_stream_agrees:
  assumes "ls_stream b" and "url_valid (ParseHttpUrl (ls_server_url b))" and "\<And>k. emit k"
    and "LlamaServer_request F os b (ParseHttpUrl (ls_server_url b)) 1 request io = Some (Inr (out, md), io')"
    and "headers_fit os (io_recvs io)"
  shows "\<exists>tokens. list_all (\<lambda>ev. ev_event_type ev = ''token'') tokens \<and>
      LlamaServer_ProcessStream F os b request emit io =
        Some (empty_result\<lparr>br_outputs := [out], br_output_metadata := [md]\<rparr>, tokens @ [done_event out md], io')"
  using assms(4)

proof (rule LlamaServer_request_success)
  fix io1 io2 io3 io4 :: io and response :: HttpResponse and started ended
  let ?url = "ParseHttpUrl (ls_server_url b)"
  let ?body = "BuildLlamaServerRequestBody F (bq_prompt request) (ls_max_tokens b) (ls_temperature b)
                 (ls_cache_prompt b) (ls_stream b) (ls_timings_per_token b)"
  let ?completion = "ParseLlamaServerCompletion (hr_body response) (ls_stream b)"
  assume c: "is_cancelled os io = (False, io1)" and t: "clock_now os io1 = (started, io2)"
    and p: "HttpPostJson os ?url ?body io2 = Some (response, io3)"
    and e: "clock_now os io3 = (ended, io4)" and c1: "is_cancelled os io4 = (False, io')" and ok: "hr_ok response"
    and ne: "co_content ?completion \<noteq> ''''"
    and om: "(out, md) = llama_server_output F b (ls_stream b) 1 request ?completion (micros (ended - started)) (hr_first_response_byte_micros response)"
  from p ok on_body_accepts [OF assms(3)] show ?thesis
  proof (rule HttpPostJsonStream_same_body [where ?s0.0 = stream_start])
    fix response1 :: HttpResponse and s1 i
    assume "HttpPostJsonStream os ?url ?body (on_body emit) stream_start io2 = Some (response1, s1, i)"
      and "\<not> hr_ok response1" and "hr_error response1 = ''llama server response headers exceeded 64 KiB''"
    with HttpPostJsonStream_headers_fit assms(5) is_cancelled_frame [OF c] clock_now_frame [OF t] show ?thesis
      by fastforce
  next
    fix response1 :: HttpResponse and pieces
    assume st: "HttpPostJsonStream os ?url ?body (on_body emit) stream_start io2 = Some (response1, snd (feed (on_body emit) pieces stream_start), io3)"
      and r1: "hr_ok response1" "hr_error response1 = ''''" "concat pieces = hr_body response"
        "hr_first_response_byte_micros response1 = hr_first_response_byte_micros response"
    define s where "s = snd (on_pieces emit pieces stream_start)"
    obtain s' where fl: "flush_pending emit s = (True, s')" and comp: "sm_completion s' = ?completion"
      using stream_spec [where emit = emit and pieces = pieces, OF assms(3)] r1(3) assms(1)
      by (auto simp: s_def split: prod.splits)
    have "accepted emit s"
      using token_stream.HttpPostJsonStream_spec [OF st accepted_start] r1(2) by (simp add: s_def feed_on_pieces)
    with flush_accepted [OF fl] have tok: "list_all (\<lambda>ev. ev_event_type ev = ''token'') (sm_events s')"
      by (simp add: accepted_def token_events_def)
    have fin: "finish_stream F b request emit (micros (ended - started)) False response1 s =
        (empty_result\<lparr>br_outputs := [out], br_output_metadata := [md]\<rparr>, sm_events s' @ [done_event out md])"
      using fl comp ne om r1 assms(1,3) by (simp add: finish_stream_def Let_def case_prod_beta) (metis fst_conv snd_conv)
    have "LlamaServer_ProcessStream F os b request emit io =
        Some (empty_result\<lparr>br_outputs := [out], br_output_metadata := [md]\<rparr>, sm_events s' @ [done_event out md], io')"
      using c t st e c1 fin assms(1,2)
      by (simp add: LlamaServer_ProcessStream_def Let_def s_def [symmetric] feed_on_pieces)
    with tok show ?thesis by blast
  qed
qed

subsection \<open>Examples\<close>

definition demo_server :: "rat LlamaServerBackend" where
  "demo_server = make_LlamaServerBackend rat_ops ''http://h:1/'' 8 1 1000 True True True"

definition demo_prompt :: BackendRequest where
  "demo_prompt = \<lparr>bq_id = ''r1'', bq_prompt = ''hi'', bq_trace_id = ''t1''\<rparr>"

text \<open>A server whose answer is the headers and a first token; what follows is a parameter.\<close>

definition token_server :: "recv_result \<Rightarrow> os" where
  "token_server next = demo_os\<lparr>os_recv := (\<lambda>n.
     if n = 0 then RecvData (''HTTP/1.1 200 OK'' @ crlf @ crlf)
     else if n = 1 then RecvData (''data: {'' @ [CHR 0x22] @ ''content'' @ [CHR 0x22] @ '':'' @ [CHR 0x22] @ ''ok'' @ [CHR 0x22] @ ''}'' @ [CHR 0x0A])
     else next)\<rparr>"

lemma demo_request_succeeds:
  "case LlamaServer_request rat_ops (token_server RecvEof) demo_server (ParseHttpUrl (ls_server_url demo_server)) 1 demo_prompt io_start of
     Some (Inr (out, md), io') \<Rightarrow> True | _ \<Rightarrow> False"
  by code_simp

lemma token_server_headers: "headers_fit (token_server next) 0"
  unfolding headers_fit_def
proof (intro allI impI)
  fix m
  let ?head = "''HTTP/1.1 200 OK'' @ crlf @ crlf"
  assume none: "str_find (crlf @ crlf) (received (token_server next) 0 m) = None"
  show "length (received (token_server next) 0 m) \<le> 64 * 1024"
  proof (cases m)
    case (Suc k)
    have "[0..<Suc k] = 0 # [1..<Suc k]" by (simp add: upt_rec)
    then have "\<exists>rest. received (token_server next) 0 m = ?head @ rest"
      unfolding received_def Suc by (simp add: token_server_def)
    moreover have "str_find (crlf @ crlf) ?head = Some 15" by code_simp
    ultimately show ?thesis using none str_find_append [of "crlf @ crlf" ?head 15] by fastforce
  qed (simp add: received_def)
qed

theorem LlamaServer_stream_agrees_witness:
  "\<exists>out md io' tokens. LlamaServer_request rat_ops (token_server RecvEof) demo_server (ParseHttpUrl (ls_server_url demo_server)) 1 demo_prompt io_start =
       Some (Inr (out, md), io') \<and>
     LlamaServer_ProcessStream rat_ops (token_server RecvEof) demo_server demo_prompt (\<lambda>_. True) io_start =
         Some (empty_result\<lparr>br_outputs := [out], br_output_metadata := [md]\<rparr>, tokens @ [done_event out md], io')"
proof -
  obtain out md io' where r: "LlamaServer_request rat_ops (token_server RecvEof) demo_server (ParseHttpUrl (ls_server_url demo_server)) 1 demo_prompt io_start =
      Some (Inr (out, md), io')"
    using demo_request_succeeds by (auto split: option.splits sum.splits prod.splits)
  have "ls_stream demo_server" "url_valid (ParseHttpUrl (ls_server_url demo_server))" by code_simp+
  with LlamaServer_stream_agrees [of demo_server "\<lambda>_. True" rat_ops "token_server RecvEof" demo_prompt io_start out md io'] r
    token_server_headers [of RecvEof]
  show ?thesis by (fastforce simp: io_start_def)
qed

text \<open>
  C29: A stream that is cut by a failing \<open>recv\<close> (a reset, or the socket's receive timeout) is reported exactly as one
  that the server ended there: whatever the server, the client and the call \<open>n\<close>, if \<open>ProcessStream\<close> succeeds when the
  \<open>n\<close>-th \<open>recv\<close> is the end of the response, it succeeds with the same output, metadata and events, \<open>done\<close> event
  included, when the \<open>n\<close>-th \<open>recv\<close> fails. The client cannot tell a truncated answer from a complete one.
\<close>

theorem LlamaServer_stream_truncated:
  assumes "ls_stream b" and "br_code result = kOk"
    and "LlamaServer_ProcessStream F (os\<lparr>os_recv := (os_recv os)(n := RecvEof)\<rparr>) b request emit io = Some (result, events, io')"
  shows "LlamaServer_ProcessStream F (os\<lparr>os_recv := (os_recv os)(n := RecvError)\<rparr>) b request emit io = Some (result, events, io')"
proof -
  let ?body = "BuildLlamaServerRequestBody F (bq_prompt request) (ls_max_tokens b) (ls_temperature b)
                 (ls_cache_prompt b) True (ls_timings_per_token b)"
  let ?eof = "os\<lparr>os_recv := (os_recv os)(n := RecvEof)\<rparr>" and ?fail = "os\<lparr>os_recv := (os_recv os)(n := RecvError)\<rparr>"
  have calls: "is_cancelled (os\<lparr>os_recv := f\<rparr>) i = is_cancelled os i" "clock_now (os\<lparr>os_recv := f\<rparr>) i = clock_now os i" for f i
    by (simp_all add: is_cancelled_def clock_now_def)
  obtain io1 where c: "is_cancelled os io = (False, io1)" and url: "url_valid (ParseHttpUrl (ls_server_url b))"
    using assms
    by (cases "is_cancelled os io"; cases "url_valid (ParseHttpUrl (ls_server_url b))")
      (auto simp: LlamaServer_ProcessStream_def calls split: if_splits)
  obtain started io2 where t: "clock_now os io1 = (started, io2)" by fastforce
  obtain response s io3 where p: "HttpPostJsonStream ?eof (ParseHttpUrl (ls_server_url b)) ?body (on_body emit) stream_start io2 = Some (response, s, io3)"
    using assms c url t by (auto simp: LlamaServer_ProcessStream_def calls split: option.splits)
  obtain ended io4 where e: "clock_now os io3 = (ended, io4)" by fastforce
  obtain c1 io5 where c1: "is_cancelled os io4 = (c1, io5)" by fastforce
  have fin: "finish_stream F b request emit (micros (ended - started)) c1 response s = (result, events)" and "io' = io5"
    using assms(1,3) c url t p e c1 by (simp_all add: LlamaServer_ProcessStream_def calls case_prod_beta prod_eq_iff)
  have ok: "hr_ok response" and running: "\<not> c1" "hr_error response \<noteq> ''cancelled''"
    using fin assms(2) by (auto simp: finish_stream_def llama_server_failure_def split: if_splits)
  obtain error where f: "HttpPostJsonStream ?fail (ParseHttpUrl (ls_server_url b)) ?body (on_body emit) stream_start io2 =
      Some (response\<lparr>hr_error := error\<rparr>, s, io3)"
    and error: "error = hr_error response \<or> error = ''failed to read response from llama server'' \<and> hr_error response \<noteq> ''cancelled''"
    using HttpPostJsonStream_fails [OF p ok] by blast
  have "finish_stream F b request emit (micros (ended - started)) c1 (response\<lparr>hr_error := error\<rparr>) s = (result, events)"
  proof -
    have "hr_first_response_byte_micros (response\<lparr>hr_error := error\<rparr>) = hr_first_response_byte_micros response" by simp
    moreover have "error \<noteq> ''cancelled''" using running error by auto
    ultimately show ?thesis using fin ok running by (simp only: finish_stream_def) simp
  qed
  then show ?thesis
    using assms(1) c url t f e c1 \<open>io' = io5\<close> by (simp add: LlamaServer_ProcessStream_def calls)
qed

lemma demo_stream_ends:
  "case LlamaServer_ProcessStream rat_ops ((token_server RecvEof)\<lparr>os_recv := (os_recv (token_server RecvEof))(2 := RecvEof)\<rparr>)
      demo_server demo_prompt (\<lambda>_. True) io_start of
     Some (result, events, _) \<Rightarrow> br_code result = kOk \<and> map ev_event_type events = [''token'', ''done'']
   | None \<Rightarrow> False"
  by code_simp

theorem LlamaServer_stream_truncated_witness:
  "\<exists>result events io'. br_code result = kOk \<and> map ev_event_type events = [''token'', ''done''] \<and>
     LlamaServer_ProcessStream rat_ops ((token_server RecvEof)\<lparr>os_recv := (os_recv (token_server RecvEof))(2 := RecvError)\<rparr>)
       demo_server demo_prompt (\<lambda>_. True) io_start = Some (result, events, io')"
proof -
  obtain result events io' where "LlamaServer_ProcessStream rat_ops ((token_server RecvEof)\<lparr>os_recv := (os_recv (token_server RecvEof))(2 := RecvEof)\<rparr>)
      demo_server demo_prompt (\<lambda>_. True) io_start = Some (result, events, io')"
    and "br_code result = kOk" "map ev_event_type events = [''token'', ''done'']"
    using demo_stream_ends by (auto split: option.splits prod.splits)
  moreover have "ls_stream demo_server" by code_simp
  ultimately show ?thesis
    using LlamaServer_stream_truncated [of demo_server result rat_ops "token_server RecvEof" 2 demo_prompt "\<lambda>_. True" io_start events io'] by metis
qed

subsection \<open>Nothing stays open\<close>

lemma LlamaServer_request_sockets:
  assumes "LlamaServer_request F os b url n request io = Some (out, io')"
  shows "same_resources io io'"
proof -
  obtain c io1 where c: "is_cancelled os io = (c, io1)" by fastforce
  obtain t io2 where t: "clock_now os io1 = (t, io2)" by fastforce
  let ?body = "BuildLlamaServerRequestBody F (bq_prompt request) (ls_max_tokens b) (ls_temperature b)
                 (ls_cache_prompt b) (ls_stream b) (ls_timings_per_token b)"
  show ?thesis
  proof (cases c)
    case True
    with assms c is_cancelled_frame [OF c] show ?thesis by (auto simp: LlamaServer_request_def same_resources_def)
  next
    case False
    with assms c t obtain response io3 where p: "HttpPostJson os url ?body io2 = Some (response, io3)"
      by (auto simp: LlamaServer_request_def Let_def split: option.splits)
    obtain e io4 where e: "clock_now os io3 = (e, io4)" by fastforce
    obtain c1 io5 where c1: "is_cancelled os io4 = (c1, io5)" by fastforce
    have "io' = io5" using assms False c t p e c1 by (auto simp: LlamaServer_request_def Let_def split: if_splits)
    then show ?thesis
      using is_cancelled_frame [OF c] clock_now_frame [OF t] HttpPostJson_spec [OF p] clock_now_frame [OF e] is_cancelled_frame [OF c1]
      by (simp add: same_resources_def)
  qed
qed

lemma LlamaServer_batch_sockets:
  assumes "LlamaServer_ProcessBatch F os b requests io = Some (result, io')"
  shows "same_resources io io'"
proof -
  obtain c io1 where c: "is_cancelled os io = (c, io1)" by fastforce
  have io1: "same_resources io io1" using is_cancelled_frame [OF c] by (simp add: same_resources_def)
  show ?thesis
  proof (cases "c \<or> \<not> url_valid (ParseHttpUrl (ls_server_url b))")
    case True
    with assms c io1 show ?thesis by (auto simp: LlamaServer_ProcessBatch_def Let_def split: if_splits)
  next
    case False
    with assms c obtain out where
      e: "each_request (LlamaServer_request F os b (ParseHttpUrl (ls_server_url b)) (length requests)) requests [] io1 = Some (out, io')"
      by (auto simp: LlamaServer_ProcessBatch_def)
    show ?thesis
    proof (rule each_request_invariant [where I = "same_resources io", OF e io1])
      fix request i r i1
      assume "same_resources io i" and "LlamaServer_request F os b (ParseHttpUrl (ls_server_url b)) (length requests) request i = Some (r, i1)"
      with LlamaServer_request_sockets show "same_resources io i1" by (fastforce simp: same_resources_def)
    qed
  qed
qed

lemma default_stream_state:
  "ProcessStream process request emit s = Some (result, events, s') \<Longrightarrow> \<exists>res. process [request] s = Some (res, s')"
  by (auto simp: ProcessStream_def Let_def split: option.splits if_splits)

lemma LlamaServer_stream_sockets:
  assumes "LlamaServer_ProcessStream F os b request emit io = Some (result, events, io')"
  shows "same_resources io io'"
proof (cases "ls_stream b")
  case False
  with assms show ?thesis
    by (auto simp: LlamaServer_ProcessStream_def dest!: default_stream_state intro: LlamaServer_batch_sockets)
next
  case True
  obtain c io1 where c: "is_cancelled os io = (c, io1)" by fastforce
  obtain t io2 where t: "clock_now os io1 = (t, io2)" by fastforce
  let ?body = "BuildLlamaServerRequestBody F (bq_prompt request) (ls_max_tokens b) (ls_temperature b) (ls_cache_prompt b) True (ls_timings_per_token b)"
  show ?thesis
  proof (cases "c \<or> \<not> url_valid (ParseHttpUrl (ls_server_url b))")
    case True
    with assms c \<open>ls_stream b\<close> is_cancelled_frame [OF c] show ?thesis
      by (auto simp: LlamaServer_ProcessStream_def same_resources_def Let_def split: if_splits)
  next
    case False
    with assms c t \<open>ls_stream b\<close> obtain response s io3 where
      p: "HttpPostJsonStream os (ParseHttpUrl (ls_server_url b)) ?body (on_body emit) stream_start io2 = Some (response, s, io3)"
      by (auto simp: LlamaServer_ProcessStream_def Let_def split: option.splits)
    obtain e io4 where e: "clock_now os io3 = (e, io4)" by fastforce
    obtain c1 io5 where c1: "is_cancelled os io4 = (c1, io5)" by fastforce
    have "io' = io5"
      using assms False c t p e c1 \<open>ls_stream b\<close> by (auto simp: LlamaServer_ProcessStream_def case_prod_beta)
    then show ?thesis
      using is_cancelled_frame [OF c] clock_now_frame [OF t] any_callback.HttpPostJsonStream_spec [OF p]
        clock_now_frame [OF e] is_cancelled_frame [OF c1]
      by (simp add: same_resources_def)
  qed
qed

text \<open>
  C27: However a batch or a stream of the llama server backend ends, no socket stays open and no resolver result stays
  allocated.
\<close>

theorem LlamaServer_closes_sockets:
  "(LlamaServer_ProcessBatch F os b requests io = Some (result, io') \<longrightarrow>
      io_open_sockets io' = io_open_sockets io \<and> io_addrinfos io' = io_addrinfos io) \<and>
   (LlamaServer_ProcessStream F os b request emit io = Some (result, events, io'') \<longrightarrow>
      io_open_sockets io'' = io_open_sockets io \<and> io_addrinfos io'' = io_addrinfos io)"
  using LlamaServer_batch_sockets [of F os b requests io result io'] LlamaServer_stream_sockets [of F os b request emit io result events io'']
  by (auto simp: same_resources_def)

theorem LlamaServer_closes_sockets_witness:
  "\<exists>result events io''. LlamaServer_ProcessStream rat_ops (token_server RecvError) demo_server demo_prompt (\<lambda>_. True) io_start =
     Some (result, events, io'') \<and> io_open_sockets io'' = 0"
proof -
  have "map_option (\<lambda>_. ()) (LlamaServer_ProcessStream rat_ops (token_server RecvError) demo_server demo_prompt (\<lambda>_. True) io_start) = Some ()" by code_simp
  then obtain result events io'' where
    r: "LlamaServer_ProcessStream rat_ops (token_server RecvError) demo_server demo_prompt (\<lambda>_. True) io_start = Some (result, events, io'')" by auto
  with LlamaServer_closes_sockets [of rat_ops "token_server RecvError" demo_server "[]" io_start result io'' demo_prompt "\<lambda>_. True" events io'']
  show ?thesis by (auto simp: io_start_def)
qed

lemma is_cancelled_pipes: "is_cancelled os io = (c, io') \<Longrightarrow> io_open_pipes io' = io_open_pipes io"
  by (auto simp: is_cancelled_def)

lemma clock_now_pipes: "clock_now os io = (t, io') \<Longrightarrow> io_open_pipes io' = io_open_pipes io"
  by (auto simp: clock_now_def)

lemma LlamaCpp_request_pipes:
  assumes "LlamaCpp_request F os b n request io = Some (out, io')"
  shows "io_open_pipes io' = io_open_pipes io"
  using assms
  by (auto simp: LlamaCpp_request_def Let_def split: prod.splits if_splits option.splits
      dest!: is_cancelled_pipes clock_now_pipes RunProcess_spec)

text \<open>
  However a batch of the llama.cpp backend ends, every pipe to a child process is closed.
\<close>

theorem LlamaCpp_closes_pipes:
  assumes "LlamaCpp_ProcessBatch F os b requests io = Some (result, io')"
  shows "io_open_pipes io' = io_open_pipes io"
proof -
  obtain c io1 where c: "is_cancelled os io = (c, io1)" by fastforce
  note io1 = is_cancelled_pipes [OF c]
  consider "io' = io1" | out where "each_request (LlamaCpp_request F os b (length requests)) requests [] io1 = Some (out, io')"
    using assms c by (auto simp: LlamaCpp_ProcessBatch_def Let_def split: if_splits)
  then show ?thesis
  proof cases
    case (2 out)
    from 2 io1 show ?thesis
      by (rule each_request_invariant [where I = "\<lambda>i. io_open_pipes i = io_open_pipes io"]) (metis LlamaCpp_request_pipes)
  qed (use io1 in simp)
qed

definition demo_llama_cpp :: "rat LlamaCppBackend" where
  "demo_llama_cpp = make_LlamaCppBackend rat_ops ''llama-cli'' ''m.gguf'' 8 128 0 1 5000"

theorem LlamaCpp_closes_pipes_witness:
  "\<exists>result io'. LlamaCpp_ProcessBatch rat_ops (demo_host\<lparr>os_clock := (\<lambda>_. 0)\<rparr>) demo_llama_cpp [demo_prompt] io_start = Some (result, io') \<and> io_open_pipes io' = 0"
proof -
  have "map_option (\<lambda>_. ()) (LlamaCpp_ProcessBatch rat_ops (demo_host\<lparr>os_clock := (\<lambda>_. 0)\<rparr>) demo_llama_cpp [demo_prompt] io_start) = Some ()" by code_simp
  then obtain result io' where r: "LlamaCpp_ProcessBatch rat_ops (demo_host\<lparr>os_clock := (\<lambda>_. 0)\<rparr>) demo_llama_cpp [demo_prompt] io_start = Some (result, io')" by auto
  with LlamaCpp_closes_pipes [OF r] show ?thesis by (simp add: io_start_def)
qed

end
