(* ===== verification/Onnx_Backend.thy ===== *)
theory Onnx_Backend
  imports Backend_Api Env_Config Process
begin

text \<open>
  \<open>OnnxRuntimeBackend\<close>: loading the runtime library, creating the session, running batches of three, and the
  destructor. The dynamic loader and the ONNX Runtime API are not part of the repository; their answers are the record
  \<open>ort_api\<close>, a parameter. A call that can fail answers \<^term>\<open>None\<close> for success or the text of its error. The state
  \<open>onnx_impl\<close> says which handles are held and how many tensor values are alive. Calls are modelled one after the other:
  two batches that run at the same time and both set \<open>ready\<close> and \<open>unavailable_reason\<close> are not.
\<close>

subsection \<open>Features\<close>

definition NormalizedHashFeature :: "'f float_ops \<Rightarrow> string \<Rightarrow> 'f" where
  "NormalizedHashFeature F prompt = f_div F (f_of_int F (uint (HashToken prompt mod 10000))) (f_lit F 10000)"

definition IrisLikeFeatures :: "'f float_ops \<Rightarrow> string \<Rightarrow> 'f list" where
  "IrisLikeFeatures F prompt =
     [f_min F (f_div F (f_of_int F (int (length prompt))) (f_lit F 128)) (f_lit F 1), NormalizedHashFeature F prompt]"

subsection \<open>The runtime\<close>

record 'f ort_api =
  ort_dlopen :: "string \<Rightarrow> string option option"
  ort_symbol :: bool
  ort_api_base :: bool
  ort_api_version :: bool
  ort_CreateEnv :: "string option"
  ort_CreateSessionOptions :: "string option"
  ort_SetIntraOpNumThreads :: "string option"
  ort_SetInterOpNumThreads :: "string option"
  ort_CreateCpuMemoryInfo :: "string option"
  ort_CreateSession :: "string \<Rightarrow> string option"
  ort_CreateTensor :: "nat \<Rightarrow> 'f list \<Rightarrow> string option"
  ort_Run :: "nat \<Rightarrow> 'f list \<Rightarrow> string option"
  ort_GetTensorMutableData :: "nat \<Rightarrow> string option"
  ort_labels :: "nat \<Rightarrow> 'f list \<Rightarrow> nat \<Rightarrow> int"

record onnx_impl =
  ox_model_path :: string
  ox_runtime_library_path :: string
  ox_unavailable_reason :: string
  ox_ready :: bool
  ox_library_handle :: bool
  ox_api :: bool
  ox_env :: bool
  ox_session_options :: bool
  ox_memory_info :: bool
  ox_session :: bool
  ox_values :: nat
  ox_runs :: nat

definition CheckStatus :: "string option \<Rightarrow> string \<Rightarrow> onnx_impl \<Rightarrow> bool \<times> onnx_impl" where
  "CheckStatus status operation impl = (case status of
     None \<Rightarrow> (True, impl)
   | Some message \<Rightarrow>
       let error = (if ox_api impl then message else '''')
       in (False, impl\<lparr>ox_unavailable_reason := operation @ '' failed'' @ (if error \<noteq> '''' then '': '' @ error else ''''),
                        ox_ready := False\<rparr>))"

definition empty_impl :: "string \<Rightarrow> string \<Rightarrow> onnx_impl" where
  "empty_impl model_path runtime_library_path =
     \<lparr>ox_model_path = model_path, ox_runtime_library_path = runtime_library_path,
      ox_unavailable_reason = ''onnx runtime is not initialized'', ox_ready = False, ox_library_handle = False,
      ox_api = False, ox_env = False, ox_session_options = False, ox_memory_info = False, ox_session = False,
      ox_values = 0, ox_runs = 0\<rparr>"

text \<open>
  The calls on the API after it was found: each is checked, sets its handle on success, and ends the
  initialisation on failure.
\<close>

definition api_step :: "string option \<Rightarrow> string \<Rightarrow> (onnx_impl \<Rightarrow> onnx_impl) \<Rightarrow> onnx_impl + onnx_impl \<Rightarrow> onnx_impl + onnx_impl" where
  "api_step status operation handle r = (case r of
     Inl impl \<Rightarrow> Inl impl
   | Inr impl \<Rightarrow>
       (case CheckStatus status operation (if status = None then handle impl else impl) of
          (True, impl1) \<Rightarrow> Inr impl1 | (False, impl1) \<Rightarrow> Inl impl1))"

definition create_session :: "'f ort_api \<Rightarrow> onnx_impl \<Rightarrow> onnx_impl" where
  "create_session ort impl0 =
     (let r1 = api_step (ort_CreateEnv ort) ''CreateEnv'' (ox_env_update (\<lambda>_. True)) (Inr impl0);
          r2 = api_step (ort_CreateSessionOptions ort) ''CreateSessionOptions'' (ox_session_options_update (\<lambda>_. True)) r1;
          r3 = api_step (ort_SetIntraOpNumThreads ort) ''SetIntraOpNumThreads'' (\<lambda>impl. impl) r2;
          r4 = api_step (ort_SetInterOpNumThreads ort) ''SetInterOpNumThreads'' (\<lambda>impl. impl) r3;
          r5 = api_step (ort_CreateCpuMemoryInfo ort) ''CreateCpuMemoryInfo'' (ox_memory_info_update (\<lambda>_. True)) r4;
          r6 = api_step (ort_CreateSession ort (ox_model_path impl0)) ''CreateSession'' (ox_session_update (\<lambda>_. True)) r5
      in case r6 of Inl impl \<Rightarrow> impl | Inr impl \<Rightarrow> impl\<lparr>ox_ready := True\<rparr>)"

definition Initialize :: "'a host_scheme \<Rightarrow> 'f ort_api \<Rightarrow> onnx_impl \<Rightarrow> onnx_impl" where
  "Initialize os ort impl0 =
     (let impl = (if ox_runtime_library_path impl0 = ''''
            then impl0\<lparr>ox_runtime_library_path := DefaultOnnxRuntimeLibraryPath\<rparr> else impl0);
          path = ox_runtime_library_path impl
      in if \<not> os_exists os path then impl\<lparr>ox_unavailable_reason := ''libonnxruntime not found at '' @ path\<rparr>
         else if \<not> os_exists os (ox_model_path impl)
         then impl\<lparr>ox_unavailable_reason := ''ONNX model not found at '' @ ox_model_path impl\<rparr>
         else case ort_dlopen ort path of
           Some error \<Rightarrow> impl\<lparr>ox_unavailable_reason := ''failed to load libonnxruntime'' @
             (case error of None \<Rightarrow> '''' | Some text \<Rightarrow> '': '' @ text)\<rparr>
         | None \<Rightarrow>
             let impl1 = impl\<lparr>ox_library_handle := True\<rparr>
             in if \<not> ort_symbol ort
                then impl1\<lparr>ox_unavailable_reason := ''OrtGetApiBase symbol not found in '' @ path\<rparr>
                else if \<not> ort_api_base ort then impl1\<lparr>ox_unavailable_reason := ''OrtGetApiBase returned null''\<rparr>
                else if \<not> ort_api_version ort
                then impl1\<lparr>ox_unavailable_reason := ''ONNX Runtime API version is unavailable''\<rparr>
                else create_session ort (impl1\<lparr>ox_api := True\<rparr>))"

definition OnnxRuntimeBackend :: "'a host_scheme \<Rightarrow> 'f ort_api \<Rightarrow> string \<Rightarrow> string \<Rightarrow> onnx_impl" where
  "OnnxRuntimeBackend os ort model_path runtime_library_path =
     Initialize os ort (empty_impl model_path runtime_library_path)"

definition destroy_impl :: "onnx_impl \<Rightarrow> onnx_impl" where
  "destroy_impl impl =
     (let released =
            (if ox_api impl then
               let impl1 = (if ox_session impl then impl\<lparr>ox_session := False\<rparr> else impl);
                   impl2 = (if ox_session_options impl1 then impl1\<lparr>ox_session_options := False\<rparr> else impl1);
                   impl3 = (if ox_memory_info impl2 then impl2\<lparr>ox_memory_info := False\<rparr> else impl2)
               in if ox_env impl3 then impl3\<lparr>ox_env := False\<rparr> else impl3
             else impl)
      in if ox_library_handle released then released\<lparr>ox_library_handle := False\<rparr> else released)"

subsection \<open>Running\<close>

definition kModelBatch :: nat where "kModelBatch = 3"

text \<open>The input of a chunk: the features of its requests, padded with zeros to the batch of the model.\<close>

definition chunk_input :: "'f float_ops \<Rightarrow> BackendRequest list \<Rightarrow> 'f list" where
  "chunk_input F chunk =
     concat (map (\<lambda>request. IrisLikeFeatures F (bq_prompt request)) chunk) @
       replicate (2 * (kModelBatch - length chunk)) (f_lit F 0)"

definition FormatOnnxOutput :: "int \<Rightarrow> nat \<Rightarrow> string" where
  "FormatOnnxOutput label batch_size =
     ''OnnxRuntime(backend=onnx, model=logreg_iris, label='' @ to_string label @ '', batch_size='' @
     to_string (int batch_size) @ '', model_batch=3)''"

text \<open>One run of the model on a chunk: the labels of its requests, or the failure.\<close>

definition run_chunk :: "'f ort_api \<Rightarrow> 'f list \<Rightarrow> nat \<Rightarrow> onnx_impl \<Rightarrow> (BackendResult + int list) \<times> onnx_impl" where
  "run_chunk ort input chunk_size impl0 =
     (let k = ox_runs impl0; impl = impl0\<lparr>ox_runs := Suc k\<rparr>
      in case CheckStatus (ort_CreateTensor ort k input) ''CreateTensorWithDataAsOrtValue'' impl of
           (False, impl1) \<Rightarrow> (Inl (UnavailableResult (ox_unavailable_reason impl1)), impl1)
         | (True, impl1) \<Rightarrow>
             (let impl2 = impl1\<lparr>ox_values := ox_values impl1 + 1\<rparr>;
                  run_status = ort_Run ort k input;
                  impl3 = impl2\<lparr>ox_values := ox_values impl2 + (if run_status = None then 1 else 0)\<rparr>;
                  impl4 = impl3\<lparr>ox_values := ox_values impl3 - 1\<rparr>
              in case CheckStatus run_status ''Run'' impl4 of
                   (False, impl5) \<Rightarrow> (Inl (UnavailableResult (ox_unavailable_reason impl5)), impl5)
                 | (True, impl5) \<Rightarrow>
                     (case CheckStatus (ort_GetTensorMutableData ort k) ''GetTensorMutableData'' impl5 of
                        (False, impl6) \<Rightarrow>
                          (let impl7 = impl6\<lparr>ox_values := ox_values impl6 - 1\<rparr>
                           in (Inl (UnavailableResult (ox_unavailable_reason impl7)), impl7))
                      | (True, impl6) \<Rightarrow>
                          (Inr (map (ort_labels ort k input) [0..<chunk_size]), impl6\<lparr>ox_values := ox_values impl6 - 1\<rparr>))))"

text \<open>The loop over the batch in steps of three.\<close>

function onnx_chunks ::
  "'f float_ops \<Rightarrow> 'a os_scheme \<Rightarrow> 'f ort_api \<Rightarrow> nat \<Rightarrow> BackendRequest list \<Rightarrow> string list \<Rightarrow> onnx_impl \<times> io \<Rightarrow>
     (BackendResult + string list) \<times> onnx_impl \<times> io" where
  "onnx_chunks F os ort batch_size requests outputs (impl, io) =
     (if requests = [] then (Inr outputs, impl, io)
      else
        let (cancelled, io1) = is_cancelled os io
        in if cancelled then (Inl CancelledResult, impl, io1)
           else
             let chunk = take kModelBatch requests
             in case run_chunk ort (chunk_input F chunk) (length chunk) impl of
                  (Inl failure, impl1) \<Rightarrow> (Inl failure, impl1, io1)
                | (Inr labels, impl1) \<Rightarrow>
                    onnx_chunks F os ort batch_size (drop kModelBatch requests)
                      (outputs @ map (\<lambda>label. FormatOnnxOutput label batch_size) labels) (impl1, io1))"
  by pat_completeness auto
termination by (relation "measure (\<lambda>(F, os, ort, n, requests, outputs, s). length requests)") (auto simp: kModelBatch_def)

declare onnx_chunks.simps [simp del]

definition Onnx_ProcessBatch ::
  "'f float_ops \<Rightarrow> 'a os_scheme \<Rightarrow> 'f ort_api \<Rightarrow> BackendRequest list \<Rightarrow> onnx_impl \<times> io \<Rightarrow> (BackendResult \<times> onnx_impl \<times> io) option" where
  "Onnx_ProcessBatch F os ort requests = (\<lambda>(impl, io).
     if \<not> ox_ready impl then Some (UnavailableResult (ox_unavailable_reason impl), impl, io)
     else
       let (cancelled, io1) = is_cancelled os io
       in if cancelled then Some (CancelledResult, impl, io1)
          else case onnx_chunks F os ort (length requests) requests [] (impl, io1) of
            (r, impl1, io2) \<Rightarrow> Some (batch_result r, impl1, io2))"

subsection \<open>Batches\<close>

lemma CheckStatus_cases:
  "CheckStatus status operation impl =
     (if status = None then (True, impl)
      else (False, impl\<lparr>ox_unavailable_reason := ox_unavailable_reason (snd (CheckStatus status operation impl)), ox_ready := False\<rparr>))"
  by (cases status) (simp_all add: CheckStatus_def Let_def)

text \<open>What a run leaves of the handles: everything, and it keeps no value alive.\<close>

definition same_handles :: "onnx_impl \<Rightarrow> onnx_impl \<Rightarrow> bool" where
  "same_handles impl impl' \<longleftrightarrow>
     ox_library_handle impl' = ox_library_handle impl \<and> ox_api impl' = ox_api impl \<and> ox_env impl' = ox_env impl \<and>
     ox_session_options impl' = ox_session_options impl \<and> ox_memory_info impl' = ox_memory_info impl \<and>
     ox_session impl' = ox_session impl \<and> ox_values impl' = ox_values impl"

lemma run_chunk_spec:
  assumes "run_chunk ort input n impl = (out, impl')"
  shows "same_handles impl impl' \<and>
    (case out of
       Inl failure \<Rightarrow> failure = UnavailableResult (ox_unavailable_reason impl') \<and> \<not> ox_ready impl'
     | Inr labels \<Rightarrow> length labels = n \<and> ox_ready impl' = ox_ready impl)"
  using assms unfolding run_chunk_def Let_def same_handles_def
  by (subst (asm) (1 2 3) CheckStatus_cases) (auto split: if_splits)

lemma onnx_chunks_spec:
  assumes "onnx_chunks F os ort n requests outputs (impl, io) = (out, impl', io')" and "ox_ready impl"
  shows "same_handles impl impl' \<and>
    (case out of
       Inl result \<Rightarrow> result = CancelledResult \<and> ox_ready impl' \<and> (\<exists>k. os_cancelled os k) \<or>
         result = UnavailableResult (ox_unavailable_reason impl') \<and> \<not> ox_ready impl'
     | Inr all \<Rightarrow> length all = length outputs + length requests \<and> ox_ready impl')"
  using assms
proof (induction "length requests" arbitrary: requests outputs impl io rule: less_induct)
  case less
  show ?case
  proof (cases "requests = [] \<or> os_cancelled os (io_polls io)")
    case True
    with less.prems show ?thesis
      by (subst (asm) onnx_chunks.simps) (auto simp: is_cancelled_def same_handles_def split: if_splits)
  next
    case False
    obtain r impl1 where c: "run_chunk ort (chunk_input F (take kModelBatch requests)) (length (take kModelBatch requests)) impl = (r, impl1)" by fastforce
    note spec = run_chunk_spec [OF c]
    show ?thesis
    proof (cases r)
      case (Inl failure)
      with less.prems False c spec show ?thesis
        by (subst (asm) onnx_chunks.simps) (auto simp: is_cancelled_def)
    next
      case (Inr labels)
      have rest: "onnx_chunks F os ort n (drop kModelBatch requests) (outputs @ map (\<lambda>label. FormatOnnxOutput label n) labels)
          (impl1, io\<lparr>io_polls := Suc (io_polls io)\<rparr>) = (out, impl', io')"
        using less.prems(1) False c Inr by (subst (asm) onnx_chunks.simps) (simp add: is_cancelled_def)
      have "length (drop kModelBatch requests) < length requests" using False by (simp add: kModelBatch_def)
      from less.hyps [OF this rest] Inr spec less.prems(2) show ?thesis
        by (auto simp: same_handles_def min_def split: sum.splits)
    qed
  qed
qed

text \<open>What a call of \<open>ProcessBatch\<close> does, in any state.\<close>

lemma Onnx_ProcessBatch_spec:
  assumes "Onnx_ProcessBatch F os ort requests (impl, io) = Some (result, impl', io')"
  shows "same_handles impl impl' \<and> result_ok requests result \<and>
    (br_code result = kUnavailable \<longrightarrow> result = UnavailableResult (ox_unavailable_reason impl') \<and> \<not> ox_ready impl') \<and>
    (\<not> ox_ready impl \<longrightarrow> result = UnavailableResult (ox_unavailable_reason impl) \<and> impl' = impl \<and> io' = io)"
proof (cases "\<not> ox_ready impl \<or> os_cancelled os (io_polls io)")
  case True
  with assms show ?thesis by (auto simp: Onnx_ProcessBatch_def is_cancelled_def same_handles_def split: if_splits)
next
  case False
  then obtain r where r: "onnx_chunks F os ort (length requests) requests [] (impl, io\<lparr>io_polls := Suc (io_polls io)\<rparr>) = (r, impl', io')"
    "result = batch_result r"
    using assms by (auto simp: Onnx_ProcessBatch_def is_cancelled_def split: prod.splits)
  from onnx_chunks_spec [OF r(1)] False r(2) show ?thesis
    by (cases r) (auto simp: batch_result_def result_ok_def empty_result_def)
qed

lemma ready_kept:
  assumes "Onnx_ProcessBatch F os ort requests (impl, io) = Some (result, impl', io')"
  shows "ox_ready impl' \<longrightarrow> ox_ready impl"
  using Onnx_ProcessBatch_spec [OF assms] by auto

interpretation onnx: inference_backend "Onnx_ProcessBatch F os ort" for F os ort
  by unfold_locales (auto dest: Onnx_ProcessBatch_spec)

lemma Onnx_returns: "\<exists>result impl' io'. Onnx_ProcessBatch F os ort requests (impl, io) = Some (result, impl', io')"
  by (auto simp: Onnx_ProcessBatch_def Let_def split: prod.splits)

text \<open>
  C31: The ONNX backend always returns and keeps no tensor value alive, whatever fails; once it is unavailable, every
  later batch is refused with the same reason, without a call of the runtime.
\<close>

theorem Onnx_ProcessBatch_releases:
  "\<exists>result impl' io'. Onnx_ProcessBatch F os ort requests (impl, io) = Some (result, impl', io') \<and>
     ox_values impl' = ox_values impl \<and> result_ok requests result \<and>
     (br_code result = kUnavailable \<longrightarrow>
        (\<forall>later io1. Onnx_ProcessBatch F os ort later (impl', io1) = Some (UnavailableResult (br_message result), impl', io1)))"
proof -
  obtain result impl' io' where r: "Onnx_ProcessBatch F os ort requests (impl, io) = Some (result, impl', io')"
    using Onnx_returns by blast
  have "Onnx_ProcessBatch F os ort later (impl', io1) = Some (UnavailableResult (ox_unavailable_reason impl'), impl', io1)"
    if "\<not> ox_ready impl'" for later io1
    using that by (simp add: Onnx_ProcessBatch_def)
  with Onnx_ProcessBatch_spec [OF r] r show ?thesis by (auto simp: same_handles_def)
qed

text \<open>A runtime that loads, and whose model answers the position of a request in its chunk as its label.\<close>

definition demo_ort :: "rat ort_api" where
  "demo_ort = \<lparr>ort_dlopen = (\<lambda>_. None), ort_symbol = True, ort_api_base = True, ort_api_version = True,
     ort_CreateEnv = None, ort_CreateSessionOptions = None, ort_SetIntraOpNumThreads = None,
     ort_SetInterOpNumThreads = None, ort_CreateCpuMemoryInfo = None, ort_CreateSession = (\<lambda>_. None),
     ort_CreateTensor = (\<lambda>_ _. None), ort_Run = (\<lambda>_ _. Some ''bad input''), ort_GetTensorMutableData = (\<lambda>_. None),
     ort_labels = (\<lambda>_ _ i. int i)\<rparr>"

theorem Onnx_ProcessBatch_releases_witness:
  "\<exists>result impl' io'. Onnx_ProcessBatch rat_ops demo_host demo_ort [\<lparr>bq_id = ''a'', bq_prompt = ''p'', bq_trace_id = ''''\<rparr>]
      ((empty_impl ''m'' ''l'')\<lparr>ox_ready := True\<rparr>, io_start) = Some (result, impl', io') \<and> ox_values impl' = 0"
  using Onnx_ProcessBatch_releases [of rat_ops demo_host demo_ort "[\<lparr>bq_id = ''a'', bq_prompt = ''p'', bq_trace_id = ''''\<rparr>]"
      "(empty_impl ''m'' ''l'')\<lparr>ox_ready := True\<rparr>" io_start]
  by (auto simp: empty_impl_def)

subsection \<open>Life cycle\<close>

definition handles_ok :: "onnx_impl \<Rightarrow> bool" where
  "handles_ok impl \<longleftrightarrow> (ox_env impl \<or> ox_session_options impl \<or> ox_memory_info impl \<or> ox_session impl \<longrightarrow> ox_api impl) \<and>
     (ox_ready impl \<longrightarrow> ox_env impl \<and> ox_session_options impl \<and> ox_memory_info impl \<and> ox_session impl) \<and> ox_values impl = 0"

definition holds_nothing :: "onnx_impl \<Rightarrow> bool" where
  "holds_nothing impl \<longleftrightarrow> \<not> ox_library_handle impl \<and> \<not> ox_env impl \<and> \<not> ox_session_options impl \<and>
     \<not> ox_memory_info impl \<and> \<not> ox_session impl \<and> ox_values impl = 0"

lemma api_step_simps [simp]:
  "api_step None operation handle (Inr impl) = Inr (handle impl)"
  "api_step (Some message) operation handle (Inr impl) = Inl (snd (CheckStatus (Some message) operation impl))"
  "api_step status operation handle (Inl impl) = Inl impl"
  by (simp_all add: api_step_def CheckStatus_def Let_def)

lemma create_session_ok:
  assumes "ox_api impl" and "\<not> ox_ready impl" and "ox_values impl = 0"
  shows "handles_ok (create_session ort impl)"
    and "ox_ready (create_session ort impl) \<longleftrightarrow> ort_CreateEnv ort = None \<and> ort_CreateSessionOptions ort = None \<and>
      ort_SetIntraOpNumThreads ort = None \<and> ort_SetInterOpNumThreads ort = None \<and> ort_CreateCpuMemoryInfo ort = None \<and>
      ort_CreateSession ort (ox_model_path impl) = None"
  using assms unfolding create_session_def Let_def
  by (cases "ort_CreateEnv ort"; cases "ort_CreateSessionOptions ort"; cases "ort_SetIntraOpNumThreads ort";
      cases "ort_SetInterOpNumThreads ort"; cases "ort_CreateCpuMemoryInfo ort"; cases "ort_CreateSession ort (ox_model_path impl)";
      simp add: handles_ok_def CheckStatus_def)+

lemma handles_ok_updates [simp]:
  "handles_ok (ox_unavailable_reason_update f impl) = handles_ok impl"
  "handles_ok (ox_library_handle_update g impl) = handles_ok impl"
  "handles_ok (ox_runtime_library_path_update f impl) = handles_ok impl"
  by (simp_all add: handles_ok_def)

lemma Initialize_handles:
  assumes "handles_ok impl" and "\<not> ox_ready impl"
  shows "handles_ok (Initialize os ort impl)"
proof -
  have "handles_ok (create_session ort (impl1\<lparr>ox_api := True\<rparr>))" if "\<not> ox_ready impl1" "ox_values impl1 = 0" for impl1
    using that by (intro create_session_ok(1)) simp_all
  with assms show ?thesis
    unfolding Initialize_def Let_def by (simp add: handles_ok_def [of impl] split: option.split)
qed

lemma Initialize_ok: "handles_ok (OnnxRuntimeBackend os ort model_path library_path)"
  unfolding OnnxRuntimeBackend_def by (rule Initialize_handles) (simp_all add: empty_impl_def handles_ok_def)

lemma destroy_ok: "handles_ok impl \<Longrightarrow> holds_nothing (destroy_impl impl)"
  by (auto simp: destroy_impl_def handles_ok_def holds_nothing_def Let_def)

text \<open>A life of the backend: construction, any batches, destruction.\<close>

fun onnx_batches :: "'f float_ops \<Rightarrow> 'a host_scheme \<Rightarrow> 'f ort_api \<Rightarrow> BackendRequest list list \<Rightarrow> onnx_impl \<times> io \<Rightarrow> onnx_impl \<times> io" where
  "onnx_batches F os ort [] s = s"
| "onnx_batches F os ort (requests # rest) s =
     (case Onnx_ProcessBatch F os ort requests s of None \<Rightarrow> s | Some (_, s1) \<Rightarrow> onnx_batches F os ort rest s1)"

lemma onnx_batches_ok: "handles_ok impl \<Longrightarrow> handles_ok (fst (onnx_batches F os ort batches (impl, io)))"
proof (induction batches arbitrary: impl io)
  case (Cons requests rest)
  obtain result impl' io' where r: "Onnx_ProcessBatch F os ort requests (impl, io) = Some (result, impl', io')"
    using Onnx_returns by blast
  have "same_handles impl impl'" using Onnx_ProcessBatch_spec [OF r] by blast
  with Cons.prems ready_kept [OF r] have "handles_ok impl'" by (simp add: handles_ok_def same_handles_def)
  with Cons.IH r show ?case by simp
qed simp

text \<open>
  C30: The backend is ready exactly when the library and the model exist, the library loads with a usable API and all six
  calls that create the session succeed; and whatever failed, and whatever batches were run, its destructor leaves no
  handle of the library or the runtime behind.
\<close>

theorem Onnx_lifecycle:
  "(ox_ready (OnnxRuntimeBackend os ort model_path library_path) \<longleftrightarrow>
      (let path = (if library_path = '''' then DefaultOnnxRuntimeLibraryPath else library_path)
       in os_exists os path \<and> os_exists os model_path \<and> ort_dlopen ort path = None \<and> ort_symbol ort \<and> ort_api_base ort \<and>
          ort_api_version ort \<and> ort_CreateEnv ort = None \<and> ort_CreateSessionOptions ort = None \<and>
          ort_SetIntraOpNumThreads ort = None \<and> ort_SetInterOpNumThreads ort = None \<and> ort_CreateCpuMemoryInfo ort = None \<and>
          ort_CreateSession ort model_path = None)) \<and>
   holds_nothing (destroy_impl (fst (onnx_batches F os ort batches (OnnxRuntimeBackend os ort model_path library_path, io))))"
proof
  show "holds_nothing (destroy_impl (fst (onnx_batches F os ort batches (OnnxRuntimeBackend os ort model_path library_path, io))))"
    by (intro destroy_ok onnx_batches_ok Initialize_ok)
next
  have ready: "ox_ready (create_session ort (impl\<lparr>ox_library_handle := True, ox_api := True\<rparr>)) \<longleftrightarrow>
      ort_CreateEnv ort = None \<and> ort_CreateSessionOptions ort = None \<and>
      ort_SetIntraOpNumThreads ort = None \<and> ort_SetInterOpNumThreads ort = None \<and> ort_CreateCpuMemoryInfo ort = None \<and>
      ort_CreateSession ort (ox_model_path impl) = None" if "\<not> ox_ready impl" "ox_values impl = 0" for impl
    using that create_session_ok(2) [of "impl\<lparr>ox_library_handle := True, ox_api := True\<rparr>" ort] by simp
  have e: "\<not> ox_ready (empty_impl m l)" "ox_values (empty_impl m l) = 0" "ox_model_path (empty_impl m l) = m"
    "ox_runtime_library_path (empty_impl m l) = l" for m l by (simp_all add: empty_impl_def)
  show "ox_ready (OnnxRuntimeBackend os ort model_path library_path) \<longleftrightarrow>
      (let path = (if library_path = '''' then DefaultOnnxRuntimeLibraryPath else library_path)
       in os_exists os path \<and> os_exists os model_path \<and> ort_dlopen ort path = None \<and> ort_symbol ort \<and> ort_api_base ort \<and>
          ort_api_version ort \<and> ort_CreateEnv ort = None \<and> ort_CreateSessionOptions ort = None \<and>
          ort_SetIntraOpNumThreads ort = None \<and> ort_SetInterOpNumThreads ort = None \<and> ort_CreateCpuMemoryInfo ort = None \<and>
          ort_CreateSession ort model_path = None)"
    unfolding OnnxRuntimeBackend_def Initialize_def Let_def by (simp add: e ready split: option.split)
qed

end
