(* ===== verification/Worker.thy ===== *)
theory Worker
  imports Local_Backends Llama_Theorems Onnx_Backend
begin

text \<open>
  The worker process: \<open>CreateBackend\<close>, the virtual calls of the created backend, and the gRPC service of
  \<open>backend/main.cc\<close> that turns requests into backend calls and results into responses and status codes. The messages are
  those of \<open>proto/inference.proto\<close>; the client's cancellation is the callback of the \<open>os\<close> record and the answers of
  \<open>ServerWriter::Write\<close> are the function \<open>emit\<close>.
\<close>

subsection \<open>The created backend\<close>

datatype 'f Backend =
  SimulatorB SimulatorBackend
| TinyTextModelB int
| TinyLLMB "'f TinyLLMBackend"
| ContinuousTinyLLMB "'f ContinuousTinyLLMBackend"
| OnnxRuntimeB onnx_impl
| LlamaCppB "'f LlamaCppBackend"
| LlamaServerB "'f LlamaServerBackend"

definition CreateBackend :: "'f float_ops \<Rightarrow> 'a host_scheme \<Rightarrow> 'f ort_api \<Rightarrow> 'f BackendConfig \<Rightarrow> 'f Backend" where
  "CreateBackend F os ort config =
     (if bc_kind config = kLlamaServer then
        LlamaServerB (make_LlamaServerBackend F (bc_llama_server_url config) (bc_llama_server_max_tokens config)
          (bc_llama_server_temperature config) (bc_llama_server_timeout_ms config) (bc_llama_server_cache_prompt config)
          (bc_llama_server_stream config) (bc_llama_server_timings_per_token config))
      else if bc_kind config = kLlamaCpp then
        LlamaCppB (make_LlamaCppBackend F (bc_llama_cpp_binary_path config) (bc_llama_cpp_model_path config)
          (bc_llama_cpp_max_tokens config) (bc_llama_cpp_context_size config) (bc_llama_cpp_threads config)
          (bc_llama_cpp_temperature config) (bc_llama_cpp_timeout_ms config))
      else if bc_kind config = kOnnxRuntime then
        OnnxRuntimeB (OnnxRuntimeBackend os ort (bc_onnx_model_path config) (bc_onnx_runtime_library_path config))
      else if bc_kind config = kContinuousTinyLLM then
        ContinuousTinyLLMB (make_ContinuousTinyLLMBackend F (bc_tiny_llm_max_generated_tokens config)
          (bc_tiny_llm_temperature config) (bc_tiny_llm_top_k config) (bc_continuous_max_prefill_tokens_per_step config)
          (bc_continuous_max_decode_sequences_per_step config) (bc_continuous_kv_cache_blocks config)
          (bc_continuous_kv_block_tokens config) (bc_continuous_prefix_cache_tokens config))
      else if bc_kind config = kTinyLLM then
        TinyLLMB (make_TinyLLMBackend F (bc_tiny_llm_max_generated_tokens config) (bc_tiny_llm_temperature config)
          (bc_tiny_llm_top_k config))
      else if bc_kind config = kTinyTextModel then TinyTextModelB (make_TinyTextModelBackend (bc_tiny_model_iterations config))
      else SimulatorB (make_SimulatorBackend (bc_simulator_base_latency_ms config) (bc_simulator_per_request_latency_ms config)))"

fun Name :: "'f Backend \<Rightarrow> string" where
  "Name (SimulatorB b) = ''simulator''"
| "Name (TinyTextModelB b) = ''tiny_text_model''"
| "Name (TinyLLMB b) = ''tiny_llm''"
| "Name (ContinuousTinyLLMB b) = ''continuous_tiny_llm''"
| "Name (OnnxRuntimeB b) = ''onnx''"
| "Name (LlamaCppB b) = ''llama_cpp''"
| "Name (LlamaServerB b) = ''llama_server''"

text \<open>The virtual \<open>ProcessBatch\<close>: only the ONNX backend changes itself.\<close>

definition with_backend :: "'f Backend \<Rightarrow> (BackendResult \<times> io) option \<Rightarrow> (BackendResult \<times> 'f Backend \<times> io) option" where
  "with_backend b = map_option (\<lambda>(result, io). (result, b, io))"

fun Backend_ProcessBatch ::
  "'f float_ops \<Rightarrow> 'a host_scheme \<Rightarrow> 'f ort_api \<Rightarrow> BackendRequest list \<Rightarrow> 'f Backend \<times> io \<Rightarrow> (BackendResult \<times> 'f Backend \<times> io) option" where
  "Backend_ProcessBatch F os ort requests (SimulatorB b, io) = with_backend (SimulatorB b) (Simulator_ProcessBatch os b requests io)"
| "Backend_ProcessBatch F os ort requests (TinyTextModelB b, io) = with_backend (TinyTextModelB b) (TinyText_ProcessBatch F os b requests io)"
| "Backend_ProcessBatch F os ort requests (TinyLLMB b, io) = with_backend (TinyLLMB b) (TinyLLM_ProcessBatch F os b requests io)"
| "Backend_ProcessBatch F os ort requests (ContinuousTinyLLMB b, io) = with_backend (ContinuousTinyLLMB b) (Continuous_ProcessBatch F os b requests io)"
| "Backend_ProcessBatch F os ort requests (OnnxRuntimeB b, io) =
     map_option (\<lambda>(result, b1, io1). (result, OnnxRuntimeB b1, io1)) (Onnx_ProcessBatch F os ort requests (b, io))"
| "Backend_ProcessBatch F os ort requests (LlamaCppB b, io) = with_backend (LlamaCppB b) (LlamaCpp_ProcessBatch F os b requests io)"
| "Backend_ProcessBatch F os ort requests (LlamaServerB b, io) = with_backend (LlamaServerB b) (LlamaServer_ProcessBatch F os b requests io)"

text \<open>The virtual \<open>ProcessStream\<close>: the llama server overrides it, the others inherit the default.\<close>

definition Backend_ProcessStream ::
  "'f float_ops \<Rightarrow> 'a host_scheme \<Rightarrow> 'f ort_api \<Rightarrow> BackendRequest \<Rightarrow> (nat \<Rightarrow> bool) \<Rightarrow> 'f Backend \<times> io \<Rightarrow>
     (BackendResult \<times> BackendStreamEvent list \<times> 'f Backend \<times> io) option" where
  "Backend_ProcessStream F os ort request emit s = (case fst s of
     LlamaServerB b \<Rightarrow>
       map_option (\<lambda>(result, events, io). (result, events, LlamaServerB b, io)) (LlamaServer_ProcessStream F os b request emit (snd s))
   | _ \<Rightarrow> ProcessStream (Backend_ProcessBatch F os ort) request emit s)"

interpretation worker: inference_backend "Backend_ProcessBatch F os ort" for F os ort
proof unfold_locales
  fix requests s result s'
  assume r: "Backend_ProcessBatch F os ort requests s = Some (result, s')"
  obtain b io where s: "s = (b, io)" by fastforce
  from r show "result_ok requests result"
    unfolding s
    by (cases b)
      (auto simp: with_backend_def dest: simulator.batch_contract tiny_text.batch_contract tiny_llm.batch_contract
        continuous.batch_contract onnx.batch_contract llama_cpp.batch_contract llama_server.batch_contract)
qed

interpretation worker_stream: streaming_backend "Backend_ProcessStream F os ort" for F os ort
proof unfold_locales
  fix request emit s result events s'
  assume "Backend_ProcessStream F os ort request emit s = Some (result, events, s')"
  then show "stream_ok emit result events"
    by (auto simp: Backend_ProcessStream_def split: Backend.splits
        dest: llama_server_stream.stream_contract worker.default_stream_ok)
qed

subsection \<open>The service\<close>

datatype StatusCode = OK | CANCELLED | INVALID_ARGUMENT | UNAVAILABLE | INTERNAL

type_synonym Status = "StatusCode \<times> string"

record RequestItem =
  ri_id :: string
  ri_prompt :: string
  ri_trace_id :: string

record ResponseItem =
  rp_id :: string
  rp_result :: string
  rp_trace_id :: string
  rp_backend_name :: string
  rp_backend_latency_micros :: int
  rp_backend_metadata :: metadata

record StreamResponse =
  sp_id :: string
  sp_trace_id :: string
  sp_event_type :: string
  sp_delta :: string
  sp_result :: string
  sp_backend_name :: string
  sp_backend_latency_micros :: int
  sp_backend_metadata :: metadata

definition backend_request :: "RequestItem \<Rightarrow> BackendRequest" where
  "backend_request req = \<lparr>bq_id = ri_id req, bq_prompt = ri_prompt req, bq_trace_id = ri_trace_id req\<rparr>"

text \<open>The loop \<open>(*metadata)[key] = value\<close> into an empty map.\<close>

definition copy_metadata :: "metadata \<Rightarrow> metadata" where
  "copy_metadata md = fold (\<lambda>(key, value). omap_put key value) md []"

definition response_item :: "string \<Rightarrow> int \<Rightarrow> BackendResult \<Rightarrow> RequestItem list \<Rightarrow> nat \<Rightarrow> ResponseItem" where
  "response_item backend_name elapsed_micros result requests i =
     \<lparr>rp_id = ri_id (requests ! i), rp_result = br_outputs result ! i, rp_trace_id = ri_trace_id (requests ! i),
      rp_backend_name = backend_name, rp_backend_latency_micros = elapsed_micros,
      rp_backend_metadata = (if br_output_metadata result \<noteq> [] then copy_metadata (br_output_metadata result ! i) else [])\<rparr>"

text \<open>The status of a result that is not a success.\<close>

definition failure_status :: "BackendResult \<Rightarrow> Status option" where
  "failure_status result =
     (if br_code result = BackendStatusCode.kCancelled then Some (CANCELLED, br_message result)
      else if br_code result = kInvalidArgument then Some (INVALID_ARGUMENT, br_message result)
      else if br_code result = kUnavailable then Some (UNAVAILABLE, br_message result)
      else None)"

definition Service_ProcessBatch ::
  "'f float_ops \<Rightarrow> 'a host_scheme \<Rightarrow> 'f ort_api \<Rightarrow> RequestItem list \<Rightarrow> 'f Backend \<times> io \<Rightarrow>
     (Status \<times> ResponseItem list \<times> 'f Backend \<times> io) option" where
  "Service_ProcessBatch F os ort request = (\<lambda>(backend, io0).
     let backend_requests = map backend_request request;
         (started, io1) = clock_now os io0
     in case Backend_ProcessBatch F os ort backend_requests (backend, io1) of
          None \<Rightarrow> None
        | Some (result, backend1, io2) \<Rightarrow>
            let (ended, io3) = clock_now os io2; elapsed_micros = micros (ended - started)
            in case failure_status result of
                 Some status \<Rightarrow> Some (status, [], backend1, io3)
               | None \<Rightarrow>
                   if length (br_outputs result) \<noteq> length backend_requests
                   then Some ((INTERNAL, ''backend returned the wrong number of outputs''), [], backend1, io3)
                   else if br_output_metadata result \<noteq> [] \<and> length (br_output_metadata result) \<noteq> length backend_requests
                   then Some ((INTERNAL, ''backend returned the wrong number of metadata records''), [], backend1, io3)
                   else Some ((OK, ''''),
                     map (response_item (Name backend1) elapsed_micros result request) [0..<length request], backend1, io3))"

definition stream_response :: "string \<Rightarrow> RequestItem \<Rightarrow> BackendStreamEvent \<Rightarrow> StreamResponse" where
  "stream_response backend_name request event =
     \<lparr>sp_id = ri_id request, sp_trace_id = ri_trace_id request, sp_event_type = ev_event_type event,
      sp_delta = ev_delta event, sp_result = ev_result event, sp_backend_name = backend_name,
      sp_backend_latency_micros = 0, sp_backend_metadata = copy_metadata (ev_metadata event)\<rparr>"

definition Service_Stream ::
  "'f float_ops \<Rightarrow> 'a host_scheme \<Rightarrow> 'f ort_api \<Rightarrow> RequestItem \<Rightarrow> (nat \<Rightarrow> bool) \<Rightarrow> 'f Backend \<times> io \<Rightarrow>
     (Status \<times> StreamResponse list \<times> 'f Backend \<times> io) option" where
  "Service_Stream F os ort request emit = (\<lambda>(backend, io0).
     let (started, io1) = clock_now os io0
     in case Backend_ProcessStream F os ort (backend_request request) emit (backend, io1) of
          None \<Rightarrow> None
        | Some (result, events, backend1, io2) \<Rightarrow>
            let (ended, io3) = clock_now os io2; written = map (stream_response (Name backend) request) events
            in case failure_status result of
                 Some status \<Rightarrow> Some (status, written, backend1, io3)
               | None \<Rightarrow>
                   if length (br_outputs result) \<noteq> 1
                   then Some ((INTERNAL, ''backend returned the wrong number of stream outputs''), written, backend1, io3)
                   else Some ((OK, ''''), written, backend1, io3))"

end
