(* ===== verification/Worker_Theorems.thy ===== *)
theory Worker_Theorems
  imports Worker
begin

text \<open>
  What the gRPC service promises its clients, whichever backend is behind it: the answers of a batch, the protocol of a
  stream, that the configured backend runs with the configured settings, and when calls return.
\<close>

subsection \<open>The created backend\<close>

lemma clamp_int_id [simp]: "lo \<le> v \<Longrightarrow> v \<le> hi \<Longrightarrow> clamp_int v lo hi = v"
  by (simp add: clamp_int_def)

text \<open>The constructor arguments of the created backend are the configured ones, where the clamps are the identity.\<close>

fun runs_with :: "'f BackendConfig \<Rightarrow> 'f Backend \<Rightarrow> bool" where
  "runs_with c (SimulatorB b) \<longleftrightarrow>
     b = \<lparr>sb_base_latency_ms = bc_simulator_base_latency_ms c, sb_per_request_latency_ms = bc_simulator_per_request_latency_ms c\<rparr>"
| "runs_with c (TinyTextModelB iterations) \<longleftrightarrow> iterations = bc_tiny_model_iterations c"
| "runs_with c (TinyLLMB b) \<longleftrightarrow> tl_max_generated_tokens b = bc_tiny_llm_max_generated_tokens c \<and> tl_top_k b = bc_tiny_llm_top_k c"
| "runs_with c (ContinuousTinyLLMB b) \<longleftrightarrow>
     ct_max_generated_tokens b = bc_tiny_llm_max_generated_tokens c \<and> ct_top_k b = bc_tiny_llm_top_k c \<and>
     ct_prefix_cache_tokens b = bc_continuous_prefix_cache_tokens c \<and>
     scheduler_config b =
       \<lparr>cb_max_prefill_tokens_per_step = bc_continuous_max_prefill_tokens_per_step c,
        cb_max_decode_sequences_per_step = bc_continuous_max_decode_sequences_per_step c,
        cb_kv_cache_blocks = bc_continuous_kv_cache_blocks c, cb_kv_block_tokens = bc_continuous_kv_block_tokens c\<rparr>"
| "runs_with c (OnnxRuntimeB impl) \<longleftrightarrow>
     ox_model_path impl = bc_onnx_model_path c \<and> ox_runtime_library_path impl = bc_onnx_runtime_library_path c"
| "runs_with c (LlamaCppB b) \<longleftrightarrow>
     lc_binary_path b = bc_llama_cpp_binary_path c \<and> lc_model_path b = bc_llama_cpp_model_path c \<and>
     lc_max_tokens b = bc_llama_cpp_max_tokens c \<and> lc_context_size b = bc_llama_cpp_context_size c \<and>
     lc_threads b = bc_llama_cpp_threads c \<and> lc_timeout_ms b = bc_llama_cpp_timeout_ms c"
| "runs_with c (LlamaServerB b) \<longleftrightarrow>
     ls_server_url b = bc_llama_server_url c \<and> ls_max_tokens b = bc_llama_server_max_tokens c \<and>
     ls_timeout_ms b = bc_llama_server_timeout_ms c \<and> ls_cache_prompt b = bc_llama_server_cache_prompt c \<and>
     ls_stream b = bc_llama_server_stream c \<and> ls_timings_per_token b = bc_llama_server_timings_per_token c"

lemmas constructors = make_SimulatorBackend_def make_TinyTextModelBackend_def make_TinyLLMBackend_def
  make_ContinuousTinyLLMBackend_def make_LlamaCppBackend_def make_LlamaServerBackend_def

lemma api_step_keeps:
  assumes "\<And>impl. f (handle impl) = f impl" and "\<And>impl reason. f (impl\<lparr>ox_unavailable_reason := reason, ox_ready := False\<rparr>) = f impl"
  shows "f (case api_step status operation handle r of Inl impl \<Rightarrow> impl | Inr impl \<Rightarrow> impl) =
    f (case r of Inl impl \<Rightarrow> impl | Inr impl \<Rightarrow> impl)"
  using assms by (cases r; cases status) (simp_all add: api_step_def CheckStatus_def Let_def)

lemma create_session_keeps:
  assumes "\<And>impl. f (ox_env_update (\<lambda>_. True) impl) = f impl" "\<And>impl. f (ox_session_options_update (\<lambda>_. True) impl) = f impl"
    "\<And>impl. f (ox_memory_info_update (\<lambda>_. True) impl) = f impl" "\<And>impl. f (ox_session_update (\<lambda>_. True) impl) = f impl"
    and ready: "\<And>impl. f (impl\<lparr>ox_ready := True\<rparr>) = f impl"
    and fail: "\<And>impl reason. f (impl\<lparr>ox_unavailable_reason := reason, ox_ready := False\<rparr>) = f impl"
  shows "f (create_session ort impl) = f impl"
proof -
  have "f (case r of Inl impl \<Rightarrow> impl | Inr impl \<Rightarrow> impl\<lparr>ox_ready := True\<rparr>) =
      f (case r of Inl impl \<Rightarrow> impl | Inr impl \<Rightarrow> impl)" for r :: "onnx_impl + onnx_impl"
    using ready by (cases r) simp_all
  then show ?thesis by (simp add: create_session_def Let_def api_step_keeps assms)
qed

lemma OnnxRuntimeBackend_paths:
  "ox_model_path (OnnxRuntimeBackend os ort model_path library_path) = model_path"
  "ox_runtime_library_path (OnnxRuntimeBackend os ort model_path library_path) =
     (if library_path = '''' then DefaultOnnxRuntimeLibraryPath else library_path)"
  by (simp_all add: OnnxRuntimeBackend_def Initialize_def Let_def create_session_keeps empty_impl_def split: option.split)

lemma Name_CreateBackend: "Name (CreateBackend F os ort c) = BackendKindName (bc_kind c)"
  by (cases "bc_kind c") (simp_all add: CreateBackend_def BackendKindName_def)

lemma CreateBackend_runs_with:
  assumes "config_in_range c"
  shows "runs_with c (CreateBackend F os ort c)"
proof (cases "bc_kind c")
  case kSimulator
  then have "CreateBackend F os ort c =
      SimulatorB (make_SimulatorBackend (bc_simulator_base_latency_ms c) (bc_simulator_per_request_latency_ms c))"
    by (simp add: CreateBackend_def)
  with assms show ?thesis by (simp add: constructors config_in_range_def)
next
  case kTinyTextModel
  then have "CreateBackend F os ort c = TinyTextModelB (make_TinyTextModelBackend (bc_tiny_model_iterations c))"
    by (simp add: CreateBackend_def)
  with assms show ?thesis by (simp add: constructors config_in_range_def)
next
  case kOnnxRuntime
  with assms show ?thesis by (simp add: CreateBackend_def OnnxRuntimeBackend_paths config_in_range_def)
qed (use assms in \<open>simp_all add: CreateBackend_def config_in_range_def constructors scheduler_config_def kTinyLLMVocabSize_def\<close>)

text \<open>
  C32: Whatever the environment says, the worker runs the backend it names, with exactly the integers, paths and flags
  of the configuration read from it: the constructors clamp none of them a second time.
\<close>

theorem worker_runs_configured_backend:
  "let config = BackendConfigFromEnv F env; backend = CreateBackend F os ort config
   in Name backend = BackendKindName (bc_kind config) \<and> runs_with config backend"
  unfolding Let_def using Name_CreateBackend CreateBackend_runs_with [OF BackendConfigFromEnv_range] by blast

subsection \<open>Metadata is a map\<close>

lemma omap_put_last:
  assumes "\<forall>k' \<in> set (map fst m). k' < k"
  shows "omap_put k v m = m @ [(k, v)]"
  using assms by (induction m) auto

lemma fold_omap_put:
  assumes "omap_inv (m @ md)"
  shows "fold (\<lambda>(k, v). omap_put k v) md m = m @ md"
  using assms
proof (induction md arbitrary: m)
  case (Cons e md)
  obtain k v where e: "e = (k, v)" by fastforce
  have "\<forall>k' \<in> set (map fst m). k' < k" using Cons.prems by (simp add: e omap_inv_def sorted_wrt_append)
  then have "omap_put k v m = m @ [e]" by (simp add: omap_put_last e)
  with Cons show ?case by (simp add: e)
qed simp

lemma copy_metadata_id: "omap_inv md \<Longrightarrow> copy_metadata md = md"
  using fold_omap_put [of "[]" md] by (simp add: copy_metadata_def)

lemma make_map_inv: "omap_inv (make_map entries)"
proof -
  have "omap_inv (fold (\<lambda>(k, v). omap_emplace k v) entries m)" if "omap_inv m" for m :: metadata
    using that by (induction entries arbitrary: m) (auto simp: omap_emplace_inv)
  then show ?thesis by (simp add: make_map_def omap_inv_def)
qed

definition metadata_ok :: "BackendResult \<Rightarrow> bool" where
  "metadata_ok result \<longleftrightarrow> list_all omap_inv (br_output_metadata result)"

lemma metadata_ok_simps [simp]:
  "metadata_ok CancelledResult" "metadata_ok (UnavailableResult message)" "metadata_ok empty_result"
  "metadata_ok (result\<lparr>br_code := c\<rparr>) = metadata_ok result" "metadata_ok (result\<lparr>br_message := m\<rparr>) = metadata_ok result"
  "metadata_ok (result\<lparr>br_outputs := outs\<rparr>) = metadata_ok result"
  by (simp_all add: metadata_ok_def CancelledResult_def UnavailableResult_def empty_result_def)

lemma continuous_outputs_metadata:
  "metadata_ok result \<Longrightarrow> metadata_ok (fst (continuous_outputs F os b n run pairs result io))"
proof (induction pairs arbitrary: result io)
  case (Cons pair pairs)
  obtain request sequence where p: "pair = (request, sequence)" by fastforce
  have "metadata_ok (r\<lparr>br_output_metadata := br_output_metadata result @ [BuildContinuousTinyLLMMetadata F run sequence]\<rparr>)" for r
    using Cons.prems by (simp add: metadata_ok_def BuildContinuousTinyLLMMetadata_def Let_def make_map_inv)
  with Cons show ?case by (auto simp: p Let_def split: prod.splits)
qed simp

lemma batch_result_metadata:
  assumes "each_request body requests [] s = Some (r, s')"
    and "\<And>request s early s1. body request s = Some (Inl early, s1) \<Longrightarrow> metadata_ok early"
  shows "metadata_ok (batch_result r)"
proof (cases r)
  case (Inl early)
  with each_request_Inl [of body requests "[]" s early s'] assms show ?thesis by (auto simp: batch_result_def)
qed (simp add: batch_result_def)

lemma batch_result_meta_metadata:
  assumes "each_request body requests [] s = Some (r, s')"
    and "\<And>request s early s1. body request s = Some (Inl early, s1) \<Longrightarrow> metadata_ok early"
    and "\<And>request s out s1. body request s = Some (Inr out, s1) \<Longrightarrow> omap_inv (snd out)"
  shows "metadata_ok (batch_result_meta r)"
proof (cases r)
  case (Inl early)
  with each_request_Inl [of body requests "[]" s early s'] assms show ?thesis by (auto simp: batch_result_meta_def)
next
  case (Inr outs)
  with each_request_Inr [of body requests "[]" s outs s'] assms(1)
  have "list_all2 (\<lambda>request out. \<exists>s1 s2. body request s1 = Some (Inr out, s2)) requests outs" by simp
  then have "list_all2 (\<lambda>request out. omap_inv (snd out)) requests outs"
    by (rule list_all2_mono) (blast dest: assms(3))
  then have "omap_inv (snd out)" if "out \<in> set outs" for out
    using that by (metis in_set_conv_nth list_all2_nthD2)
  with Inr show ?thesis by (auto simp: batch_result_meta_def metadata_ok_def list_all_iff)
qed

lemma LlamaServer_metadata: "LlamaServer_ProcessBatch F os b requests io = Some (result, io') \<Longrightarrow> metadata_ok result"
  by (auto simp: LlamaServer_ProcessBatch_def Let_def split: prod.splits if_splits intro!: batch_result_meta_metadata)
    (auto simp: LlamaServer_request_def llama_server_failure_def llama_server_output_def BuildLlamaServerMetadata_def
      make_map_inv Let_def split: prod.splits if_splits option.splits)

lemma LlamaCpp_metadata: "LlamaCpp_ProcessBatch F os b requests io = Some (result, io') \<Longrightarrow> metadata_ok result"
  by (auto simp: LlamaCpp_ProcessBatch_def Let_def split: prod.splits if_splits intro!: batch_result_metadata)
    (auto simp: LlamaCpp_request_def llama_cpp_failure_def Let_def split: prod.splits if_splits option.splits)

lemma TinyText_metadata: "TinyText_ProcessBatch F os b requests io = Some (result, io') \<Longrightarrow> metadata_ok result"
  by (auto simp: TinyText_ProcessBatch_def Let_def split: prod.splits if_splits intro!: batch_result_metadata)
    (auto simp: TinyText_request_def Let_def split: prod.splits if_splits option.splits)

lemma TinyLLM_metadata: "TinyLLM_ProcessBatch F os b requests io = Some (result, io') \<Longrightarrow> metadata_ok result"
  by (auto simp: TinyLLM_ProcessBatch_def Let_def split: prod.splits if_splits intro!: batch_result_metadata)
    (auto simp: TinyLLM_request_def Let_def split: prod.splits if_splits option.splits)

lemma Simulator_metadata: "Simulator_ProcessBatch os b requests io = Some (result, io') \<Longrightarrow> metadata_ok result"
  by (auto simp: Simulator_ProcessBatch_def Let_def split: prod.splits if_splits)

lemma Continuous_metadata: "Continuous_ProcessBatch F os b requests io = Some (result, io') \<Longrightarrow> metadata_ok result"
  by (erule Continuous_cases) (auto dest!: arg_cong [where f = fst] simp: continuous_outputs_metadata intro: continuous_outputs_metadata)

lemma Onnx_metadata:
  assumes "Onnx_ProcessBatch F os ort requests (impl, io) = Some (result, impl', io')"
  shows "metadata_ok result"
proof (cases "ox_ready impl \<and> \<not> os_cancelled os (io_polls io)")
  case True
  then obtain c io1 where c: "is_cancelled os io = (False, io1)" by (auto simp: is_cancelled_def)
  obtain r impl1 io2 where r: "onnx_chunks F os ort (length requests) requests [] (impl, io1) = (r, impl1, io2)"
    by (metis surj_pair)
  with True c assms have "result = batch_result r" by (simp add: Onnx_ProcessBatch_def)
  with onnx_chunks_spec [OF r] True show ?thesis by (cases r) (auto simp: batch_result_def)
qed (use assms in \<open>auto simp: Onnx_ProcessBatch_def is_cancelled_def split: if_splits\<close>)

lemma Backend_metadata:
  "Backend_ProcessBatch F os ort requests (b, io) = Some (result, b', io') \<Longrightarrow> metadata_ok result"
  by (cases b) (auto simp: with_backend_def dest: LlamaServer_metadata LlamaCpp_metadata TinyText_metadata TinyLLM_metadata
      Simulator_metadata Continuous_metadata Onnx_metadata)

subsection \<open>Batches\<close>

lemma Backend_ProcessBatch_Name:
  "Backend_ProcessBatch F os ort requests (b, io) = Some (result, b', io') \<Longrightarrow> Name b' = Name b"
  by (cases b) (auto simp: with_backend_def)

lemma failure_status_ok:
  "result_ok requests result \<Longrightarrow> failure_status result =
     (case br_code result of
        kOk \<Rightarrow> None
      | BackendStatusCode.kCancelled \<Rightarrow> Some (CANCELLED, br_message CancelledResult)
      | _ \<Rightarrow> Some (UNAVAILABLE, br_message result))"
  by (cases "br_code result") (auto simp: result_ok_def failure_status_def)

text \<open>The whole call in terms of the backend's answer.\<close>

lemma Service_ProcessBatch_eq:
  assumes "Backend_ProcessBatch F os ort (map backend_request request) (backend, snd (clock_now os io)) = Some (result, backend1, io2)"
  shows "Service_ProcessBatch F os ort request (backend, io) =
    Some (case failure_status result of Some status \<Rightarrow> status | None \<Rightarrow> (OK, ''''),
      if br_code result = kOk
      then map (response_item (Name backend) (micros (fst (clock_now os io2) - fst (clock_now os io))) result request) [0..<length request]
      else [], backend1, snd (clock_now os io2))"
proof -
  obtain started io1 where st: "clock_now os io = (started, io1)" by fastforce
  obtain ended io3 where en: "clock_now os io2 = (ended, io3)" by fastforce
  note ok = worker.batch_contract [OF assms]
  have "Name backend1 = Name backend" using assms by (rule Backend_ProcessBatch_Name)
  with assms st en ok show ?thesis
    by (cases "br_code result") (auto simp: Service_ProcessBatch_def failure_status_def result_ok_def Let_def)
qed

text \<open>
  C4: Whichever backend runs, a batch call is answered as documented. It is never an internal error or an invalid
  argument; if it is OK, there is one response per request, in order, with the request's id and trace id, the backend's
  name, and the backend's output and metadata for that request; otherwise there is no response, and CANCELLED means that the backend
  gave up.
\<close>

theorem Service_ProcessBatch_answers:
  assumes "Service_ProcessBatch F os ort request (backend, io) = Some ((status, message), responses, backend', io')"
  shows "status \<noteq> INTERNAL \<and> status \<noteq> INVALID_ARGUMENT \<and> Name backend' = Name backend \<and>
    (\<exists>result. (\<exists>io2. Backend_ProcessBatch F os ort (map backend_request request) (backend, snd (clock_now os io)) = Some (result, backend', io2)) \<and>
      (if status = OK
       then br_code result = kOk \<and> map rp_result responses = br_outputs result \<and>
         map rp_id responses = map ri_id request \<and> map rp_trace_id responses = map ri_trace_id request \<and>
         list_all (\<lambda>response. rp_backend_name response = Name backend) responses \<and>
         map rp_backend_metadata responses =
           (if br_output_metadata result = [] then replicate (length request) [] else br_output_metadata result)
       else responses = [] \<and> message = br_message result \<and> (status = CANCELLED \<longleftrightarrow> result = CancelledResult)))"
proof -
  obtain result backend1 io2 where
    b: "Backend_ProcessBatch F os ort (map backend_request request) (backend, snd (clock_now os io)) = Some (result, backend1, io2)"
    using assms by (auto simp: Service_ProcessBatch_def Let_def split: option.splits prod.splits)
  note ok = worker.batch_contract [OF b]
  have map_nth_eq: "map (\<lambda>i. f (xs ! i)) [0..<length xs] = map f xs" for f :: "'x \<Rightarrow> 'y" and xs
    by (rule nth_equalityI) auto
  show ?thesis
  proof (cases "br_code result = kOk")
    case True
    with ok have len: "length (br_outputs result) = length request"
      "br_output_metadata result \<noteq> [] \<Longrightarrow> length (br_output_metadata result) = length request"
      by (auto simp: result_ok_def)
    from assms Service_ProcessBatch_eq [OF b] True ok
    have r: "status = OK" "backend' = backend1" "responses =
        map (response_item (Name backend) (micros (fst (clock_now os io2) - fst (clock_now os io))) result request) [0..<length request]"
      by (auto simp: failure_status_ok)
    have "map rp_result responses = map (\<lambda>i. br_outputs result ! i) [0..<length (br_outputs result)]"
      by (simp add: r len response_item_def)
    moreover have "br_output_metadata result \<noteq> [] \<Longrightarrow>
        map rp_backend_metadata responses = map (\<lambda>i. copy_metadata (br_output_metadata result ! i)) [0..<length (br_output_metadata result)]"
      by (simp add: r len response_item_def)
    moreover have "map copy_metadata (br_output_metadata result) = br_output_metadata result"
      using Backend_metadata [OF b] by (simp add: metadata_ok_def list_all_iff copy_metadata_id map_idI)
    ultimately show ?thesis
      using b True r Backend_ProcessBatch_Name [OF b]
      by (auto simp: response_item_def list_all_iff map_nth map_nth_eq comp_def map_replicate_trivial)
  next
    case False
    with assms Service_ProcessBatch_eq [OF b] ok b Backend_ProcessBatch_Name [OF b] show ?thesis
      by (cases "br_code result") (auto simp: failure_status_ok result_ok_def)
  qed
qed

definition demo_item :: RequestItem where
  "demo_item = \<lparr>ri_id = ''a'', ri_prompt = ''hi'', ri_trace_id = ''t''\<rparr>"

definition demo_simulator :: "rat Backend" where
  "demo_simulator = SimulatorB \<lparr>sb_base_latency_ms = 0, sb_per_request_latency_ms = 7\<rparr>"

lemma demo_batch:
  "map_option (\<lambda>(status, _). status) (Service_ProcessBatch rat_ops demo_host demo_ort [demo_item] (demo_simulator, io_start)) = Some (OK, '''')"
  by code_simp

theorem Service_ProcessBatch_answers_witness:
  "\<exists>responses backend' io'. Service_ProcessBatch rat_ops demo_host demo_ort [demo_item] (demo_simulator, io_start) =
     Some ((OK, ''''), responses, backend', io') \<and> map rp_trace_id responses = [''t'']"
proof -
  obtain responses backend' io' where
    r: "Service_ProcessBatch rat_ops demo_host demo_ort [demo_item] (demo_simulator, io_start) = Some ((OK, ''''), responses, backend', io')"
    using demo_batch by (auto split: option.splits)
  with Service_ProcessBatch_answers [OF r] show ?thesis by (auto simp: demo_item_def)
qed

subsection \<open>Streams\<close>

lemma delivered_map [simp]: "delivered emit (map f xs) = map f (delivered emit xs)"
proof -
  have "enumerate n (map f xs) = map (apsnd f) (enumerate n xs)" for n
    by (induction xs arbitrary: n) simp_all
  then show ?thesis by (simp add: delivered_def filter_map comp_def split_def)
qed

lemma stream_delivers_done:
  assumes "stream_ok emit result events"
  shows "(\<exists>ev \<in> set (delivered emit events). ev_event_type ev = ''done'') \<longleftrightarrow> br_code result = kOk"
proof (cases "br_code result")
  case kOk
  with assms obtain out md tokens where "events = tokens @ [done_event out md]" "\<forall>k < length events. emit k"
    by (auto simp: stream_ok_def)
  then show ?thesis
    using kOk by (auto simp: set_delivered done_event_def intro!: exI [of _ "length tokens"])
qed (use assms in \<open>auto simp: stream_ok_def set_delivered list_all_length\<close>)

text \<open>
  C7: Whichever backend runs, a streaming call follows the protocol. Every message carries the request's id and trace id
  and the backend's name; the status is never an internal error or an invalid argument; the first message the writer
  refuses is the last one offered. The client gets a \<open>done\<close> message exactly if the status is OK; then it is the last one,
  after tokens only, and every message was accepted. Otherwise every message the client got is a token.
\<close>

theorem Service_Stream_protocol:
  assumes "Service_Stream F os ort request emit (backend, io) = Some ((status, message), written, backend', io')"
  shows "status \<noteq> INTERNAL \<and> status \<noteq> INVALID_ARGUMENT \<and>
    list_all (\<lambda>m. sp_id m = ri_id request \<and> sp_trace_id m = ri_trace_id request \<and> sp_backend_name m = Name backend) written \<and>
    (\<forall>k. Suc k < length written \<longrightarrow> emit k) \<and>
    ((\<exists>m \<in> set (delivered emit written). sp_event_type m = ''done'') \<longleftrightarrow> status = OK) \<and>
    (status = OK \<longrightarrow>
      (\<exists>tokens final. written = tokens @ [final] \<and> list_all (\<lambda>m. sp_event_type m = ''token'') tokens \<and>
        sp_event_type final = ''done'' \<and> (\<forall>k < length written. emit k))) \<and>
    (status \<noteq> OK \<longrightarrow> list_all (\<lambda>m. sp_event_type m = ''token'') (delivered emit written))"
proof -
  obtain result events io2 where
    b: "Backend_ProcessStream F os ort (backend_request request) emit (backend, snd (clock_now os io)) = Some (result, events, backend', io2)"
    and st: "(status, message) = (case failure_status result of Some status \<Rightarrow> status | None \<Rightarrow>
        if length (br_outputs result) \<noteq> 1 then (INTERNAL, ''backend returned the wrong number of stream outputs'') else (OK, ''''))"
    and w: "written = map (stream_response (Name backend) request) events"
    using assms by (auto simp: Service_Stream_def Let_def split: option.splits prod.splits if_splits)
  have type: "sp_event_type (stream_response (Name backend) request ev) = ev_event_type ev" for ev
    by (simp add: stream_response_def)
  note ok = worker_stream.stream_contract [OF b]
  have code: "status = OK \<longleftrightarrow> br_code result = kOk" "status \<noteq> INTERNAL" "status \<noteq> INVALID_ARGUMENT"
    using ok st by (cases "br_code result"; auto simp: stream_ok_def failure_status_def)+
  have "list_all (\<lambda>m. sp_id m = ri_id request \<and> sp_trace_id m = ri_trace_id request \<and> sp_backend_name m = Name backend) written"
    by (simp add: w list_all_iff stream_response_def)
  moreover have "(\<exists>m \<in> set (delivered emit written). sp_event_type m = ''done'') \<longleftrightarrow> status = OK"
    using stream_delivers_done [OF ok] code(1) by (simp add: w type)
  moreover have "\<exists>tokens final. written = tokens @ [final] \<and> list_all (\<lambda>m. sp_event_type m = ''token'') tokens \<and>
        sp_event_type final = ''done'' \<and> (\<forall>k < length written. emit k)" if "status = OK"
  proof -
    from ok that code(1) obtain out md tokens where "events = tokens @ [done_event out md]"
      "list_all (\<lambda>ev. ev_event_type ev = ''token'') tokens" "\<forall>k < length events. emit k"
      by (auto simp: stream_ok_def)
    then show ?thesis
      by (intro exI [of _ "map (stream_response (Name backend) request) tokens"]
          exI [of _ "stream_response (Name backend) request (done_event out md)"])
        (simp add: w list_all_iff type done_event_def)
  qed
  moreover have "list_all (\<lambda>m. sp_event_type m = ''token'') (delivered emit written)" if "status \<noteq> OK"
  proof -
    have "\<forall>k < length events. emit k \<longrightarrow> ev_event_type (events ! k) = ''token''"
      using ok that code(1) by (cases "br_code result") (auto simp: stream_ok_def list_all_length)
    then show ?thesis by (auto simp: list_all_iff w type set_delivered)
  qed
  moreover have "\<forall>k. Suc k < length written \<longrightarrow> emit k" using ok by (simp add: stream_ok_def w)
  ultimately show ?thesis using code(2,3) by blast
qed

lemma demo_stream_call:
  "map_option (\<lambda>(status, _). status) (Service_Stream rat_ops demo_host demo_ort demo_item (\<lambda>_. True) (demo_simulator, io_start)) = Some (OK, '''')"
  by code_simp

theorem Service_Stream_protocol_witness:
  "\<exists>tokens final backend' io'. Service_Stream rat_ops demo_host demo_ort demo_item (\<lambda>_. True) (demo_simulator, io_start) =
     Some ((OK, ''''), tokens @ [final], backend', io') \<and> sp_event_type final = ''done''"
proof -
  obtain written backend' io' where
    r: "Service_Stream rat_ops demo_host demo_ort demo_item (\<lambda>_. True) (demo_simulator, io_start) = Some ((OK, ''''), written, backend', io')"
    using demo_stream_call by (auto split: option.splits)
  with Service_Stream_protocol [OF r] show ?thesis by auto
qed

end
