(* ===== verification/Worker_Progress.thy ===== *)
theory Worker_Progress
  imports Worker_Theorems
begin

text \<open>
  When the calls of the service return. The local backends and the model run by ONNX Runtime always do; a child process
  must leave its reader a pause now and then, and a server must end its connections.
\<close>

subsection \<open>Connections that end\<close>

definition connections_end :: "'a os_scheme \<Rightarrow> bool" where
  "connections_end os \<longleftrightarrow> (\<forall>n. \<exists>m \<ge> n. os_recv os m = RecvEof \<or> os_recv os m = RecvError)"

lemma HttpPostJson_total: "connections_end os \<Longrightarrow> HttpPostJson os url body io \<noteq> None"
  unfolding connections_end_def by (metis HttpPostJson_returns option.discI)

lemma stream_step_receives:
  assumes "stream_step os cb started (r, s, i) = Inr (r', s', i')"
  shows "io_recvs i' = Suc (io_recvs i) \<and> os_recv os (io_recvs i) \<noteq> RecvEof \<and> os_recv os (io_recvs i) \<noteq> RecvError"
proof -
  obtain c i1 where c: "is_cancelled os i = (c, i1)" by fastforce
  obtain x i2 where x: "recv_call os i1 = (x, i2)" by fastforce
  obtain response1 i3 where f: "first_byte os started (sr_response r) i2 = (response1, i3)" by fastforce
  have recvs: "io_recvs i2 = Suc (io_recvs i)" "io_recvs i3 = Suc (io_recvs i)" "x = os_recv os (io_recvs i)"
    using is_cancelled_frame [OF c] x first_byte_frame [OF f] by (auto simp: recv_call_def)
  from assms c x f recvs(1,2) have "io_recvs i' = Suc (io_recvs i) \<and> x \<noteq> RecvEof \<and> x \<noteq> RecvError"
    by (cases x) (auto simp: stream_step_def split: if_splits sum.splits prod.splits)
  with recvs(3) show ?thesis by simp
qed

lemma HttpPostJsonStream_total:
  assumes "connections_end os"
  shows "HttpPostJsonStream os url body cb s io \<noteq> None"
proof -
  have loop: "stream_loop os cb started r s1 io1 \<noteq> None" for started r s1 io1
  proof -
    obtain n where n: "io_recvs io1 \<le> n" "os_recv os n = RecvEof \<or> os_recv os n = RecvError"
      using assms unfolding connections_end_def by blast
    have "\<exists>y. iterate (stream_step os cb started) (r, s1, io1) = Some y"
    proof (rule iterate_returns [where I = "\<lambda>(_, _, i). io_recvs i \<le> n" and m = "\<lambda>(_, _, i). Suc n - io_recvs i"])
      fix x x'
      assume I: "case x of (_, _, i) \<Rightarrow> io_recvs i \<le> n" and step: "stream_step os cb started x = Inr x'"
      obtain r s i where x: "x = (r, s, i)" by (cases x)
      obtain r' s' i' where x': "x' = (r', s', i')" by (cases x')
      note rcv = stream_step_receives [OF step [unfolded x x']]
      with n(2) have "io_recvs i \<noteq> n" by auto
      with I rcv show "(case x' of (_, _, i) \<Rightarrow> io_recvs i \<le> n) \<and>
          (case x' of (_, _, i) \<Rightarrow> Suc n - io_recvs i) < (case x of (_, _, i) \<Rightarrow> Suc n - io_recvs i)"
        by (simp add: x x')
    qed (use n in simp)
    then show ?thesis by (simp add: stream_loop_def)
  qed
  obtain out io1 where op: "http_open os url body io = (out, io1)" by fastforce
  show ?thesis
  proof (cases out)
    case (Inr started)
    let ?r0 = "\<lparr>sr_response = empty_response, sr_headers_parsed = False, sr_buffered = []\<rparr>"
    obtain out2 s2 io2 where "stream_loop os cb started ?r0 s io1 = Some (out2, s2, io2)"
      using loop by (metis not_Some_eq surj_pair)
    with op Inr show ?thesis by (cases out2) (simp_all add: HttpPostJsonStream_def)
  qed (simp add: HttpPostJsonStream_def op)
qed

subsection \<open>Backends that return\<close>

lemma LlamaCpp_returns:
  assumes "host_progresses os"
  shows "LlamaCpp_ProcessBatch F os b requests io \<noteq> None"
proof -
  have "LlamaCpp_request F os b n request io1 \<noteq> None" for n request io1
  proof -
    obtain c i1 t i2 where io: "is_cancelled os io1 = (c, i1)" "clock_now os i1 = (t, i2)" by fastforce
    obtain process i3 where "RunProcess os (BuildLlamaCppCommand F (lc_binary_path b) (lc_model_path b) (bq_prompt request)
        (lc_max_tokens b) (lc_context_size b) (lc_threads b) (lc_temperature b)) (lc_timeout_ms b) i2 = Some (process, i3)"
      using RunProcess_total [OF assms] by blast
    then show ?thesis by (simp add: LlamaCpp_request_def io Let_def split: prod.split option.split)
  qed
  then have "each_request (LlamaCpp_request F os b (length requests)) requests [] i \<noteq> None" for i
    by (rule each_request_returns)
  then show ?thesis by (simp add: LlamaCpp_ProcessBatch_def Let_def del: not_None_eq split: prod.split)
qed

lemma LlamaServer_returns:
  assumes "connections_end os"
  shows "LlamaServer_ProcessBatch F os b requests io \<noteq> None"
proof -
  have "LlamaServer_request F os b url n request io1 \<noteq> None" for url n request io1
  proof -
    obtain c i1 t i2 where io: "is_cancelled os io1 = (c, i1)" "clock_now os i1 = (t, i2)" by fastforce
    obtain response i3 where "HttpPostJson os url (BuildLlamaServerRequestBody F (bq_prompt request) (ls_max_tokens b)
        (ls_temperature b) (ls_cache_prompt b) (ls_stream b) (ls_timings_per_token b)) i2 = Some (response, i3)"
      using HttpPostJson_total [OF assms] by (metis not_Some_eq surj_pair)
    then show ?thesis by (simp add: LlamaServer_request_def io Let_def split: prod.split)
  qed
  then have "each_request (LlamaServer_request F os b url n) requests [] i \<noteq> None" for url n i
    by (rule each_request_returns)
  then show ?thesis by (simp add: LlamaServer_ProcessBatch_def Let_def del: not_None_eq split: prod.split)
qed

lemma ProcessStream_returns: "process_batch [request] s \<noteq> None \<Longrightarrow> ProcessStream process_batch request emit s \<noteq> None"
  by (auto simp: ProcessStream_def Let_def split: option.splits)

lemma LlamaServer_stream_returns:
  assumes "connections_end os"
  shows "LlamaServer_ProcessStream F os b request emit io \<noteq> None"
proof (cases "ls_stream b")
  case True
  obtain c i1 t i2 where io: "is_cancelled os io = (c, i1)" "clock_now os i1 = (t, i2)" by fastforce
  obtain response s i3 where "HttpPostJsonStream os (ParseHttpUrl (ls_server_url b)) (BuildLlamaServerRequestBody F (bq_prompt request)
      (ls_max_tokens b) (ls_temperature b) (ls_cache_prompt b) True (ls_timings_per_token b)) (on_body emit) stream_start i2 =
      Some (response, s, i3)"
    using HttpPostJsonStream_total [OF assms] by (metis not_Some_eq surj_pair)
  with True show ?thesis by (simp add: LlamaServer_ProcessStream_def io Let_def split: prod.split)
next
  case False
  have "ProcessStream (LlamaServer_ProcessBatch F os b) request emit io \<noteq> None"
    by (intro ProcessStream_returns LlamaServer_returns assms)
  with False show ?thesis by (simp add: LlamaServer_ProcessStream_def)
qed

definition backend_progresses :: "'a host_scheme \<Rightarrow> 'f Backend \<Rightarrow> bool" where
  "backend_progresses os backend = (case backend of
     LlamaCppB _ \<Rightarrow> host_progresses os
   | LlamaServerB _ \<Rightarrow> connections_end os
   | _ \<Rightarrow> True)"

lemma Backend_batch_returns: "backend_progresses os b \<Longrightarrow> Backend_ProcessBatch F os ort requests (b, io) \<noteq> None"
  using Onnx_returns [of F os ort requests]
  by (cases b) (auto simp: backend_progresses_def with_backend_def Simulator_returns TinyText_returns TinyLLM_returns
      Continuous_returns LlamaCpp_returns LlamaServer_returns)

lemma Backend_stream_returns: "backend_progresses os b \<Longrightarrow> Backend_ProcessStream F os ort request emit (b, io) \<noteq> None"
  using Backend_batch_returns [of os b F ort "[request]" io]
  by (cases b) (auto simp: Backend_ProcessStream_def ProcessStream_returns LlamaServer_stream_returns backend_progresses_def)

text \<open>
  C8: Every call of the service returns: without any condition when the backend is local, if the child process leaves its
  reader a pause now and then for \<open>llama.cpp\<close>, and if connections end or fail for a llama server.
\<close>

theorem Service_returns:
  assumes "backend_progresses os backend"
  shows "(\<exists>answer. Service_ProcessBatch F os ort request (backend, io) = Some answer) \<and>
    (\<exists>answer. Service_Stream F os ort item emit (backend, io) = Some answer)"
proof
  obtain result b io2 where
    "Backend_ProcessBatch F os ort (map backend_request request) (backend, snd (clock_now os io)) = Some (result, b, io2)"
    using Backend_batch_returns [OF assms] by (metis not_Some_eq surj_pair)
  then show "\<exists>answer. Service_ProcessBatch F os ort request (backend, io) = Some answer"
    by (auto dest: Service_ProcessBatch_eq)
  obtain result b events io2 where
    "Backend_ProcessStream F os ort (backend_request item) emit (backend, snd (clock_now os io)) = Some (result, events, b, io2)"
    using Backend_stream_returns [OF assms] by (metis not_Some_eq surj_pair)
  then show "\<exists>answer. Service_Stream F os ort item emit (backend, io) = Some answer"
    by (auto simp: Service_Stream_def Let_def split: prod.splits option.splits)
qed

theorem Service_returns_witness:
  "\<exists>answer. Service_ProcessBatch rat_ops demo_host demo_ort [demo_item] (LlamaCppB demo_llama_cpp, io_start) = Some answer"
  using Service_returns [of demo_host "LlamaCppB demo_llama_cpp" rat_ops demo_ort "[demo_item]" io_start demo_item "\<lambda>_. True"]
  by (simp add: backend_progresses_def demo_host_progresses)

end
