(* ===== verification/Worker_Main.thy ===== *)
theory Worker_Main
  imports Worker_Theorems
begin

text \<open>
  Start of the worker: \<open>main\<close> and \<open>RunServer\<close> of \<open>backend/main.cc\<close> as the sequence of their effects. Printing a float with
  \<open>operator<<\<close> is the parameter \<open>print_float\<close>. Of the gRPC runtime the model has the calls in their order and one answer,
  the pointer \<open>BuildAndStart\<close> returns for an address, which is null, as its documentation says, if no server could be started.
\<close>

subsection \<open>Messages\<close>

definition server_address :: "string list \<Rightarrow> string" where
  "server_address argv = (if 1 < length argv then argv ! 1 else ''0.0.0.0:50051'')"

definition true_false :: "bool \<Rightarrow> string" where
  "true_false b = (if b then ''true'' else ''false'')"

text \<open>The lines for the settings of the configured backend.\<close>

definition setting_messages :: "('f \<Rightarrow> string) \<Rightarrow> 'f BackendConfig \<Rightarrow> string list" where
  "setting_messages print_float config =
     (if bc_kind config = kSimulator then
        [''Simulator latency model: base '' @ to_string (bc_simulator_base_latency_ms config) @ ''ms + '' @
           to_string (bc_simulator_per_request_latency_ms config) @ ''ms per request'']
      else if bc_kind config = kTinyTextModel then
        [''Tiny model iterations: '' @ to_string (bc_tiny_model_iterations config)]
      else if bc_kind config = kTinyLLM then
        [''Tiny LLM max generated tokens: '' @ to_string (bc_tiny_llm_max_generated_tokens config),
         ''Tiny LLM top_k: '' @ to_string (bc_tiny_llm_top_k config),
         ''Tiny LLM temperature: '' @ print_float (bc_tiny_llm_temperature config)]
      else if bc_kind config = kContinuousTinyLLM then
        [''Continuous Tiny LLM max generated tokens: '' @ to_string (bc_tiny_llm_max_generated_tokens config),
         ''Continuous Tiny LLM prefill tokens/step: '' @ to_string (bc_continuous_max_prefill_tokens_per_step config),
         ''Continuous Tiny LLM decode sequences/step: '' @ to_string (bc_continuous_max_decode_sequences_per_step config),
         ''Continuous Tiny LLM KV blocks: '' @ to_string (bc_continuous_kv_cache_blocks config),
         ''Continuous Tiny LLM KV block tokens: '' @ to_string (bc_continuous_kv_block_tokens config),
         ''Continuous Tiny LLM prefix cache tokens: '' @ to_string (bc_continuous_prefix_cache_tokens config)]
      else if bc_kind config = kLlamaCpp then
        [''llama.cpp binary: '' @ bc_llama_cpp_binary_path config,
         ''llama.cpp model: '' @ bc_llama_cpp_model_path config,
         ''llama.cpp max tokens: '' @ to_string (bc_llama_cpp_max_tokens config),
         ''llama.cpp context size: '' @ to_string (bc_llama_cpp_context_size config),
         ''llama.cpp threads: '' @ to_string (bc_llama_cpp_threads config),
         ''llama.cpp temperature: '' @ print_float (bc_llama_cpp_temperature config),
         ''llama.cpp timeout ms: '' @ to_string (bc_llama_cpp_timeout_ms config)]
      else if bc_kind config = kLlamaServer then
        [''llama.cpp server URL: '' @ bc_llama_server_url config,
         ''llama.cpp server max tokens: '' @ to_string (bc_llama_server_max_tokens config),
         ''llama.cpp server temperature: '' @ print_float (bc_llama_server_temperature config),
         ''llama.cpp server timeout ms: '' @ to_string (bc_llama_server_timeout_ms config),
         ''llama.cpp server cache_prompt: '' @ true_false (bc_llama_server_cache_prompt config),
         ''llama.cpp server stream: '' @ true_false (bc_llama_server_stream config),
         ''llama.cpp server timings_per_token: '' @ true_false (bc_llama_server_timings_per_token config)]
      else if bc_kind config = kOnnxRuntime then
        [''ONNX model path: '' @ bc_onnx_model_path config,
         ''ONNX Runtime library: '' @ bc_onnx_runtime_library_path config]
      else [])"

definition startup_messages :: "('f \<Rightarrow> string) \<Rightarrow> string \<Rightarrow> 'f BackendConfig \<Rightarrow> string list" where
  "startup_messages print_float backend_name config =
     [''=== Laminar Inference - C++ Worker ==='', ''Backend: '' @ backend_name] @ setting_messages print_float config @
     [''========================================'']"

subsection \<open>The server\<close>

text \<open>
  The pointer \<open>BuildAndStart\<close> returns is \<^term>\<open>None\<close> when it is null; a member call through it is recorded with the pointer.
\<close>

datatype 'f effect =
  PrintLine string
| EnableDefaultHealthCheckService bool
| AddListeningPort string
| RegisterService "'f Backend"
| BuildAndStart
| ServerWait "nat option"

definition RunServer :: "(string \<Rightarrow> nat option) \<Rightarrow> string \<Rightarrow> 'f Backend \<Rightarrow> 'f effect list" where
  "RunServer build_and_start address backend =
     (let server = build_and_start address
      in [EnableDefaultHealthCheckService True, AddListeningPort address, RegisterService backend, BuildAndStart,
          PrintLine (''[C++ Worker] Server listening on '' @ address),
          PrintLine ''[C++ Worker] Ready to process batches...'', ServerWait server])"

definition worker_main ::
  "'f float_ops \<Rightarrow> 'a host_scheme \<Rightarrow> 'f ort_api \<Rightarrow> ('f \<Rightarrow> string) \<Rightarrow> (string \<Rightarrow> nat option) \<Rightarrow> (string \<Rightarrow> string option) \<Rightarrow>
     string list \<Rightarrow> 'f effect list" where
  "worker_main F os ort print_float build_and_start env argv =
     (let address = server_address argv;
          backend_config = BackendConfigFromEnv F env;
          backend = CreateBackend F os ort backend_config
      in map PrintLine (startup_messages print_float (Name backend) backend_config) @ RunServer build_and_start address backend)"

subsection \<open>What is announced\<close>

text \<open>
  The lines \<open>main\<close> should print for a backend, with the values of the object that will serve the requests. A temperature is
  left out: the constructors clamp it again, and no law of the float comparison says that this changes nothing.
\<close>

fun announced :: "'f Backend \<Rightarrow> string list" where
  "announced (SimulatorB b) =
     [''Simulator latency model: base '' @ to_string (sb_base_latency_ms b) @ ''ms + '' @ to_string (sb_per_request_latency_ms b) @
        ''ms per request'']"
| "announced (TinyTextModelB iterations) = [''Tiny model iterations: '' @ to_string iterations]"
| "announced (TinyLLMB b) =
     [''Tiny LLM max generated tokens: '' @ to_string (tl_max_generated_tokens b), ''Tiny LLM top_k: '' @ to_string (tl_top_k b)]"
| "announced (ContinuousTinyLLMB b) =
     [''Continuous Tiny LLM max generated tokens: '' @ to_string (ct_max_generated_tokens b),
      ''Continuous Tiny LLM prefill tokens/step: '' @ to_string (cb_max_prefill_tokens_per_step (scheduler_config b)),
      ''Continuous Tiny LLM decode sequences/step: '' @ to_string (cb_max_decode_sequences_per_step (scheduler_config b)),
      ''Continuous Tiny LLM KV blocks: '' @ to_string (cb_kv_cache_blocks (scheduler_config b)),
      ''Continuous Tiny LLM KV block tokens: '' @ to_string (cb_kv_block_tokens (scheduler_config b)),
      ''Continuous Tiny LLM prefix cache tokens: '' @ to_string (ct_prefix_cache_tokens b)]"
| "announced (OnnxRuntimeB b) =
     [''ONNX model path: '' @ ox_model_path b, ''ONNX Runtime library: '' @ ox_runtime_library_path b]"
| "announced (LlamaCppB b) =
     [''llama.cpp binary: '' @ lc_binary_path b, ''llama.cpp model: '' @ lc_model_path b,
      ''llama.cpp max tokens: '' @ to_string (lc_max_tokens b), ''llama.cpp context size: '' @ to_string (lc_context_size b),
      ''llama.cpp threads: '' @ to_string (lc_threads b), ''llama.cpp timeout ms: '' @ to_string (lc_timeout_ms b)]"
| "announced (LlamaServerB b) =
     [''llama.cpp server URL: '' @ ls_server_url b, ''llama.cpp server max tokens: '' @ to_string (ls_max_tokens b),
      ''llama.cpp server timeout ms: '' @ to_string (ls_timeout_ms b),
      ''llama.cpp server cache_prompt: '' @ true_false (ls_cache_prompt b), ''llama.cpp server stream: '' @ true_false (ls_stream b),
      ''llama.cpp server timings_per_token: '' @ true_false (ls_timings_per_token b)]"

fun kind_of :: "'f Backend \<Rightarrow> BackendKind" where
  "kind_of (SimulatorB _) = kSimulator"
| "kind_of (TinyTextModelB _) = kTinyTextModel"
| "kind_of (TinyLLMB _) = kTinyLLM"
| "kind_of (ContinuousTinyLLMB _) = kContinuousTinyLLM"
| "kind_of (OnnxRuntimeB _) = kOnnxRuntime"
| "kind_of (LlamaCppB _) = kLlamaCpp"
| "kind_of (LlamaServerB _) = kLlamaServer"

definition temperature_line :: "string \<Rightarrow> bool" where
  "temperature_line line \<longleftrightarrow> list_ex (\<lambda>label. take (length label) line = label)
     [''Tiny LLM temperature: '', ''llama.cpp temperature: '', ''llama.cpp server temperature: '']"

lemma announced_settings:
  assumes "runs_with c b" and "Name b = BackendKindName (bc_kind c)"
  shows "filter (\<lambda>line. \<not> temperature_line line) (setting_messages print_float c) = announced b"
proof -
  have "bc_kind c = kind_of b" using assms(2) by (cases b; cases "bc_kind c") (simp_all add: BackendKindName_def)
  with assms(1) show ?thesis by (cases b) (simp_all add: setting_messages_def temperature_line_def)
qed

text \<open>The lines printed, and the other calls.\<close>

definition printed :: "'f effect list \<Rightarrow> string list" where
  "printed effects = concat (map (\<lambda>e. case e of PrintLine line \<Rightarrow> [line] | _ \<Rightarrow> []) effects)"

definition called :: "'f effect list \<Rightarrow> 'f effect list" where
  "called effects = filter (\<lambda>e. case e of PrintLine _ \<Rightarrow> False | _ \<Rightarrow> True) effects"

lemma printed_lines [simp]: "printed (map PrintLine lines @ es) = lines @ printed es" "called (map PrintLine lines @ es) = called es"
  by (induction lines) (simp_all add: printed_def called_def)

text \<open>
  C38: The worker announces what it runs. Whatever the environment and the arguments, it prints the name of the configured
  backend, then its settings, of which all but the temperature have the values the created backend runs with, and then
  that it listens. It registers exactly this backend on the given address, starts the server and waits on the pointer
  this returned, null or not.
\<close>

theorem worker_main_announces:
  "let backend = CreateBackend F os ort (BackendConfigFromEnv F env); address = server_address argv;
       effects = worker_main F os ort print_float build_and_start env argv
   in (\<exists>settings. printed effects =
         [''=== Laminar Inference - C++ Worker ==='', ''Backend: '' @ BackendKindName (bc_kind (BackendConfigFromEnv F env))] @ settings @
         [''========================================'', ''[C++ Worker] Server listening on '' @ address,
          ''[C++ Worker] Ready to process batches...''] \<and>
         filter (\<lambda>line. \<not> temperature_line line) settings = announced backend) \<and>
      called effects = [EnableDefaultHealthCheckService True, AddListeningPort address, RegisterService backend, BuildAndStart,
        ServerWait (build_and_start address)]"
proof -
  let ?config = "BackendConfigFromEnv F env"
  let ?backend = "CreateBackend F os ort ?config"
  have "filter (\<lambda>line. \<not> temperature_line line) (setting_messages print_float ?config) = announced ?backend"
    using Name_CreateBackend CreateBackend_runs_with [OF BackendConfigFromEnv_range] by (rule announced_settings [rotated])
  then show ?thesis
    unfolding Let_def worker_main_def printed_lines
    by (intro conjI exI [of _ "setting_messages print_float ?config"])
      (simp_all add: startup_messages_def Name_CreateBackend RunServer_def printed_def called_def)
qed

end
