(* ===== verification/Spec2Isabelle.thy ===== *)
theory Spec2Isabelle
  imports Kv_Theorems Batcher_Theorems Continuous_Fit Http_Equiv Llama_Theorems Onnx_Backend Worker_Progress Worker_Main
begin

text \<open>
  \<^bold>\<open>Verification of the Laminar inference worker\<close>

  The program. Laminar is an inference server: an HTTP gateway written in Go batches requests and sends them over gRPC to a
  worker written in C++, which this development verifies (\<open>backend/\<close>). The worker reads its configuration from the
  environment, creates one of seven backends, and serves two calls, \<open>ProcessBatch\<close> and \<open>Stream\<close>. The backends are a latency
  simulator, a small text classifier, a small decoder, the same decoder behind a continuous-batching scheduler with a paged
  key-value cache, a model run by ONNX Runtime, a \<open>llama.cpp\<close> child process, and a \<open>llama.cpp\<close> HTTP server.

  \<^bold>\<open>Theories and sources\<close>

  \<^item> \<open>Laminar_Prelude\<close>, \<open>Ordered_Map\<close>, \<open>Std_Sort\<close>: lists, possibly endless loops (\<open>iterate\<close>, with rules for invariants,
    termination and simulation), \<open>std::map\<close> as an ordered association list behind the locale \<open>std_map\<close>, and \<open>std::sort\<close>.
  \<^item> \<open>Kv_Allocator\<close> models \<open>KvBlockAllocator\<close> of \<open>scheduling/continuous_batcher.cc\<close>: block table, sequences, prefix cache,
    eviction. \<open>Kv_Interface\<close> states what a client of the allocator may rely on as a locale; \<open>Kv_Invariant\<close>, \<open>Kv_Capacity\<close> and
    \<open>Kv_Correct\<close> prove the invariant, the exact capacity and the interpretation; \<open>Kv_Theorems\<close> holds the results. \<open>Kv_Fit\<close>
    extends the locale by what a cache with enough room promises, and interprets it on the allocator.
  \<^item> \<open>Batcher\<close> models \<open>ContinuousBatcher::Run\<close>. \<open>Batcher_Machine\<close>, \<open>Batcher_Correct\<close> and \<open>Batcher_Run\<close> prove its loop correct
    over the allocator's interface; \<open>Batcher_History\<close> ties the numbers of every result to the steps that decoded its id;
    \<open>Batcher_Theorems\<close> holds the results. \<open>Batcher_Fit\<close> shows that a batch that fits into the cache is completed,
    \<open>Continuous_Fit\<close> that the decoder behind the scheduler then succeeds.
  \<^item> \<open>Text_Util\<close>, \<open>Float_Ops\<close>, \<open>Llama_Json\<close>: the string functions, tokenizers, hashing, and the reader and writer of JSON
    fields and server-sent events of \<open>inference_backend.cc\<close>.
  \<^item> \<open>Worker_Io\<close>: the outside world. A record of functions gives the answers: of the \<open>k\<close>-th call for \<open>send\<close>, \<open>recv\<close>, \<open>read\<close>,
    the clock, the cancellation callback and the two kinds of \<open>waitpid\<close> (without waiting, and blocking, which never answers
    that the child still runs), by host and by address for the resolver and the connections. The state \<open>io\<close> counts the calls
    and the open sockets, pipes, resolver results and children.
  \<^item> \<open>Process\<close>: \<open>RunProcess\<close> and its helpers. \<open>Llama_Http\<close>, \<open>Http_Stream\<close>, \<open>Http_Equiv\<close>: \<open>ParseHttpUrl\<close>, \<open>HttpPostJson\<close>,
    \<open>HttpPostJsonStream\<close>, that the two clients deliver the same body if the headers stay within the limit of the stream, and
    what the stream makes of a connection that fails.
  \<^item> \<open>Env_Config\<close>: \<open>BackendConfigFromEnv\<close> and the readers it uses. \<open>Tiny_Model\<close>: the classifier's and the decoder's arithmetic.
  \<^item> \<open>Backend_Api\<close>: the types of \<open>inference_backend.h\<close>, the default \<open>ProcessStream\<close>, and the contract of a backend as the locales
    \<open>inference_backend\<close> and \<open>streaming_backend\<close>. \<open>Local_Backends\<close>, \<open>Llama_Backends\<close> and \<open>Onnx_Backend\<close> model the seven backends and
    interpret the locales on each; \<open>Llama_Theorems\<close> compares streaming with batches.
  \<^item> \<open>Worker\<close>: \<open>CreateBackend\<close>, the virtual calls, and the gRPC handlers of \<open>main.cc\<close>; \<open>Worker_Theorems\<close> what clients
    see; \<open>Worker_Progress\<close> when calls return; \<open>Worker_Main\<close> is \<open>main\<close> and \<open>RunServer\<close>, as the list of what they print and
    call.

  \<^bold>\<open>How the model corresponds to the code\<close>

  A struct or class is a record, an enumeration a datatype; definitions keep the names of the functions they translate, and
  parts of long functions (loop bodies, tails) are definitions of their own. \<open>HashToken\<close> is on 32-bit words; the \<open>long\<close> of
  \<open>strtol\<close> saturates at 64 bits and its conversion to \<open>int\<close> is written out; the remaining \<open>int\<close> variables are unbounded, and
  their values come from the clamped configuration, sizes of strings and vectors, and the clock; the one sum that a large
  configuration value enters, in \<open>CeilDiv\<close>, is shown to stay in range under the clamps (\<open>CeilDiv_no_overflow\<close>). Floats are a
  parameter, a record of the operations the code applies; no theorem assumes a law of them. The average decode batch size, a
  \<open>double\<close>, is the exact quotient it rounds. Pointers into vectors are positions, and the server pointer is whether it is
  null. Calls of the service are modelled one after the other: what two gRPC threads do to one backend at the same time (the
  ONNX backend changes its \<open>ready\<close> flag and its reason) is outside the model. Exceptions (\<open>bad_alloc\<close>, a throwing
  \<open>filesystem::exists\<close>) are not modelled.

  Loops that end for every input are functions with a termination proof. The scheduler's loop is \<open>while_option\<close> and loops
  driven by the operating system are \<open>iterate\<close>, where \<open>None\<close> is a loop that does not end; there is no fuel. Theorems of the
  form \<open>f x = Some y\<close> state what holds on return, and separate theorems state when calls return: always for the scheduler and
  the local backends, under named conditions on the outside world for the others (\<open>host_progresses\<close> for a child process, a
  connection that ends for a server). One theorem shows that the condition on a child's output is needed.

  \<^bold>\<open>What is shown\<close>

  \<^item> The allocator keeps its invariant from every reachable state, its operations refine a map from sequences to token counts,
    blocks are shared only within a cached prefix, and requests are refused exactly when blocks are missing. No block leaks
    as long as every prefix key is used with one token count, and the blocks of an idle entry are lost for good whenever its
    key is used with another count while there are free blocks.
  \<^item> The scheduler ends, gives every request exactly one final result, keeps its budgets, counts correctly, and leaves the
    allocator empty. The step, token and block numbers of a result are those of the steps that decoded the request, for every
    request whose id is unique in its batch. A batch whose prompts and completions fit into the cache together is served
    completely, and the continuous decoder then answers with success.
  \<^item> The decoder backends compute a reference completion, with or without the scheduler, of words of the vocabulary; the
    classifier answers with the most probable label of each prompt, in order; every backend keeps one contract, so that the
    service never answers with an internal error and a client gets a \<open>done\<close> message exactly on success.
  \<^item> Incremental parsing agrees with parsing the whole body for every way of cutting it, and streaming from a server agrees
    with the batch call if the client accepts every event and the headers are at most 64 KiB.
  \<^item> Sockets, pipes, children, tensors and library handles are released on every path.
  \<^item> Round trips of the request body, URLs, backend names and numbers; the configuration stays in range and reaches the
    backend unchanged, and the settings the start-up messages print are those the backend runs with.
  \<^item> Theorems about behaviour that is probably not meant: leaked blocks, tokens of cancelled requests, escapes that are not
    decoded, a child that cannot be stopped, a stream cut by a failing connection that looks like a complete one, a worker
    that announces that it listens and waits on a null server pointer when the server could not be started.

  \<^bold>\<open>Not modelled\<close>

  The Go gateway, the scripts and the tests; the generated protocol code and the gRPC runtime, of which only the order of
  calls and the result of \<open>BuildAndStart\<close> appear; the log lines of the two handlers; the child between \<open>fork\<close> and \<open>exec\<close>; \<open>SetSocketTimeout\<close>, which changes only when later
  calls answer; the internals of ONNX Runtime, a parameter of the model.
\<close>

end
